(* ===== verification/Prelude.thy ===== *)
theory Prelude
  imports Main "HOL-Library.AList"
begin

text \<open>
  Shared vocabulary of the development: outcomes of Go calls (errors as values, panics as an
  outcome of their own), 64-bit integers and clock readings, Go maps as association lists, and
  the functions of Go's \<open>strings\<close> package that the program calls. A Go string is a byte
  sequence, so it is a \<^typ>\<open>string\<close> here (a list of 8-bit characters).
\<close>

section \<open>Hint collections\<close>

named_theorems go_map_simps \<open>lookups in updated Go maps\<close>
named_theorems go_string_simps \<open>facts about the modelled string functions\<close>

section \<open>Results, errors and panics\<close>

text \<open>
  The errors the broker builds itself, one constructor per \<open>fmt.Errorf\<close> or
  \<open>errors.New\<close> call, with the values the message shows; \<open>ExtErr\<close> carries the text of an
  error that comes from code outside the repository. Of the errors of \<open>encoding/json\<close> only the kind
  is kept.
\<close>

datatype go_error =
    ExtErr string
  | Wrapped string go_error
  | Joined "go_error list"
  | MissingClaim string
  | AudienceMismatch "string list" "string list"
  | ExpiryTooShort int int
  | ExpiryTooLong int int
  | MissingIssuedAt
  | MissingExpiry
  | ExpiryTooFar
  | TokenTooEarly
  | TokenTooLate
  | NoVerifiers
  | NoVerifierMatched "go_error list"
  | NoAccessToken
  | NoIdToken
  | UnknownAccount string
  | UnknownRole string
  | NoStrictMatch
  | NoBestMatch
  | EmptyAccountName
  | NoJwtInRequest
  | NilClaims
  | NilKeyPair
  | KeyMismatch
  | SigningKeyUnavailable
  | IssuerMismatch
  | MissingServiceName
  | ValidationFailed "string list"
  | NoGlobMatch string
  | BadGlob string
  | BadAudience
  | ConfigError string
  | UnrecognisedToken nat
  | InvalidJweFormat
  | JsonSyntaxError
  | JsonTypeError
  | JsonUnsupportedValue

text \<open>A fallible Go call returns \<open>Inl err\<close> or \<open>Inr value\<close>.\<close>

type_synonym 'a result = "go_error + 'a"

abbreviation Err :: "go_error \<Rightarrow> 'a result" where
  "Err e \<equiv> Inl e"

abbreviation Ok :: "'a \<Rightarrow> 'a result" where
  "Ok v \<equiv> Inr v"

lemma not_Err_unit [simp]: "(\<forall>e. (r :: unit result) \<noteq> Err e) \<longleftrightarrow> r = Ok ()"
  by (cases r) auto

text \<open>A loop that returns from the function at the first error.\<close>

fun fold_result :: "('x \<Rightarrow> 's \<Rightarrow> 's result) \<Rightarrow> 'x list \<Rightarrow> 's \<Rightarrow> 's result" where
  "fold_result f [] s = Ok s"
| "fold_result f (x # xs) s = (case f x s of Inl e \<Rightarrow> Err e | Inr s' \<Rightarrow> fold_result f xs s')"

lemma fold_result_append:
  "fold_result f (xs @ ys) s = (case fold_result f xs s of Inl e \<Rightarrow> Err e | Inr s' \<Rightarrow> fold_result f ys s')"
  by (induction xs arbitrary: s) (auto split: sum.split)

text \<open>A Go call can also panic; no caller in the repository recovers.\<close>

datatype panic = NilDereference | ReflectSetZeroValue | CloseOfClosedChannel

datatype 'a outcome = Done 'a | Panic panic

fun bind_outcome :: "'a outcome \<Rightarrow> ('a \<Rightarrow> 'b outcome) \<Rightarrow> 'b outcome" where
  "bind_outcome (Done x) f = f x"
| "bind_outcome (Panic p) f = Panic p"

fun fold_outcome :: "('x \<Rightarrow> 's \<Rightarrow> 's outcome) \<Rightarrow> 'x list \<Rightarrow> 's \<Rightarrow> 's outcome" where
  "fold_outcome f [] s = Done s"
| "fold_outcome f (x # xs) s = bind_outcome (f x s) (fold_outcome f xs)"

lemma bind_outcome_Done_iff:
  "bind_outcome r f = Done y \<longleftrightarrow> (\<exists>x. r = Done x \<and> f x = Done y)"
  by (cases r) auto

lemma fold_outcome_append:
  "fold_outcome f (xs @ ys) s = bind_outcome (fold_outcome f xs s) (fold_outcome f ys)"
proof (induction xs arbitrary: s)
  case (Cons x xs)
  then show ?case by (cases "f x s") simp_all
qed simp

lemma find_SomeD: "find P xs = Some x \<Longrightarrow> P x \<and> x \<in> set xs"
  by (induction xs) (auto split: if_splits)

text \<open>A sequence of statements \<open>if cond { assignment }\<close>.\<close>

fun guarded :: "(bool \<times> ('s \<Rightarrow> 's)) list \<Rightarrow> 's \<Rightarrow> 's" where
  "guarded [] s = s"
| "guarded ((b, f) # gs) s = guarded gs (if b then f s else s)"

section \<open>64-bit integers and time\<close>

text \<open>
  \<open>int64\<close> values are mathematical integers in range; arithmetic that can leave the range is
  written with \<open>wrap64\<close>. A \<open>time.Duration\<close> is an \<open>int64\<close> number of nanoseconds. A
  \<open>time.Time\<close> is its number of nanoseconds since the epoch, \<open>Unix\<close> rounds it down to seconds.
\<close>

definition wrap64 :: "int \<Rightarrow> int" where
  "wrap64 x = (x + 2 ^ 63) mod 2 ^ 64 - 2 ^ 63"

definition in_i64 :: "int \<Rightarrow> bool" where
  "in_i64 x \<longleftrightarrow> - (2 ^ 63) \<le> x \<and> x < 2 ^ 63"

lemma wrap64_id [simp]: "in_i64 x \<Longrightarrow> wrap64 x = x"
  by (simp add: wrap64_def in_i64_def)

lemma in_i64_wrap64 [simp]: "in_i64 (wrap64 x)"
  by (simp add: wrap64_def in_i64_def pos_mod_bound)

abbreviation (input) second :: int where
  "second \<equiv> 1000000000"

definition unix_of :: "int \<Rightarrow> int" where
  "unix_of t = t div second"

lemma unix_of_mono: "s \<le> t \<Longrightarrow> unix_of s \<le> unix_of t"
  by (simp add: unix_of_def zdiv_mono1)

text \<open>Go's integer division truncates towards zero.\<close>

definition quot :: "int \<Rightarrow> int \<Rightarrow> int" where
  "quot a b = sgn a * sgn b * (\<bar>a\<bar> div \<bar>b\<bar>)"

definition rem :: "int \<Rightarrow> int \<Rightarrow> int" where
  "rem a b = a - b * quot a b"

lemma quot_mult [simp]:
  assumes "b \<noteq> 0"
  shows "quot (a * b) b = a"
proof -
  have "sgn b * sgn b = 1" using assms by (simp add: sgn_if)
  then have "sgn a * sgn b * sgn b * \<bar>a\<bar> = sgn a * \<bar>a\<bar>" by (simp add: mult.assoc)
  with assms show ?thesis by (simp add: quot_def abs_mult sgn_mult sgn_mult_abs)
qed

lemma rem_mult [simp]: "b \<noteq> 0 \<Longrightarrow> rem (a * b) b = 0"
  by (simp add: rem_def)

section \<open>Go maps as association lists\<close>

text \<open>
  A Go map is the list of its entries in the order a \<open>range\<close> loop visits them; the keys are
  distinct. Go leaves that order open, so every property of a loop over a map holds for each
  order of the list.
\<close>

definition wf_map :: "('k \<times> 'v) list \<Rightarrow> bool" where
  "wf_map m \<longleftrightarrow> distinct (map fst m)"

definition mget :: "('k \<times> 'v) list \<Rightarrow> 'k \<Rightarrow> 'v option" where
  "mget m k = map_of m k"

definition mput :: "'k \<Rightarrow> 'v \<Rightarrow> ('k \<times> 'v) list \<Rightarrow> ('k \<times> 'v) list" where
  "mput k v m = AList.update k v m"

text \<open>The loop \<open>for k, v := range src { dst[k] = v }\<close>.\<close>

definition overlay :: "('k \<times> 'v) list \<Rightarrow> ('k \<times> 'v) list \<Rightarrow> ('k \<times> 'v) list" where
  "overlay dst src = fold (\<lambda>(k, v) d. mput k v d) src dst"

locale keyed_store =
  fixes get :: "'m \<Rightarrow> 'k \<Rightarrow> 'v option"
    and put :: "'k \<Rightarrow> 'v \<Rightarrow> 'm \<Rightarrow> 'm"
    and inv :: "'m \<Rightarrow> bool"
  assumes get_put: "get (put k v m) x = (if x = k then Some v else get m x)"
    and inv_put: "inv m \<Longrightarrow> inv (put k v m)"
begin

lemma inv_puts: "inv m \<Longrightarrow> inv (fold (\<lambda>(k, v) d. put k v d) src m)"
  by (induction src arbitrary: m) (auto intro: inv_put)

lemma get_puts_notin:
  "x \<notin> fst ` set src \<Longrightarrow> get (fold (\<lambda>(k, v) d. put k v d) src m) x = get m x"
  by (induction src arbitrary: m) (auto simp: get_put)

lemma get_puts:
  "distinct (map fst src) \<Longrightarrow>
   get (fold (\<lambda>(k, v) d. put k v d) src m) x =
     (case map_of src x of None \<Rightarrow> get m x | Some v \<Rightarrow> Some v)"
proof (induction src arbitrary: m)
  case (Cons kv src)
  obtain k v where kv: "kv = (k, v)" by (cases kv)
  show ?case
  proof (cases "x = k")
    case True
    with Cons.prems kv have "x \<notin> fst ` set src" by auto
    with True kv show ?thesis by (simp add: get_puts_notin get_put)
  next
    case False
    with Cons kv show ?thesis by (simp add: get_put split: option.split)
  qed
qed simp

lemma puts_stable:
  "\<forall>x. get m x = get m' x \<Longrightarrow>
   get (fold (\<lambda>(k, v) d. put k v d) src m) x = get (fold (\<lambda>(k, v) d. put k v d) src m') x"
  by (induction src arbitrary: m m') (auto simp: get_put)

end

interpretation gomap: keyed_store mget mput wf_map
  by unfold_locales
    (auto simp: mget_def mput_def wf_map_def update_conv' distinct_update)

lemma wf_map_Nil [simp]: "wf_map []"
  by (simp add: wf_map_def)

lemma mget_Nil [simp]: "mget [] k = None"
  by (simp add: mget_def)

lemma mget_mput [simp, go_map_simps]: "mget (mput k v m) x = (if x = k then Some v else mget m x)"
  by (rule gomap.get_put)

lemma wf_map_mput [simp, go_map_simps]: "wf_map m \<Longrightarrow> wf_map (mput k v m)"
  by (rule gomap.inv_put)

lemma wf_map_overlay [simp, go_map_simps]: "wf_map dst \<Longrightarrow> wf_map (overlay dst src)"
  unfolding overlay_def by (rule gomap.inv_puts)

lemma mget_overlay [go_map_simps]:
  "wf_map src \<Longrightarrow>
   mget (overlay dst src) x = (case mget src x of None \<Rightarrow> mget dst x | Some v \<Rightarrow> Some v)"
  using gomap.get_puts [of src dst x] by (simp add: overlay_def wf_map_def mget_def)

lemma overlay_disjoint:
  "wf_map src \<Longrightarrow> fst ` set src \<inter> fst ` set dst = {} \<Longrightarrow> overlay dst src = dst @ src"
proof (induction src arbitrary: dst)
  case (Cons kv src)
  obtain k v where kv: "kv = (k, v)" by (cases kv)
  have "k \<notin> fst ` set d \<Longrightarrow> AList.update k v d = d @ [(k, v)]" for d :: "('a \<times> 'b) list"
    by (induction d) auto
  with Cons.prems kv have "mput k v dst = dst @ [(k, v)]" by (auto simp: mput_def)
  with Cons.prems kv Cons.IH [of "dst @ [(k, v)]"] show ?case
    by (auto simp: overlay_def wf_map_def)
qed (simp add: overlay_def)

lemma mget_eq_Some_iff: "wf_map m \<Longrightarrow> mget m k = Some v \<longleftrightarrow> (k, v) \<in> set m"
  by (simp add: mget_def wf_map_def map_of_eq_Some_iff)

lemma mget_eq_None_iff: "mget m k = None \<longleftrightarrow> k \<notin> fst ` set m"
  by (simp add: mget_def map_of_eq_None_iff)

text \<open>Two maps hold the same entries, whatever the order of iteration.\<close>

definition same_map :: "('k \<times> 'v) list \<Rightarrow> ('k \<times> 'v) list \<Rightarrow> bool" where
  "same_map m m' \<longleftrightarrow> wf_map m \<and> wf_map m' \<and> set m = set m'"

lemma same_map_get: "same_map m m' \<Longrightarrow> mget m k = mget m' k"
  using map_of_inject_set [of m m'] by (simp add: same_map_def wf_map_def mget_def)

section \<open>Invariants of step relations\<close>

text \<open>A property that each step keeps holds in every state reached from one that has it.\<close>

locale step_invariant =
  fixes step :: "'s \<Rightarrow> 's \<Rightarrow> bool"
    and holds :: "'s \<Rightarrow> bool"
  assumes step_keeps: "step s s' \<Longrightarrow> holds s \<Longrightarrow> holds s'"
begin

lemma run_keeps: "rtranclp step s s' \<Longrightarrow> holds s \<Longrightarrow> holds s'"
  by (induction rule: rtranclp_induct) (auto intro: step_keeps)

end

end
