(* ===== verification/Go_Values.thy ===== *)
theory Go_Values
  imports Go_Strings
begin

text \<open>
  Go's dynamic values (\<open>interface{}\<close>) as the broker meets them: what \<open>encoding/json\<close> and
  the YAML decoder produce, and what the broker's code puts into claim maps. A \<open>float64\<close> is a
  dyadic number written with mantissa and exponent, so conversions from and to \<open>int64\<close> are
  computed with Go's rounding.
\<close>

section \<open>float64\<close>

text \<open>\<open>Fin m e\<close> is the number \<open>m * 2 ^ e\<close>; \<open>NonFin\<close> is a NaN or an infinity, by name.\<close>

datatype f64 = Fin int int | NonFin string

fun bit_length :: "int \<Rightarrow> nat" where
  "bit_length x = (if x \<le> 0 then 0 else Suc (bit_length (x div 2)))"

declare bit_length.simps [simp del]

text \<open>The integer nearest to \<open>a / b\<close>, ties to the even one (for \<open>b > 0\<close>).\<close>

definition round_even :: "int \<Rightarrow> int \<Rightarrow> int" where
  "round_even a b =
     (let q = a div b; r = a mod b
      in if 2 * r > b \<or> (2 * r = b \<and> odd q) then q + 1 else q)"

text \<open>The double nearest to \<open>p / q\<close> (for \<open>q > 0\<close>): a 53-bit mantissa.\<close>

definition f64_ratio :: "int \<Rightarrow> int \<Rightarrow> f64" where
  "f64_ratio p q =
     (if p = 0 then Fin 0 0
      else let e0 = int (bit_length \<bar>p\<bar>) - int (bit_length q) - 53;
               scaled = (\<lambda>e. if 0 \<le> e then (p, q * 2 ^ nat e) else (p * 2 ^ nat (- e), q));
               e = (if \<bar>fst (scaled e0)\<bar> div snd (scaled e0) \<ge> 2 ^ 53 then e0 + 1 else e0)
           in Fin (round_even (fst (scaled e)) (snd (scaled e))) e)"

definition f64_of_int :: "int \<Rightarrow> f64" where
  "f64_of_int x = (if \<bar>x\<bar> < 2 ^ 53 then Fin x 0 else f64_ratio x 1)"

fun f64_add :: "f64 \<Rightarrow> f64 \<Rightarrow> f64" where
  "f64_add (Fin m e) (Fin n g) =
     (let l = min e g; s = m * 2 ^ nat (e - l) + n * 2 ^ nat (g - l)
      in if \<bar>s\<bar> < 2 ^ 53 then Fin s l
         else if 0 \<le> l then f64_ratio (s * 2 ^ nat l) 1
         else f64_ratio s (2 ^ nat (- l)))"
| "f64_add (NonFin s) _ = NonFin s"
| "f64_add _ (NonFin s) = NonFin s"

text \<open>The integer part, where there is one.\<close>

fun f64_trunc :: "f64 \<Rightarrow> int option" where
  "f64_trunc (Fin m e) =
     Some (if 0 \<le> e then m * 2 ^ nat e else quot m (2 ^ nat (- e)))"
| "f64_trunc (NonFin s) = None"

text \<open>
  What Go leaves to the implementation, or does with tables of its own: the result of converting
  an out-of-range \<open>float64\<close> to \<open>int64\<close>, and the shortest decimal form of a \<open>float64\<close>, as \<open>fmt\<close>
  and as \<open>encoding/json\<close> write it.
\<close>

record go_runtime =
  rt_f64_oob :: "f64 \<Rightarrow> int"
  rt_show_f64 :: "f64 \<Rightarrow> string"
  rt_json_f64 :: "f64 \<Rightarrow> string"

text \<open>The conversion \<open>int64(f)\<close>.\<close>

definition i64_of_f64 :: "go_runtime \<Rightarrow> f64 \<Rightarrow> int" where
  "i64_of_f64 rt f =
     (case f64_trunc f of
        Some i \<Rightarrow> if in_i64 i then i else rt_f64_oob rt f
      | None \<Rightarrow> rt_f64_oob rt f)"

lemma in_i64_small: "\<bar>x\<bar> < 2 ^ 53 \<Longrightarrow> in_i64 x"
  by (auto simp: in_i64_def)

lemma i64_of_f64_exact [simp]: "\<bar>x\<bar> < 2 ^ 53 \<Longrightarrow> i64_of_f64 rt (f64_of_int x) = x"
  using in_i64_small [of x] by (simp add: i64_of_f64_def f64_of_int_def)

text \<open>
  \<open>int64(d.Seconds())\<close> for a duration \<open>d\<close>: whole seconds and the fraction are added as
  doubles, then truncated.
\<close>

definition duration_seconds :: "int \<Rightarrow> f64" where
  "duration_seconds d = f64_add (f64_of_int (quot d second)) (f64_ratio (rem d second) second)"

definition seconds_i64 :: "go_runtime \<Rightarrow> int \<Rightarrow> int" where
  "seconds_i64 rt d = i64_of_f64 rt (duration_seconds d)"

lemma seconds_i64_whole [simp]:
  "\<bar>s\<bar> < 2 ^ 53 \<Longrightarrow> seconds_i64 rt (s * second) = s"
  using in_i64_small [of s]
  by (simp add: seconds_i64_def duration_seconds_def f64_ratio_def f64_of_int_def i64_of_f64_def)

section \<open>Dynamic values\<close>

datatype go_value =
    GNil
  | GBool bool
  | GStr string
  | GF64 f64
  | GI64 int
  | GInt int
  | GUint int
  | GArr "go_value list"
  | GStrs "string list"
  | GMap "(string \<times> go_value) list"
  | GStrMap "(string \<times> string) list"

text \<open>\<open>map[string]interface{}\<close>.\<close>

type_synonym go_map = "(string \<times> go_value) list"

text \<open>\<open>fmt\<close> prints the entries of a map in key order.\<close>

fun le_string :: "string \<Rightarrow> string \<Rightarrow> bool" where
  "le_string [] t = True"
| "le_string (c # s) [] = False"
| "le_string (c # s) (d # t) =
     ((of_char c :: nat) < of_char d \<or> (c = d \<and> le_string s t))"

fun insert_key :: "(string \<times> 'a) \<Rightarrow> (string \<times> 'a) list \<Rightarrow> (string \<times> 'a) list" where
  "insert_key p [] = [p]"
| "insert_key p (q # qs) = (if le_string (fst p) (fst q) then p # q # qs else q # insert_key p qs)"

definition sort_keys :: "(string \<times> 'a) list \<Rightarrow> (string \<times> 'a) list" where
  "sort_keys m = foldr insert_key m []"

text \<open>Sorting by key: what it keeps, and that it is done once.\<close>

lemma le_string_total: "le_string s t \<or> le_string t s"
proof (induction s t rule: le_string.induct)
  case (3 c s d t)
  have "(of_char c :: nat) = of_char d \<longleftrightarrow> c = d" by (rule of_char_eq_iff)
  with 3 show ?case by auto
qed simp_all

lemma le_string_trans: "le_string s t \<Longrightarrow> le_string t u \<Longrightarrow> le_string s u"
proof (induction s u arbitrary: t rule: le_string.induct)
  case (2 c s)
  then show ?case by (cases t) simp_all
next
  case (3 c s d u)
  then show ?case by (cases t) auto
qed simp_all

definition keys_sorted :: "(string \<times> 'a) list \<Rightarrow> bool" where
  "keys_sorted = sorted_wrt (\<lambda>p q. le_string (fst p) (fst q))"

lemma set_insert_key [simp]: "set (insert_key p m) = insert p (set m)"
  by (induction m) auto

lemma keys_sorted_insert: "keys_sorted m \<Longrightarrow> keys_sorted (insert_key p m)"
  unfolding keys_sorted_def
proof (induction m)
  case (Cons q m)
  show ?case
  proof (cases "le_string (fst p) (fst q)")
    case True
    with Cons.prems show ?thesis by (auto intro: le_string_trans)
  next
    case False
    then have "le_string (fst q) (fst p)" using le_string_total by blast
    with Cons False show ?thesis by simp
  qed
qed simp

lemma sort_keys_Cons: "sort_keys (p # m) = insert_key p (sort_keys m)"
  by (simp add: sort_keys_def)

lemma keys_sorted_sort: "keys_sorted (sort_keys m)"
  by (induction m) (simp_all add: sort_keys_Cons keys_sorted_insert, simp add: sort_keys_def keys_sorted_def)

lemma insert_key_first: "\<forall>q\<in>set m. le_string (fst p) (fst q) \<Longrightarrow> insert_key p m = p # m"
  by (cases m) simp_all

lemma sort_keys_sorted: "keys_sorted m \<Longrightarrow> sort_keys m = m"
proof (induction m)
  case (Cons p m)
  then show ?case by (simp add: sort_keys_Cons keys_sorted_def insert_key_first)
qed (simp add: sort_keys_def)

lemma sort_keys_idem [simp]: "sort_keys (sort_keys m) = sort_keys m"
  by (rule sort_keys_sorted [OF keys_sorted_sort])

lemma set_sort_keys [simp]: "set (sort_keys m) = set m"
  by (induction m) (simp_all add: sort_keys_Cons, simp add: sort_keys_def)

lemma insert_key_map: "insert_key (fst p, f (snd p)) (map (\<lambda>(k, v). (k, f v)) m) = map (\<lambda>(k, v). (k, f v)) (insert_key p m)"
  by (induction m) (auto simp: case_prod_beta)

lemma sort_keys_map: "sort_keys (map (\<lambda>(k, v). (k, f v)) m) = map (\<lambda>(k, v). (k, f v)) (sort_keys m)"
proof (induction m)
  case (Cons p m)
  then show ?case by (cases p) (simp add: sort_keys_Cons insert_key_map [of "(_, _)", simplified])
qed (simp add: sort_keys_def)

lemma distinct_insert_key: "distinct (map fst (insert_key p m)) = distinct (map fst (p # m))"
  by (induction m) auto

lemma wf_map_sort_keys [simp]: "wf_map (sort_keys m) = wf_map m"
  unfolding wf_map_def
proof (induction m)
  case (Cons p m)
  then show ?case by (simp add: sort_keys_Cons distinct_insert_key)
qed (simp add: sort_keys_def)

lemma mget_sort_keys: "wf_map m \<Longrightarrow> mget (sort_keys m) k = mget m k"
  using map_of_inject_set [of "sort_keys m" m] wf_map_sort_keys [of m] by (simp add: mget_def wf_map_def)

definition show_entries :: "(string \<times> string) list \<Rightarrow> string" where
  "show_entries m = ''map['' @ join '' '' (map (\<lambda>(k, s). k @ '':'' @ s) (sort_keys m)) @ '']''"

text \<open>\<open>fmt.Sprintf("%v", x)\<close>.\<close>

fun sprint_v :: "go_runtime \<Rightarrow> go_value \<Rightarrow> string" where
  "sprint_v rt GNil = ''<nil>''"
| "sprint_v rt (GBool b) = (if b then ''true'' else ''false'')"
| "sprint_v rt (GStr s) = s"
| "sprint_v rt (GF64 f) = rt_show_f64 rt f"
| "sprint_v rt (GI64 i) = show_int i"
| "sprint_v rt (GInt i) = show_int i"
| "sprint_v rt (GUint i) = show_int i"
| "sprint_v rt (GArr vs) = ''['' @ join '' '' (map (sprint_v rt) vs) @ '']''"
| "sprint_v rt (GStrs ss) = ''['' @ join '' '' ss @ '']''"
| "sprint_v rt (GMap m) = show_entries (map (\<lambda>(k, v). (k, sprint_v rt v)) m)"
| "sprint_v rt (GStrMap m) = show_entries m"

section \<open>Through JSON and back\<close>

text \<open>
  \<open>json.Marshal\<close> fails on a NaN or an infinity; everything else the broker marshals is
  representable. Unmarshalling the text into an \<open>interface{}\<close> gives \<open>float64\<close> numbers and
  generic arrays and maps. Strings are valid UTF-8 (they come from JSON texts or are built from
  such strings) and come back unchanged.
\<close>

fun json_marshals :: "go_value \<Rightarrow> bool" where
  "json_marshals (GF64 (NonFin s)) = False"
| "json_marshals (GArr vs) = (\<forall>v\<in>set vs. json_marshals v)"
| "json_marshals (GMap m) = (\<forall>(k, v)\<in>set m. json_marshals v)"
| "json_marshals v = True"

fun json_normal :: "go_value \<Rightarrow> go_value" where
  "json_normal (GI64 i) = GF64 (f64_of_int i)"
| "json_normal (GInt i) = GF64 (f64_of_int i)"
| "json_normal (GUint i) = GF64 (f64_of_int i)"
| "json_normal (GArr vs) = GArr (map json_normal vs)"
| "json_normal (GStrs ss) = GArr (map GStr ss)"
| "json_normal (GMap m) = GMap (sort_keys (map (\<lambda>(k, v). (k, json_normal v)) m))"
| "json_normal (GStrMap m) = GMap (sort_keys (map (\<lambda>(k, s). (k, GStr s)) m))"
| "json_normal v = v"

lemma sort_normal_entries:
  assumes "map (\<lambda>(k, v). (k, json_normal v)) es = es"
  shows "json_normal (GMap (sort_keys es)) = GMap (sort_keys es)"
proof -
  have "sort_keys (map (\<lambda>(k, v). (k, json_normal v)) (sort_keys es)) = sort_keys es"
    unfolding sort_keys_map [of json_normal es, symmetric] assms by simp
  then show ?thesis by simp
qed

lemma json_normal_idem: "json_normal (json_normal v) = json_normal v"
proof (induction v rule: json_normal.induct)
  case (6 m)
  then have "map (\<lambda>(k, v). (k, json_normal v)) (map (\<lambda>(k, v). (k, json_normal v)) m) = map (\<lambda>(k, v). (k, json_normal v)) m"
    by auto
  from sort_normal_entries [OF this] show ?case by (simp only: json_normal.simps(6))
next
  case (7 m)
  have "map (\<lambda>(k, v). (k, json_normal v)) (map (\<lambda>(k, s). (k, GStr s)) m) = map (\<lambda>(k, s). (k, GStr s)) m"
    by auto
  from sort_normal_entries [OF this] show ?case by (simp only: json_normal.simps(7))
qed simp_all

end
