(* ===== verification/Idp_Claims.thy ===== *)
theory Idp_Claims
  imports Go_Values
begin

text \<open>
  The claims of an identity provider's token, \<open>internal/broker/idp_jwt_claim.go\<close>: the struct
  \<open>IdpJwtClaims\<close>, its conversions to and from a claim map (\<open>toMap\<close>, \<open>fromMap\<close>, with the
  custom claim mapping) and the checks \<open>exists\<close>, \<open>validateAudience\<close> and
  \<open>validateExpiryBounds\<close>.
\<close>

section \<open>The claims struct\<close>

record idp_claims =
  cl_Name :: string
  cl_GivenName :: string
  cl_FamilyName :: string
  cl_PreferredUsername :: string
  cl_Nickname :: string
  cl_Gender :: string
  cl_ZoneInfo :: string
  cl_Locale :: string
  cl_ClientID :: string
  cl_Groups :: go_value
  cl_Roles :: go_value
  cl_Email :: string
  cl_EmailVerified :: bool
  cl_Picture :: string
  cl_Subject :: string
  cl_Audience :: "string list"
  cl_Expiry :: int
  cl_IssuedAt :: int
  cl_NotBeforeTime :: int
  cl_JwtID :: string
  cl_AccessTokenHash :: string
  cl_AlsoKnownAs :: string
  cl_CustomClaims :: go_map

definition zero_claims :: idp_claims where
  "zero_claims = \<lparr>cl_Name = [], cl_GivenName = [], cl_FamilyName = [], cl_PreferredUsername = [],
     cl_Nickname = [], cl_Gender = [], cl_ZoneInfo = [], cl_Locale = [], cl_ClientID = [],
     cl_Groups = GNil, cl_Roles = GNil, cl_Email = [], cl_EmailVerified = False, cl_Picture = [],
     cl_Subject = [], cl_Audience = [], cl_Expiry = 0, cl_IssuedAt = 0, cl_NotBeforeTime = 0,
     cl_JwtID = [], cl_AccessTokenHash = [], cl_AlsoKnownAs = [], cl_CustomClaims = []\<rparr>"

definition jsonToField :: "(string \<times> string) list" where
  "jsonToField =
    [(''name'', ''Name''),
     (''given_name'', ''GivenName''),
     (''family_name'', ''FamilyName''),
     (''preferred_username'', ''PreferredUsername''),
     (''nickname'', ''Nickname''),
     (''gender'', ''Gender''),
     (''zoneinfo'', ''ZoneInfo''),
     (''locale'', ''Locale''),
     (''client_id'', ''ClientID''),
     (''groups'', ''Groups''),
     (''roles'', ''Roles''),
     (''email'', ''Email''),
     (''email_verified'', ''EmailVerified''),
     (''picture'', ''Picture''),
     (''sub'', ''Subject''),
     (''exp'', ''Expiry''),
     (''iat'', ''IssuedAt''),
     (''nbf'', ''NotBeforeTime''),
     (''jti'', ''JwtID''),
     (''at_hash'', ''AccessTokenHash''),
     (''also_known_as'', ''AlsoKnownAs'')]"

definition standardClaims :: "string list" where
  "standardClaims = map fst jsonToField @ [''aud'']"

section \<open>toMap\<close>

text \<open>
  \<open>toMap\<close> marshals the struct with its \<open>omitempty\<close> tags, unmarshals the text into a map and
  copies the custom claims over it. A field with an empty value has no entry.
\<close>

definition omit_string :: "string \<Rightarrow> go_value option" where
  "omit_string s = (if s = [] then None else Some (GStr s))"

definition omit_int :: "int \<Rightarrow> go_value option" where
  "omit_int i = (if i = 0 then None else Some (GF64 (f64_of_int i)))"

definition omit_any :: "go_value \<Rightarrow> go_value option" where
  "omit_any v = (if v = GNil then None else Some (json_normal v))"

definition std_fields :: "idp_claims \<Rightarrow> (string \<times> go_value option) list" where
  "std_fields c =
    [(''name'', omit_string (cl_Name c)),
     (''given_name'', omit_string (cl_GivenName c)),
     (''family_name'', omit_string (cl_FamilyName c)),
     (''preferred_username'', omit_string (cl_PreferredUsername c)),
     (''nickname'', omit_string (cl_Nickname c)),
     (''gender'', omit_string (cl_Gender c)),
     (''zoneinfo'', omit_string (cl_ZoneInfo c)),
     (''locale'', omit_string (cl_Locale c)),
     (''client_id'', omit_string (cl_ClientID c)),
     (''groups'', omit_any (cl_Groups c)),
     (''roles'', omit_any (cl_Roles c)),
     (''email'', omit_string (cl_Email c)),
     (''email_verified'', (if cl_EmailVerified c then Some (GBool True) else None)),
     (''picture'', omit_string (cl_Picture c)),
     (''sub'', omit_string (cl_Subject c)),
     (''aud'', (if cl_Audience c = [] then None else Some (GArr (map GStr (cl_Audience c))))),
     (''exp'', omit_int (cl_Expiry c)),
     (''iat'', omit_int (cl_IssuedAt c)),
     (''nbf'', omit_int (cl_NotBeforeTime c)),
     (''jti'', omit_string (cl_JwtID c)),
     (''at_hash'', omit_string (cl_AccessTokenHash c)),
     (''also_known_as'', omit_string (cl_AlsoKnownAs c))]"

fun present :: "('k \<times> 'v option) list \<Rightarrow> ('k \<times> 'v) list" where
  "present [] = []"
| "present ((k, None) # fs) = present fs"
| "present ((k, Some v) # fs) = (k, v) # present fs"

definition toMap :: "idp_claims \<Rightarrow> go_map" where
  "toMap c =
     (if json_marshals (cl_Groups c) \<and> json_marshals (cl_Roles c)
      then overlay (present (std_fields c)) (cl_CustomClaims c)
      else [])"

section \<open>fromMap\<close>

definition toString :: "go_runtime \<Rightarrow> go_value \<Rightarrow> string" where
  "toString rt v = (case v of GNil \<Rightarrow> [] | GStr s \<Rightarrow> s | _ \<Rightarrow> sprint_v rt v)"

definition toBool :: "go_value \<Rightarrow> bool" where
  "toBool v = (case v of GBool b \<Rightarrow> b | _ \<Rightarrow> False)"

definition toInt64 :: "go_runtime \<Rightarrow> go_value \<Rightarrow> int" where
  "toInt64 rt v = (case v of GF64 f \<Rightarrow> i64_of_f64 rt f | GI64 n \<Rightarrow> n | GInt n \<Rightarrow> n | _ \<Rightarrow> 0)"

text \<open>The assignment to \<open>j.Audience\<close>; other types leave the field alone.\<close>

definition set_audience :: "go_runtime \<Rightarrow> go_map \<Rightarrow> idp_claims \<Rightarrow> idp_claims" where
  "set_audience rt m c =
     (case mget m ''aud'' of
        Some (GArr vs) \<Rightarrow> c\<lparr>cl_Audience := map (toString rt) vs\<rparr>
      | Some (GStrs ss) \<Rightarrow> c\<lparr>cl_Audience := ss\<rparr>
      | Some (GStr s) \<Rightarrow> c\<lparr>cl_Audience := [s]\<rparr>
      | _ \<Rightarrow> c)"

text \<open>\<open>field.SetString\<close> through \<open>FieldByName\<close>.\<close>

definition set_string_field :: "string \<Rightarrow> string \<Rightarrow> idp_claims \<Rightarrow> idp_claims" where
  "set_string_field f s c =
     (if f = ''Name'' then c\<lparr>cl_Name := s\<rparr>
      else if f = ''GivenName'' then c\<lparr>cl_GivenName := s\<rparr>
      else if f = ''FamilyName'' then c\<lparr>cl_FamilyName := s\<rparr>
      else if f = ''PreferredUsername'' then c\<lparr>cl_PreferredUsername := s\<rparr>
      else if f = ''Nickname'' then c\<lparr>cl_Nickname := s\<rparr>
      else if f = ''Gender'' then c\<lparr>cl_Gender := s\<rparr>
      else if f = ''ZoneInfo'' then c\<lparr>cl_ZoneInfo := s\<rparr>
      else if f = ''Locale'' then c\<lparr>cl_Locale := s\<rparr>
      else if f = ''ClientID'' then c\<lparr>cl_ClientID := s\<rparr>
      else if f = ''Email'' then c\<lparr>cl_Email := s\<rparr>
      else if f = ''Picture'' then c\<lparr>cl_Picture := s\<rparr>
      else if f = ''Subject'' then c\<lparr>cl_Subject := s\<rparr>
      else if f = ''JwtID'' then c\<lparr>cl_JwtID := s\<rparr>
      else if f = ''AccessTokenHash'' then c\<lparr>cl_AccessTokenHash := s\<rparr>
      else if f = ''AlsoKnownAs'' then c\<lparr>cl_AlsoKnownAs := s\<rparr>
      else c)"

text \<open>
  One assignment of the loop over \<open>jsonToField\<close>. \<open>reflect.ValueOf(nil)\<close> is the zero
  \<open>Value\<close>, and \<open>Set\<close> panics on it.
\<close>

definition set_field :: "go_runtime \<Rightarrow> string \<Rightarrow> go_value \<Rightarrow> idp_claims \<Rightarrow> idp_claims outcome" where
  "set_field rt f v c =
     (if f = ''EmailVerified'' then Done (c\<lparr>cl_EmailVerified := toBool v\<rparr>)
      else if f = ''Expiry'' then Done (c\<lparr>cl_Expiry := toInt64 rt v\<rparr>)
      else if f = ''IssuedAt'' then Done (c\<lparr>cl_IssuedAt := toInt64 rt v\<rparr>)
      else if f = ''NotBeforeTime'' then Done (c\<lparr>cl_NotBeforeTime := toInt64 rt v\<rparr>)
      else if f = ''Groups'' \<or> f = ''Roles'' then
        (if v = GNil then Panic ReflectSetZeroValue
         else Done (if f = ''Groups'' then c\<lparr>cl_Groups := v\<rparr> else c\<lparr>cl_Roles := v\<rparr>))
      else Done (set_string_field f (toString rt v) c))"

definition assign_field :: "go_runtime \<Rightarrow> go_map \<Rightarrow> string \<times> string \<Rightarrow> idp_claims \<Rightarrow> idp_claims outcome" where
  "assign_field rt m kf c =
     (case mget m (fst kf) of None \<Rightarrow> Done c | Some v \<Rightarrow> set_field rt (snd kf) v c)"

text \<open>The loop that fills \<open>CustomClaims\<close> with the entries that are not standard claims.\<close>

definition custom_key :: "(string \<times> string) list \<Rightarrow> string \<Rightarrow> string" where
  "custom_key mapping k = (case mget mapping k of Some k' \<Rightarrow> k' | None \<Rightarrow> k)"

definition custom_claims :: "(string \<times> string) list \<Rightarrow> go_map \<Rightarrow> go_map" where
  "custom_claims mapping m =
     fold (\<lambda>(k, v) cc. if k \<in> set standardClaims then cc else mput (custom_key mapping k) v cc) m []"

definition fromMap ::
  "go_runtime \<Rightarrow> idp_claims \<Rightarrow> go_map \<Rightarrow> (string \<times> string) list \<Rightarrow> idp_claims outcome" where
  "fromMap rt j m customMapping =
     bind_outcome
       (fold_outcome (assign_field rt m) jsonToField (set_audience rt m (j\<lparr>cl_CustomClaims := []\<rparr>)))
       (\<lambda>c. Done (c\<lparr>cl_CustomClaims := custom_claims customMapping m\<rparr>))"

text \<open>
  \<open>JwtClaimAudience.UnmarshalJSON\<close> on the decoded JSON value: a string (or \<open>null\<close>, which
  decodes into the empty string) gives one audience, an array of strings the list.
\<close>

fun json_string :: "go_value \<Rightarrow> string option" where
  "json_string (GStr s) = Some s"
| "json_string GNil = Some []"
| "json_string _ = None"

definition audience_UnmarshalJSON :: "go_value \<Rightarrow> string list result" where
  "audience_UnmarshalJSON v =
     (case json_string v of
        Some s \<Rightarrow> Ok [s]
      | None \<Rightarrow>
          (case v of
             GArr vs \<Rightarrow>
               if \<forall>x\<in>set vs. json_string x \<noteq> None then Ok (map (the \<circ> json_string) vs)
               else Err BadAudience
           | _ \<Rightarrow> Err BadAudience))"

section \<open>Checks\<close>

definition claims_exist :: "idp_claims \<Rightarrow> string list \<Rightarrow> unit result" where
  "claims_exist c expected =
     (case find (\<lambda>k. mget (toMap c) k = None) expected of
        Some k \<Rightarrow> Err (MissingClaim k)
      | None \<Rightarrow> Ok ())"

definition validateAudience :: "idp_claims \<Rightarrow> string list \<Rightarrow> unit result" where
  "validateAudience c expected =
     (if \<exists>a\<in>set (cl_Audience c). \<exists>e\<in>set expected. a = e then Ok ()
      else Err (AudienceMismatch (cl_Audience c) expected))"

record duration_bounds =
  db_Min :: int
  db_Max :: int

definition validateExpiryBounds :: "int \<Rightarrow> idp_claims \<Rightarrow> duration_bounds \<Rightarrow> unit result" where
  "validateExpiryBounds now c bounds =
     (let ttl = wrap64 (wrap64 (cl_Expiry c - unix_of now) * second)
      in if ttl < db_Min bounds then Err (ExpiryTooShort ttl (db_Min bounds))
         else if ttl > db_Max bounds then Err (ExpiryTooLong ttl (db_Max bounds))
         else Ok ())"

section \<open>Lemmas: toMap\<close>

lemma fst_present_subset: "fst ` set (present fs) \<subseteq> fst ` set fs"
  by (induction fs rule: present.induct) auto

lemma wf_map_present: "distinct (map fst fs) \<Longrightarrow> wf_map (present fs)"
proof (induction fs rule: present.induct)
  case (3 k v fs)
  then show ?case using fst_present_subset [of fs] by (auto simp: wf_map_def)
qed (auto simp: wf_map_def)

lemma mget_present:
  "distinct (map fst fs) \<Longrightarrow> mget (present fs) k = Option.bind (map_of fs k) (\<lambda>x. x)"
proof (induction fs rule: present.induct)
  case (2 k' fs)
  show ?case
  proof (cases "k' = k")
    case True
    with "2.prems" fst_present_subset [of fs] have "mget (present fs) k = None"
      by (auto simp: mget_eq_None_iff)
    with True show ?thesis by simp
  next
    case False
    with 2 show ?thesis by simp
  qed
next
  case (3 k' v fs)
  then show ?case by (simp add: mget_def)
qed simp

lemma distinct_std_fields: "distinct (map fst (std_fields c))"
  by (simp add: std_fields_def)

lemma keys_std_fields: "fst ` set (std_fields c) = set standardClaims"
  by (rule equalityI) (simp_all add: std_fields_def standardClaims_def jsonToField_def)

lemma wf_map_std [simp]: "wf_map (present (std_fields c))"
  by (rule wf_map_present [OF distinct_std_fields])

lemma keys_present_std: "fst ` set (present (std_fields c)) \<subseteq> set standardClaims"
  using fst_present_subset [of "std_fields c"] by (simp add: keys_std_fields)

definition marshals :: "idp_claims \<Rightarrow> bool" where
  "marshals c \<longleftrightarrow> json_marshals (cl_Groups c) \<and> json_marshals (cl_Roles c)"

lemma wf_map_toMap: "wf_map (toMap c)"
  by (simp add: toMap_def)

lemma mget_std: "mget (present (std_fields c)) k = Option.bind (map_of (std_fields c) k) (\<lambda>x. x)"
  by (rule mget_present [OF distinct_std_fields])

lemma mget_toMap:
  "marshals c \<Longrightarrow> wf_map (cl_CustomClaims c) \<Longrightarrow>
   mget (toMap c) k =
     (case mget (cl_CustomClaims c) k of
        Some v \<Rightarrow> Some v
      | None \<Rightarrow> Option.bind (map_of (std_fields c) k) (\<lambda>x. x))"
  by (simp add: toMap_def marshals_def mget_overlay mget_std split: option.split)

section \<open>Lemmas: fromMap\<close>

text \<open>The value the loop leaves in a string, boolean or integer field.\<close>

definition str_or :: "go_runtime \<Rightarrow> go_map \<Rightarrow> string \<Rightarrow> string \<Rightarrow> string" where
  "str_or rt m k d = (case mget m k of None \<Rightarrow> d | Some v \<Rightarrow> toString rt v)"

definition int_or :: "go_runtime \<Rightarrow> go_map \<Rightarrow> string \<Rightarrow> int \<Rightarrow> int" where
  "int_or rt m k d = (case mget m k of None \<Rightarrow> d | Some v \<Rightarrow> toInt64 rt v)"

definition bool_or :: "go_map \<Rightarrow> string \<Rightarrow> bool \<Rightarrow> bool" where
  "bool_or m k d = (case mget m k of None \<Rightarrow> d | Some v \<Rightarrow> toBool v)"

definition val_or :: "go_map \<Rightarrow> string \<Rightarrow> go_value \<Rightarrow> go_value" where
  "val_or m k d = (case mget m k of None \<Rightarrow> d | Some v \<Rightarrow> v)"

text \<open>The struct after the loop, when no \<open>groups\<close> or \<open>roles\<close> entry is \<open>nil\<close>.\<close>

definition assigned :: "go_runtime \<Rightarrow> go_map \<Rightarrow> idp_claims \<Rightarrow> idp_claims" where
  "assigned rt m c = c\<lparr>
     cl_Name := str_or rt m ''name'' (cl_Name c),
     cl_GivenName := str_or rt m ''given_name'' (cl_GivenName c),
     cl_FamilyName := str_or rt m ''family_name'' (cl_FamilyName c),
     cl_PreferredUsername := str_or rt m ''preferred_username'' (cl_PreferredUsername c),
     cl_Nickname := str_or rt m ''nickname'' (cl_Nickname c),
     cl_Gender := str_or rt m ''gender'' (cl_Gender c),
     cl_ZoneInfo := str_or rt m ''zoneinfo'' (cl_ZoneInfo c),
     cl_Locale := str_or rt m ''locale'' (cl_Locale c),
     cl_ClientID := str_or rt m ''client_id'' (cl_ClientID c),
     cl_Groups := val_or m ''groups'' (cl_Groups c),
     cl_Roles := val_or m ''roles'' (cl_Roles c),
     cl_Email := str_or rt m ''email'' (cl_Email c),
     cl_EmailVerified := bool_or m ''email_verified'' (cl_EmailVerified c),
     cl_Picture := str_or rt m ''picture'' (cl_Picture c),
     cl_Subject := str_or rt m ''sub'' (cl_Subject c),
     cl_Expiry := int_or rt m ''exp'' (cl_Expiry c),
     cl_IssuedAt := int_or rt m ''iat'' (cl_IssuedAt c),
     cl_NotBeforeTime := int_or rt m ''nbf'' (cl_NotBeforeTime c),
     cl_JwtID := str_or rt m ''jti'' (cl_JwtID c),
     cl_AccessTokenHash := str_or rt m ''at_hash'' (cl_AccessTokenHash c),
     cl_AlsoKnownAs := str_or rt m ''also_known_as'' (cl_AlsoKnownAs c)\<rparr>"

definition nil_collections :: "go_map \<Rightarrow> bool" where
  "nil_collections m \<longleftrightarrow> mget m ''groups'' = Some GNil \<or> mget m ''roles'' = Some GNil"

lemma assign_string_field:
  assumes "f \<notin> {''EmailVerified'', ''Expiry'', ''IssuedAt'', ''NotBeforeTime'', ''Groups'', ''Roles''}"
  shows "assign_field rt m (k, f) c =
    Done (case mget m k of None \<Rightarrow> c | Some v \<Rightarrow> set_string_field f (toString rt v) c)"
  using assms by (simp add: assign_field_def set_field_def split: option.split)

lemma assign_groups:
  "assign_field rt m (k, ''Groups'') c =
     (if mget m k = Some GNil then Panic ReflectSetZeroValue
      else Done (c\<lparr>cl_Groups := val_or m k (cl_Groups c)\<rparr>))"
  by (auto simp: assign_field_def set_field_def val_or_def split: option.split)

lemma assign_roles:
  "assign_field rt m (k, ''Roles'') c =
     (if mget m k = Some GNil then Panic ReflectSetZeroValue
      else Done (c\<lparr>cl_Roles := val_or m k (cl_Roles c)\<rparr>))"
  by (auto simp: assign_field_def set_field_def val_or_def split: option.split)

lemma assign_scalar_fields:
  "assign_field rt m (k, ''EmailVerified'') c = Done (c\<lparr>cl_EmailVerified := bool_or m k (cl_EmailVerified c)\<rparr>)"
  "assign_field rt m (k, ''Expiry'') c = Done (c\<lparr>cl_Expiry := int_or rt m k (cl_Expiry c)\<rparr>)"
  "assign_field rt m (k, ''IssuedAt'') c = Done (c\<lparr>cl_IssuedAt := int_or rt m k (cl_IssuedAt c)\<rparr>)"
  "assign_field rt m (k, ''NotBeforeTime'') c =
     Done (c\<lparr>cl_NotBeforeTime := int_or rt m k (cl_NotBeforeTime c)\<rparr>)"
  by (auto simp: assign_field_def set_field_def bool_or_def int_or_def split: option.split)

lemma assign_string_fields:
  "assign_field rt m (k, ''Name'') c = Done (c\<lparr>cl_Name := str_or rt m k (cl_Name c)\<rparr>)"
  "assign_field rt m (k, ''GivenName'') c = Done (c\<lparr>cl_GivenName := str_or rt m k (cl_GivenName c)\<rparr>)"
  "assign_field rt m (k, ''FamilyName'') c = Done (c\<lparr>cl_FamilyName := str_or rt m k (cl_FamilyName c)\<rparr>)"
  "assign_field rt m (k, ''PreferredUsername'') c =
     Done (c\<lparr>cl_PreferredUsername := str_or rt m k (cl_PreferredUsername c)\<rparr>)"
  "assign_field rt m (k, ''Nickname'') c = Done (c\<lparr>cl_Nickname := str_or rt m k (cl_Nickname c)\<rparr>)"
  "assign_field rt m (k, ''Gender'') c = Done (c\<lparr>cl_Gender := str_or rt m k (cl_Gender c)\<rparr>)"
  "assign_field rt m (k, ''ZoneInfo'') c = Done (c\<lparr>cl_ZoneInfo := str_or rt m k (cl_ZoneInfo c)\<rparr>)"
  "assign_field rt m (k, ''Locale'') c = Done (c\<lparr>cl_Locale := str_or rt m k (cl_Locale c)\<rparr>)"
  "assign_field rt m (k, ''ClientID'') c = Done (c\<lparr>cl_ClientID := str_or rt m k (cl_ClientID c)\<rparr>)"
  "assign_field rt m (k, ''Email'') c = Done (c\<lparr>cl_Email := str_or rt m k (cl_Email c)\<rparr>)"
  "assign_field rt m (k, ''Picture'') c = Done (c\<lparr>cl_Picture := str_or rt m k (cl_Picture c)\<rparr>)"
  "assign_field rt m (k, ''Subject'') c = Done (c\<lparr>cl_Subject := str_or rt m k (cl_Subject c)\<rparr>)"
  "assign_field rt m (k, ''JwtID'') c = Done (c\<lparr>cl_JwtID := str_or rt m k (cl_JwtID c)\<rparr>)"
  "assign_field rt m (k, ''AccessTokenHash'') c =
     Done (c\<lparr>cl_AccessTokenHash := str_or rt m k (cl_AccessTokenHash c)\<rparr>)"
  "assign_field rt m (k, ''AlsoKnownAs'') c =
     Done (c\<lparr>cl_AlsoKnownAs := str_or rt m k (cl_AlsoKnownAs c)\<rparr>)"
  by (simp_all add: assign_string_field set_string_field_def str_or_def split: option.split)

lemmas assign_simps = assign_string_fields assign_scalar_fields assign_groups assign_roles

lemma assign_loop:
  "fold_outcome (assign_field rt m) jsonToField c =
     (if nil_collections m then Panic ReflectSetZeroValue else Done (assigned rt m c))"
  by (simp add: jsonToField_def assign_simps nil_collections_def assigned_def)

lemma fromMap_eq:
  "fromMap rt j m mapping =
     (if nil_collections m then Panic ReflectSetZeroValue
      else Done ((assigned rt m (set_audience rt m (j\<lparr>cl_CustomClaims := []\<rparr>)))
             \<lparr>cl_CustomClaims := custom_claims mapping m\<rparr>))"
  by (simp add: fromMap_def assign_loop)

section \<open>Custom claims\<close>

definition custom_entries :: "(string \<times> string) list \<Rightarrow> go_map \<Rightarrow> go_map" where
  "custom_entries mapping m =
     map (\<lambda>(k, v). (custom_key mapping k, v)) (filter (\<lambda>(k, v). k \<notin> set standardClaims) m)"

lemma custom_claims_overlay: "custom_claims mapping m = overlay [] (custom_entries mapping m)"
proof -
  have "fold (\<lambda>(k, v) cc. if k \<in> set standardClaims then cc else mput (custom_key mapping k) v cc) m d
      = overlay d (custom_entries mapping m)" for d
    by (induction m arbitrary: d) (auto simp: custom_entries_def overlay_def)
  then show ?thesis by (simp add: custom_claims_def)
qed

lemma wf_map_custom_claims [simp]: "wf_map (custom_claims mapping m)"
  by (simp add: custom_claims_overlay)

text \<open>No two custom entries of \<open>m\<close> are mapped to the same key.\<close>

definition mapping_injective :: "(string \<times> string) list \<Rightarrow> go_map \<Rightarrow> bool" where
  "mapping_injective mapping m \<longleftrightarrow>
     inj_on (custom_key mapping) {k \<in> fst ` set m. k \<notin> set standardClaims}"

lemma wf_map_custom_entries:
  assumes "wf_map m" and "mapping_injective mapping m"
  shows "wf_map (custom_entries mapping m)"
proof -
  let ?f = "filter (\<lambda>(k, v). k \<notin> set standardClaims) m"
  have "map fst (custom_entries mapping m) = map (custom_key mapping) (map fst ?f)"
    by (auto simp: custom_entries_def)
  moreover have "distinct (map fst ?f)"
    using assms(1) by (simp add: wf_map_def distinct_map_filter)
  moreover have "inj_on (custom_key mapping) (set (map fst ?f))"
    using assms(2) unfolding mapping_injective_def by (rule inj_on_subset) auto
  ultimately show ?thesis by (simp add: wf_map_def distinct_map comp_inj_on)
qed

lemma mget_custom_claims:
  assumes "wf_map m" and "mapping_injective mapping m"
  shows "mget (custom_claims mapping m) x = Some v \<longleftrightarrow>
    (\<exists>k. k \<notin> set standardClaims \<and> mget m k = Some v \<and> custom_key mapping k = x)"
proof -
  have "mget (custom_claims mapping m) x = mget (custom_entries mapping m) x"
    using wf_map_custom_entries [OF assms]
    by (simp add: custom_claims_overlay mget_overlay split: option.split)
  then show ?thesis
    using assms(1) wf_map_custom_entries [OF assms]
    by (auto simp: mget_eq_Some_iff custom_entries_def image_iff)
qed

lemma filter_no_keys: "fst ` set m \<subseteq> S \<Longrightarrow> filter (\<lambda>(k, v). k \<notin> S) m = []"
  by (induction m) auto

lemma filter_all_keys: "fst ` set m \<inter> S = {} \<Longrightarrow> filter (\<lambda>(k, v). k \<notin> S) m = m"
  by (induction m) auto

lemma custom_key_unmapped: "k \<notin> fst ` set mapping \<Longrightarrow> custom_key mapping k = k"
  by (simp add: custom_key_def iffD2 [OF mget_eq_None_iff])

lemma map_unmapped:
  "fst ` set m \<inter> fst ` set mapping = {} \<Longrightarrow> map (\<lambda>(k, v). (custom_key mapping k, v)) m = m"
  by (induction m) (auto simp: custom_key_unmapped)

lemma toMap_append:
  assumes "marshals c" and "wf_map (cl_CustomClaims c)"
    and "fst ` set (cl_CustomClaims c) \<inter> set standardClaims = {}"
  shows "toMap c = present (std_fields c) @ cl_CustomClaims c"
proof -
  have "fst ` set (cl_CustomClaims c) \<inter> fst ` set (present (std_fields c)) = {}"
    using assms(3) keys_present_std [of c] by blast
  with assms(1,2) show ?thesis by (simp add: toMap_def marshals_def overlay_disjoint)
qed

lemma custom_claims_toMap:
  assumes "marshals c" and "wf_map (cl_CustomClaims c)"
    and "fst ` set (cl_CustomClaims c) \<inter> set standardClaims = {}"
    and "fst ` set (cl_CustomClaims c) \<inter> fst ` set mapping = {}"
  shows "custom_claims mapping (toMap c) = cl_CustomClaims c"
proof -
  have "custom_entries mapping (toMap c) = cl_CustomClaims c"
    unfolding custom_entries_def toMap_append [OF assms(1-3)] filter_append
    by (simp only: filter_no_keys [OF keys_present_std] filter_all_keys [OF assms(3)]
        map_unmapped [OF assms(4)] append.simps)
  with assms(2) show ?thesis by (simp add: custom_claims_overlay overlay_disjoint)
qed

section \<open>Round trip\<close>

text \<open>
  Claims the JSON passage preserves: integers a double holds exactly, generic \<open>groups\<close> and
  \<open>roles\<close> values, and custom claims beside the standard names.
\<close>

definition exact_claims :: "idp_claims \<Rightarrow> bool" where
  "exact_claims c \<longleftrightarrow>
     marshals c \<and> json_normal (cl_Groups c) = cl_Groups c \<and> json_normal (cl_Roles c) = cl_Roles c
     \<and> \<bar>cl_Expiry c\<bar> < 2 ^ 53 \<and> \<bar>cl_IssuedAt c\<bar> < 2 ^ 53 \<and> \<bar>cl_NotBeforeTime c\<bar> < 2 ^ 53
     \<and> wf_map (cl_CustomClaims c) \<and> fst ` set (cl_CustomClaims c) \<inter> set standardClaims = {}"

lemma json_normal_nil [simp]: "json_normal v = GNil \<longleftrightarrow> v = GNil"
  by (cases v) auto

lemma mget_toMap_std:
  assumes "exact_claims c" and "k \<in> set standardClaims"
  shows "mget (toMap c) k = Option.bind (map_of (std_fields c) k) (\<lambda>x. x)"
proof -
  from assms have "mget (cl_CustomClaims c) k = None"
    by (auto simp: exact_claims_def mget_eq_None_iff)
  with assms show ?thesis by (simp add: exact_claims_def mget_toMap)
qed

lemma std_key: "k \<in> set standardClaims \<longleftrightarrow> k \<in> set (map fst jsonToField) \<or> k = ''aud''"
  by (auto simp: standardClaims_def)

lemma string_back:
  assumes "exact_claims c" and "k \<in> set standardClaims" and "map_of (std_fields c) k = Some (omit_string x)"
  shows "str_or rt (toMap c) k d = (if x = [] then d else x)"
  using assms by (simp add: str_or_def mget_toMap_std omit_string_def toString_def)

lemma int_back:
  assumes "exact_claims c" and "k \<in> set standardClaims" and "map_of (std_fields c) k = Some (omit_int x)"
    and "\<bar>x\<bar> < 2 ^ 53"
  shows "int_or rt (toMap c) k d = (if x = 0 then d else x)"
  using assms by (simp add: int_or_def mget_toMap_std omit_int_def toInt64_def)

lemma any_back:
  assumes "exact_claims c" and "k \<in> set standardClaims" and "map_of (std_fields c) k = Some (omit_any x)"
    and "json_normal x = x"
  shows "val_or (toMap c) k d = (if x = GNil then d else x)"
  using assms by (simp add: val_or_def mget_toMap_std omit_any_def)

lemma nil_collections_toMap: "exact_claims c \<Longrightarrow> \<not> nil_collections (toMap c)"
  by (simp add: nil_collections_def mget_toMap_std std_key jsonToField_def std_fields_def omit_any_def)

text \<open>Re-reading \<open>toMap c\<close> into a struct \<open>j\<close> whose fields are those of \<open>c\<close> or empty.\<close>

definition fields_of_or_empty :: "idp_claims \<Rightarrow> idp_claims \<Rightarrow> bool" where
  "fields_of_or_empty j c \<longleftrightarrow> j = c \<or> j = zero_claims"

lemma std_back:
  assumes "exact_claims c"
  shows "bool_or (toMap c) ''email_verified'' d = (cl_EmailVerified c \<or> d)"
    and "mget (toMap c) ''aud'' =
      (if cl_Audience c = [] then None else Some (GArr (map GStr (cl_Audience c))))"
  using assms
  by (simp_all add: bool_or_def mget_toMap_std std_key std_fields_def jsonToField_def toBool_def)

lemma strings_back:
  assumes "exact_claims c"
  shows "str_or rt (toMap c) ''name'' d = (if cl_Name c = [] then d else cl_Name c)"
    and "str_or rt (toMap c) ''given_name'' d = (if cl_GivenName c = [] then d else cl_GivenName c)"
    and "str_or rt (toMap c) ''family_name'' d = (if cl_FamilyName c = [] then d else cl_FamilyName c)"
    and "str_or rt (toMap c) ''preferred_username'' d = (if cl_PreferredUsername c = [] then d else cl_PreferredUsername c)"
    and "str_or rt (toMap c) ''nickname'' d = (if cl_Nickname c = [] then d else cl_Nickname c)"
    and "str_or rt (toMap c) ''gender'' d = (if cl_Gender c = [] then d else cl_Gender c)"
    and "str_or rt (toMap c) ''zoneinfo'' d = (if cl_ZoneInfo c = [] then d else cl_ZoneInfo c)"
    and "str_or rt (toMap c) ''locale'' d = (if cl_Locale c = [] then d else cl_Locale c)"
    and "str_or rt (toMap c) ''client_id'' d = (if cl_ClientID c = [] then d else cl_ClientID c)"
    and "str_or rt (toMap c) ''email'' d = (if cl_Email c = [] then d else cl_Email c)"
    and "str_or rt (toMap c) ''picture'' d = (if cl_Picture c = [] then d else cl_Picture c)"
    and "str_or rt (toMap c) ''sub'' d = (if cl_Subject c = [] then d else cl_Subject c)"
    and "str_or rt (toMap c) ''jti'' d = (if cl_JwtID c = [] then d else cl_JwtID c)"
    and "str_or rt (toMap c) ''at_hash'' d = (if cl_AccessTokenHash c = [] then d else cl_AccessTokenHash c)"
    and "str_or rt (toMap c) ''also_known_as'' d = (if cl_AlsoKnownAs c = [] then d else cl_AlsoKnownAs c)"
  by (rule string_back [OF assms]; simp add: std_key jsonToField_def std_fields_def)+

lemma ints_back:
  assumes "exact_claims c"
  shows "int_or rt (toMap c) ''exp'' d = (if cl_Expiry c = 0 then d else cl_Expiry c)"
    and "int_or rt (toMap c) ''iat'' d = (if cl_IssuedAt c = 0 then d else cl_IssuedAt c)"
    and "int_or rt (toMap c) ''nbf'' d = (if cl_NotBeforeTime c = 0 then d else cl_NotBeforeTime c)"
  using assms unfolding exact_claims_def
  by - (rule int_back [OF assms]; simp add: std_key jsonToField_def std_fields_def)+

lemma anys_back:
  assumes "exact_claims c"
  shows "val_or (toMap c) ''groups'' d = (if cl_Groups c = GNil then d else cl_Groups c)"
    and "val_or (toMap c) ''roles'' d = (if cl_Roles c = GNil then d else cl_Roles c)"
  using assms unfolding exact_claims_def
  by - (rule any_back [OF assms]; simp add: std_key jsonToField_def std_fields_def)+

lemma toString_GStr [simp]: "toString rt (GStr s) = s"
  by (simp add: toString_def)

lemma assigned_toMap:
  assumes "exact_claims c" and "j = c \<or> j = zero_claims"
  shows "assigned rt (toMap c) (set_audience rt (toMap c) (j\<lparr>cl_CustomClaims := []\<rparr>))
    = c\<lparr>cl_CustomClaims := []\<rparr>"
proof -
  note reads = strings_back [OF assms(1)] ints_back [OF assms(1)] anys_back [OF assms(1)]
    std_back [OF assms(1)]
  have "map (toString rt \<circ> GStr) ss = ss" for ss
    by (simp add: o_def)
  then show ?thesis
    using assms(2)
    by (elim disjE; intro idp_claims.equality)
      (simp_all add: assigned_def set_audience_def reads zero_claims_def)
qed

text \<open>
  Property C10. Claims survive the round trip through a claim map: reading back the map of a claims
  struct, into itself or into a fresh struct, gives the struct again, when its numbers are exact as
  doubles and no custom claim is named in the custom mapping.
\<close>

theorem fromMap_toMap_exact:
  assumes "exact_claims c" and "j = c \<or> j = zero_claims"
    and "fst ` set (cl_CustomClaims c) \<inter> fst ` set mapping = {}"
  shows "fromMap rt j (toMap c) mapping = Done c"
  using assms
  by (simp add: fromMap_eq nil_collections_toMap assigned_toMap custom_claims_toMap exact_claims_def)

theorem fromMap_toMap_exact_witness:
  "fromMap \<lparr>rt_f64_oob = (\<lambda>f. 0), rt_show_f64 = (\<lambda>f. []), rt_json_f64 = (\<lambda>f. [])\<rparr> zero_claims
     (toMap (zero_claims\<lparr>cl_Subject := ''joe'', cl_Expiry := 1700000000, cl_Groups := GArr [GStr ''ops''],
        cl_CustomClaims := [(''team'', GStr ''sales'')]\<rparr>)) [(''dept'', ''team'')]
   = Done (zero_claims\<lparr>cl_Subject := ''joe'', cl_Expiry := 1700000000, cl_Groups := GArr [GStr ''ops''],
        cl_CustomClaims := [(''team'', GStr ''sales'')]\<rparr>)"
  by (rule fromMap_toMap_exact)
    (simp_all add: exact_claims_def marshals_def zero_claims_def wf_map_def standardClaims_def jsonToField_def)

text \<open>
  Property C40. \<open>fromMap\<close> fails in exactly one way, by a panic: the map has a \<open>groups\<close> or a
  \<open>roles\<close> entry whose value is JSON \<open>null\<close>. Otherwise the subject, the expiry and the custom
  claims are those of the map, an absent entry leaving the field as it was.
\<close>

theorem fromMap_panics_on_null_collections:
  "(fromMap rt j m mapping = Panic p \<longleftrightarrow>
      p = ReflectSetZeroValue \<and> (mget m ''groups'' = Some GNil \<or> mget m ''roles'' = Some GNil))
   \<and> (case fromMap rt j m mapping of
        Panic _ \<Rightarrow> True
      | Done c \<Rightarrow>
          cl_Subject c = (case mget m ''sub'' of None \<Rightarrow> cl_Subject j | Some v \<Rightarrow> toString rt v)
          \<and> cl_Expiry c = (case mget m ''exp'' of None \<Rightarrow> cl_Expiry j | Some v \<Rightarrow> toInt64 rt v)
          \<and> cl_CustomClaims c = custom_claims mapping m)"
proof -
  have aud: "cl_Subject (set_audience rt m c) = cl_Subject c" "cl_Expiry (set_audience rt m c) = cl_Expiry c" for c
    by (simp_all add: set_audience_def split: option.split go_value.split)
  show ?thesis
    by (auto simp: fromMap_eq nil_collections_def assigned_def str_or_def int_or_def aud)
qed

end
