(* ===== verification/Server_Options.thy ===== *)
theory Server_Options
  imports Go_Values
begin

text \<open>
  Process-level settings: the options record and its three-layer merge
  (\<open>internal/broker/options.go\<close>), the log level names (\<open>internal/logging/logging.go\<close>), the
  redaction of keys in logs (\<open>internal/broker/logging.go\<close>), the resolution of the service
  version (\<open>internal/broker/version_resolver.go\<close>) and the helpers of \<open>internal/utils.go\<close>.
\<close>

section \<open>Options\<close>

record options =
  LogLevel :: string
  LogFormat :: string
  LogSensitive :: bool
  MetricsEnabled :: bool
  MetricsPort :: int
  WatchConfig :: bool

definition DefaultMetricsPort :: int where
  "DefaultMetricsPort = 8080"

definition DefaultServerOptions :: options where
  "DefaultServerOptions = \<lparr>LogLevel = ''info'', LogFormat = ''json'', LogSensitive = False,
     MetricsEnabled = False, MetricsPort = DefaultMetricsPort, WatchConfig = False\<rparr>"

definition NewServerContext :: "options option \<Rightarrow> options" where
  "NewServerContext opts = (case opts of None \<Rightarrow> DefaultServerOptions | Some o' \<Rightarrow> o')"

text \<open>The YAML layer: non-zero values replace the defaults.\<close>

definition apply_yaml :: "options \<Rightarrow> options \<Rightarrow> options" where
  "apply_yaml y = guarded
     [(LogLevel y \<noteq> [], \<lambda>m. m\<lparr>LogLevel := LogLevel y\<rparr>),
      (LogFormat y \<noteq> [], \<lambda>m. m\<lparr>LogFormat := LogFormat y\<rparr>),
      (LogSensitive y, \<lambda>m. m\<lparr>LogSensitive := True\<rparr>),
      (MetricsEnabled y, \<lambda>m. m\<lparr>MetricsEnabled := True\<rparr>),
      (MetricsPort y \<noteq> 0, \<lambda>m. m\<lparr>MetricsPort := MetricsPort y\<rparr>),
      (WatchConfig y, \<lambda>m. m\<lparr>WatchConfig := True\<rparr>)]"

text \<open>The command line layer: only flags named in \<open>cliFlags\<close>.\<close>

definition apply_cli :: "options \<Rightarrow> (string \<Rightarrow> bool) \<Rightarrow> options \<Rightarrow> options" where
  "apply_cli c cliFlags = guarded
     [(cliFlags ''log-level'', \<lambda>m. m\<lparr>LogLevel := LogLevel c\<rparr>),
      (cliFlags ''log-format'', \<lambda>m. m\<lparr>LogFormat := LogFormat c\<rparr>),
      (cliFlags ''log-sensitive'', \<lambda>m. m\<lparr>LogSensitive := LogSensitive c\<rparr>),
      (cliFlags ''metrics'', \<lambda>m. m\<lparr>MetricsEnabled := MetricsEnabled c\<rparr>),
      (cliFlags ''metrics-port'', \<lambda>m. m\<lparr>MetricsPort := MetricsPort c\<rparr>),
      (cliFlags ''watch'', \<lambda>m. m\<lparr>WatchConfig := WatchConfig c\<rparr>)]"

definition MergeOptions :: "options \<Rightarrow> options \<Rightarrow> (string \<Rightarrow> bool) \<Rightarrow> options" where
  "MergeOptions yamlOpts cliOpts cliFlags =
     apply_cli cliOpts cliFlags (apply_yaml yamlOpts DefaultServerOptions)"

text \<open>
  The abstract contract: each option takes the first layer that sets it, in the order command
  line, YAML, default.
\<close>

definition first_set :: "bool \<Rightarrow> 'a \<Rightarrow> bool \<Rightarrow> 'a \<Rightarrow> 'a \<Rightarrow> 'a" where
  "first_set cli_set c yaml_set y d = (if cli_set then c else if yaml_set then y else d)"

section \<open>Log levels\<close>

datatype log_level = DebugLevel | InfoLevel | WarnLevel | ErrorLevel | PanicLevel | FatalLevel | AboveFatal

text \<open>
  zap's numbering: \<open>Debug = -1\<close>, \<open>Info = 0\<close>, \<open>Warn = 1\<close>, \<open>Error = 2\<close>, \<open>DPanic = 3\<close>,
  \<open>Panic = 4\<close>, \<open>Fatal = 5\<close>; a logger at a level prints the messages of that level and above.
\<close>

primrec severity :: "log_level \<Rightarrow> int" where
  "severity DebugLevel = -1"
| "severity InfoLevel = 0"
| "severity WarnLevel = 1"
| "severity ErrorLevel = 2"
| "severity PanicLevel = 4"
| "severity FatalLevel = 5"
| "severity AboveFatal = 6"

instantiation log_level :: linorder
begin

definition less_eq_log_level :: "log_level \<Rightarrow> log_level \<Rightarrow> bool" where
  "less_eq_log_level a b \<longleftrightarrow> severity a \<le> severity b"

definition less_log_level :: "log_level \<Rightarrow> log_level \<Rightarrow> bool" where
  "less_log_level a b \<longleftrightarrow> severity a < severity b"

instance
proof
  fix a b :: log_level
  show "a \<le> b \<Longrightarrow> b \<le> a \<Longrightarrow> a = b"
    by (cases a; cases b) (simp_all add: less_eq_log_level_def)
qed (auto simp: less_eq_log_level_def less_log_level_def)

end

definition parseLevel :: "string \<Rightarrow> log_level" where
  "parseLevel level =
     (let l = to_lower level in
      if l = ''disabled'' then AboveFatal
      else if l = ''panic'' then PanicLevel
      else if l = ''fatal'' then FatalLevel
      else if l = ''error'' then ErrorLevel
      else if l = ''warn'' then WarnLevel
      else if l = ''info'' then InfoLevel
      else if l = ''debug'' \<or> l = ''trace'' then DebugLevel
      else InfoLevel)"

text \<open>
  The global logger: a development or production configuration at a level, or the one that prints
  nothing when building it fails.
\<close>

datatype logger = DevelopmentLogger log_level | ProductionLogger log_level | NopLogger

definition logging_Setup :: "(logger \<Rightarrow> bool) \<Rightarrow> string \<Rightarrow> bool \<Rightarrow> logger" where
  "logging_Setup builds level humanReadable =
     (let zapLevel = parseLevel level;
          cfg = (if humanReadable then DevelopmentLogger zapLevel else ProductionLogger zapLevel)
      in if builds cfg then cfg else NopLogger)"

section \<open>Redacted keys\<close>

definition KeyPrefixLength :: nat where
  "KeyPrefixLength = 2"

definition base32_alphabet :: string where
  "base32_alphabet = ''ABCDEFGHIJKLMNOPQRSTUVWXYZ234567''"

text \<open>\<open>SecureLogKey\<close> on a string value.\<close>

definition SecureLogKey :: "string \<Rightarrow> string" where
  "SecureLogKey k =
     (let stars = (\<lambda>n. replicate (length k - n) CHR ''*'') in
      if k = [] then []
      else if length k > 1 \<and> hd k = CHR ''P'' then take 1 k @ stars 1
      else if length k > 1 \<and> hd k = CHR ''S'' then
        (if length k \<le> KeyPrefixLength then k else take KeyPrefixLength k @ stars KeyPrefixLength)
      else if length k > 1 \<and> hd k \<in> set ''NACOUX'' then k
      else if length k \<le> KeyPrefixLength then k
      else if \<not> list_all (\<lambda>c. c \<in> set base32_alphabet) k then k
      else take KeyPrefixLength k @ stars KeyPrefixLength)"

section \<open>Service version\<close>

text \<open>The environment variable, the version set at build time and the YAML field, in this order.\<close>

definition rawServiceVersion :: "string \<Rightarrow> string \<Rightarrow> string \<Rightarrow> string" where
  "rawServiceVersion env build yamlVersion =
     (if env \<noteq> [] then env
      else if build \<noteq> [] \<and> build \<noteq> ''dev'' then build
      else if yamlVersion \<noteq> [] then yamlVersion
      else ''dev'')"

definition ResolveServiceVersion :: "string \<Rightarrow> string \<Rightarrow> string \<Rightarrow> string" where
  "ResolveServiceVersion env build yamlVersion = trim_prefix (rawServiceVersion env build yamlVersion) ''v''"

section \<open>Helpers\<close>

definition IgnoreError :: "'a \<Rightarrow> go_error option \<Rightarrow> 'a" where
  "IgnoreError val err = val"

text \<open>
  \<open>Error\<close> and \<open>String\<close> are methods of the operands: \<open>error_text\<close> gives the text of an error,
  \<open>stringer\<close> that of a value whose type has a \<open>String\<close> method.
\<close>

definition CollapseError ::
  "go_runtime \<Rightarrow> (go_error \<Rightarrow> string) \<Rightarrow> (go_value \<Rightarrow> string option) \<Rightarrow> go_value \<Rightarrow> go_error option \<Rightarrow> string" where
  "CollapseError rt error_text stringer val err =
     (case err of
        Some e \<Rightarrow> error_text e
      | None \<Rightarrow>
          (case val of
             GStr v \<Rightarrow> v
           | _ \<Rightarrow> (case stringer val of Some s \<Rightarrow> s | None \<Rightarrow> sprint_v rt val)))"

text \<open>\<open>None\<close> is the exit of the process with status 1.\<close>

definition ParseDelimiters :: "string \<Rightarrow> (string \<times> string) option" where
  "ParseDelimiters delim =
     (case split_char CHR '','' delim of
        [l, r] \<Rightarrow> if l = [] \<or> r = [] then None else Some (l, r)
      | _ \<Rightarrow> None)"

section \<open>Properties\<close>

lemma guarded_updates:
  "guarded ((b, \<lambda>m. m\<lparr>LogLevel := s\<rparr>) # gs) m = guarded gs (m\<lparr>LogLevel := if b then s else LogLevel m\<rparr>)"
  "guarded ((b, \<lambda>m. m\<lparr>LogFormat := s\<rparr>) # gs) m = guarded gs (m\<lparr>LogFormat := if b then s else LogFormat m\<rparr>)"
  "guarded ((b, \<lambda>m. m\<lparr>LogSensitive := v\<rparr>) # gs) m =
     guarded gs (m\<lparr>LogSensitive := if b then v else LogSensitive m\<rparr>)"
  "guarded ((b, \<lambda>m. m\<lparr>MetricsEnabled := v\<rparr>) # gs) m =
     guarded gs (m\<lparr>MetricsEnabled := if b then v else MetricsEnabled m\<rparr>)"
  "guarded ((b, \<lambda>m. m\<lparr>MetricsPort := i\<rparr>) # gs) m = guarded gs (m\<lparr>MetricsPort := if b then i else MetricsPort m\<rparr>)"
  "guarded ((b, \<lambda>m. m\<lparr>WatchConfig := v\<rparr>) # gs) m = guarded gs (m\<lparr>WatchConfig := if b then v else WatchConfig m\<rparr>)"
  by simp_all

lemma yaml_eq: "apply_yaml y m = m\<lparr>LogLevel := if LogLevel y \<noteq> [] then LogLevel y else LogLevel m,
   LogFormat := if LogFormat y \<noteq> [] then LogFormat y else LogFormat m,
   LogSensitive := if LogSensitive y then True else LogSensitive m,
   MetricsEnabled := if MetricsEnabled y then True else MetricsEnabled m,
   MetricsPort := if MetricsPort y \<noteq> 0 then MetricsPort y else MetricsPort m,
   WatchConfig := if WatchConfig y then True else WatchConfig m\<rparr>"
  unfolding apply_yaml_def guarded_updates guarded.simps(1) by simp
lemma cli_eq: "apply_cli c f m = m\<lparr>LogLevel := if f ''log-level'' then LogLevel c else LogLevel m,
   LogFormat := if f ''log-format'' then LogFormat c else LogFormat m,
   LogSensitive := if f ''log-sensitive'' then LogSensitive c else LogSensitive m,
   MetricsEnabled := if f ''metrics'' then MetricsEnabled c else MetricsEnabled m,
   MetricsPort := if f ''metrics-port'' then MetricsPort c else MetricsPort m,
   WatchConfig := if f ''watch'' then WatchConfig c else WatchConfig m\<rparr>"
  unfolding apply_cli_def guarded_updates guarded.simps(1) by simp

text \<open>
  Every option of the merged record comes from the first layer that sets it: an explicitly given
  command line flag, else a non-zero YAML value, else the default.
\<close>

lemma merge_options_layers:
  "MergeOptions y c flags =
    \<lparr>LogLevel = first_set (flags ''log-level'') (LogLevel c) (LogLevel y \<noteq> []) (LogLevel y) ''info'',
     LogFormat = first_set (flags ''log-format'') (LogFormat c) (LogFormat y \<noteq> []) (LogFormat y) ''json'',
     LogSensitive = first_set (flags ''log-sensitive'') (LogSensitive c) (LogSensitive y) True False,
     MetricsEnabled = first_set (flags ''metrics'') (MetricsEnabled c) (MetricsEnabled y) True False,
     MetricsPort = first_set (flags ''metrics-port'') (MetricsPort c) (MetricsPort y \<noteq> 0) (MetricsPort y) 8080,
     WatchConfig = first_set (flags ''watch'') (WatchConfig c) (WatchConfig y) True False\<rparr>"
  unfolding MergeOptions_def yaml_eq cli_eq DefaultServerOptions_def DefaultMetricsPort_def first_set_def
  by (intro options.equality) simp_all

lemma secure_log_key_length: "length (SecureLogKey k) = length k"
  by (auto simp: SecureLogKey_def Let_def KeyPrefixLength_def)

lemma secure_log_seed:
  "SecureLogKey (CHR ''S'' # b # r) = CHR ''S'' # b # replicate (length r) CHR ''*''"
  by (cases r) (simp_all add: SecureLogKey_def KeyPrefixLength_def)

lemma secure_log_private:
  "SecureLogKey (CHR ''P'' # b # r) = CHR ''P'' # CHR ''*'' # replicate (length r) CHR ''*''"
  by (simp add: SecureLogKey_def)

text \<open>
  A seed or private key never reaches the log: two keys that start with \<open>S\<close> or
  \<open>P\<close>, have the same length and agree in their first two characters are logged alike.
\<close>

lemma secure_log_key_hides_secrets:
  assumes "hd k \<in> {CHR ''S'', CHR ''P''}" and "length k = length k'" and "take 2 k = take 2 k'"
    and "2 \<le> length k"
  shows "SecureLogKey k = SecureLogKey k'"
proof -
  obtain a b r where k: "k = a # b # r" using assms(4) by (cases k; cases "tl k") auto
  then obtain r' where k': "k' = a # b # r'"
    using assms(2,3) by (cases k'; cases "tl k'") auto
  from assms(1) have "a = CHR ''S'' \<or> a = CHR ''P''" by (simp add: k)
  then show ?thesis
    using assms(2) by (elim disjE) (simp_all add: k k' secure_log_seed secure_log_private)
qed

lemma secure_log_key_hides_secrets_witness:
  "SecureLogKey ''SUAIBDPB'' = SecureLogKey ''SUXXXXXX''"
  by (rule secure_log_key_hides_secrets) simp_all

lemma resolve_version_nonempty_prefix:
  "rawServiceVersion env build y \<noteq> []"
  by (simp add: rawServiceVersion_def)

text \<open>
  The service version is the first source that is set, without one leading \<open>v\<close>; a
  build version of \<open>dev\<close> counts as not set.
\<close>

lemma resolve_version_precedence:
  "ResolveServiceVersion env build y =
     (case filter (\<lambda>s. s \<noteq> []) [env, if build = ''dev'' then [] else build, y] of
        [] \<Rightarrow> ''dev''
      | s # _ \<Rightarrow> if hd s = CHR ''v'' then tl s else s)"
proof -
  have "s \<noteq> [] \<Longrightarrow> trim_prefix s ''v'' = (if hd s = CHR ''v'' then tl s else s)" for s
    by (cases s) (auto simp: trim_prefix_def has_prefix_def)
  then show ?thesis by (simp add: ResolveServiceVersion_def rawServiceVersion_def)
qed

lemma parse_delimiters_inverse:
  assumes "CHR '','' \<notin> set l" and "CHR '','' \<notin> set r" and "l \<noteq> []" and "r \<noteq> []"
  shows "ParseDelimiters (l @ '','' @ r) = Some (l, r)"
proof -
  have single: "d \<notin> set w \<Longrightarrow> split_char d w = [w]" for d w by (induction w) auto
  have "d \<notin> set w \<Longrightarrow> split_char d (w @ d # v) = w # split_char d v" for d w v
    by (induction w) auto
  with assms single show ?thesis by (simp add: ParseDelimiters_def)
qed

end
