(* ===== verification/Broker_Config.thy ===== *)
theory Broker_Config
  imports Idp_Claims Server_Options
begin

text \<open>
  The configuration structs of \<open>internal/broker/config.go\<close> and
  \<open>internal/broker/config_rbac.go\<close>. A Go pointer or interface value that may be nil is an
  option. Durations are nanoseconds; \<open>jwt.NoLimit\<close> is -1. The permission and limit structs of
  the \<open>nats-io/jwt\<close> library have the shape of the configuration's own, so each pair shares one
  record.
\<close>

section \<open>Keys\<close>

text \<open>
  An \<open>nkeys.KeyPair\<close> is an interface value: it is given by what its methods return. The methods
  are those the broker calls.
\<close>

record keypair =
  kp_PublicKey :: "string result"
  kp_Open :: "string \<Rightarrow> string \<Rightarrow> string result"
  kp_Seal :: "string \<Rightarrow> string \<Rightarrow> string result"

type_synonym nkey = "keypair option"

section \<open>RBAC\<close>

record user_account_info =
  ua_Name :: string
  ua_PublicKey :: string
  ua_SigningNKey :: nkey

record match_criterion =
  mc_Claim :: string
  mc_Value :: string
  mc_Permission :: string
  mc_Expr :: string

record role_binding =
  rb_Account :: string
  rb_Roles :: "string list"
  rb_TokenMaxExpiry :: int
  rb_Match :: "match_criterion list"

record subject_permission =
  sp_Allow :: "string list"
  sp_Deny :: "string list"

record response_permission =
  rp_MaxMsgs :: int
  rp_Expires :: int

record permissions =
  pm_Pub :: subject_permission
  pm_Sub :: subject_permission
  pm_Resp :: response_permission

record user_limits =
  ul_Src :: "string list"
  ul_Times :: "(string \<times> string) list"
  ul_Locale :: string

record nats_limits =
  nl_Subs :: int
  nl_Data :: int
  nl_Payload :: int

record limits =
  lm_User :: user_limits
  lm_Nats :: nats_limits

record role =
  ro_Name :: string
  ro_Permissions :: permissions
  ro_Limits :: limits

text \<open>\<open>RoleBindingStrategy\<close> is a string type; \<open>UnmarshalYAML\<close> admits its two constants only.\<close>

type_synonym strategy = string

definition StrategyBestMatch :: strategy where
  "StrategyBestMatch = ''best_match''"

definition StrategyStrict :: strategy where
  "StrategyStrict = ''strict''"

definition strategy_UnmarshalYAML :: "string result \<Rightarrow> strategy result" where
  "strategy_UnmarshalYAML decoded =
     (case decoded of
        Inl e \<Rightarrow> Err e
      | Inr str \<Rightarrow>
          let strLower = to_lower str in
          if strLower = StrategyStrict \<or> strLower = StrategyBestMatch then Ok strLower
          else Ok StrategyBestMatch)"

lemma strategy_UnmarshalYAML_range:
  "strategy_UnmarshalYAML d = Ok s \<Longrightarrow> s = StrategyStrict \<or> s = StrategyBestMatch"
  by (auto simp: strategy_UnmarshalYAML_def Let_def split: sum.splits if_splits)

record rbac =
  rbac_Accounts :: "user_account_info list"
  rbac_RoleBinding :: "role_binding list"
  rbac_Roles :: "role list"
  rbac_TokenMaxExpiry :: int
  rbac_Strategy :: strategy
  rbac_AutoAccountsDir :: string

section \<open>Identity providers\<close>

record validation_spec =
  vs_Claims :: "string list"
  vs_Audience :: "string list"
  vs_SkipAudienceValidation :: bool
  vs_TokenExpiryBounds :: duration_bounds
  vs_CustomClaimsMapping :: "(string \<times> string) list"

record idp =
  idp_Description :: string
  idp_IssuerURL :: string
  idp_ClientID :: string
  idp_ValidationSpec :: validation_spec
  idp_UserInfoEnabled :: bool
  idp_TokenExpiryBounds :: duration_bounds
  idp_CustomMapping :: "(string \<times> string) list"
  idp_IgnoreSetupError :: bool
  idp_MaxTokenLifetime :: int
  idp_ClockSkew :: int

section \<open>The configuration\<close>

record config_params =
  cp_LeftDelim :: string
  cp_RightDelim :: string

record nats_section =
  nats_URL :: string
  nats_TokenExpiryBounds :: duration_bounds

record service_account =
  sa_Name :: string
  sa_SigningNKey :: nkey
  sa_XKeySeed :: nkey

record service =
  sv_Name :: string
  sv_Description :: string
  sv_Version :: string
  sv_CredsFile :: string
  sv_Account :: service_account

record config =
  cfg_AppParams :: config_params
  cfg_Server :: options
  cfg_NATS :: nats_section
  cfg_Service :: service
  cfg_Idp :: "idp list"
  cfg_Rbac :: rbac

definition DefaultTokenExpiryBoundsLower :: int where
  "DefaultTokenExpiryBoundsLower = 60 * second"

definition DefaultTokenExpiryBoundsUpper :: int where
  "DefaultTokenExpiryBoundsUpper = 3600 * second"

section \<open>The client's token request\<close>

record token_request =
  tr_AccessToken :: string
  tr_ExpiresIn :: int
  tr_IDToken :: string
  tr_RefreshToken :: string
  tr_TokenType :: string
  tr_Traceparent :: string

definition zero_token_request :: token_request where
  "zero_token_request = \<lparr>tr_AccessToken = [], tr_ExpiresIn = 0, tr_IDToken = [],
     tr_RefreshToken = [], tr_TokenType = [], tr_Traceparent = []\<rparr>"

end
