(* ===== verification/Go_Paths.thy ===== *)
theory Go_Paths
  imports Go_Strings
begin

text \<open>
  Go's \<open>path/filepath\<close> on Unix (\<open>Clean\<close>, \<open>Join\<close>, \<open>Base\<close>, \<open>Dir\<close>, \<open>Abs\<close>), and the
  file system the broker reads, which is the environment's: what \<open>Glob\<close>, \<open>ReadFile\<close>,
  \<open>Stat\<close> and \<open>Getwd\<close> answer at a moment.
\<close>

record file_system =
  fs_glob :: "string \<Rightarrow> string list result"
  fs_read :: "string \<Rightarrow> string result"
  fs_missing :: "string \<Rightarrow> bool"
  fs_cwd :: "string result"

section \<open>Lexical paths\<close>

text \<open>The elements of a cleaned path, kept in reverse while scanning.\<close>

fun clean_elems :: "bool \<Rightarrow> string list \<Rightarrow> string list \<Rightarrow> string list" where
  "clean_elems rooted [] acc = rev acc"
| "clean_elems rooted (e # es) acc =
     (if e = [] \<or> e = ''.'' then clean_elems rooted es acc
      else if e = ''..'' then
        (case acc of
           [] \<Rightarrow> clean_elems rooted es (if rooted then [] else [e])
         | a # as \<Rightarrow> clean_elems rooted es (if a = ''..'' then e # acc else as))
      else clean_elems rooted es (e # acc))"

definition is_abs :: "string \<Rightarrow> bool" where
  "is_abs p \<longleftrightarrow> has_prefix p ''/''"

definition path_clean :: "string \<Rightarrow> string" where
  "path_clean p =
     (let body = join ''/'' (clean_elems (is_abs p) (split_char CHR ''/'' p) [])
      in if is_abs p then ''/'' @ body else if body = [] then ''.'' else body)"

definition path_join :: "string list \<Rightarrow> string" where
  "path_join elems =
     (let es = filter (\<lambda>e. e \<noteq> []) elems in if es = [] then [] else path_clean (join ''/'' es))"

definition strip_slashes :: "string \<Rightarrow> string" where
  "strip_slashes p = rev (dropWhile (\<lambda>c. c = CHR ''/'') (rev p))"

definition path_base :: "string \<Rightarrow> string" where
  "path_base p =
     (if p = [] then ''.''
      else let q = strip_slashes p in if q = [] then ''/'' else last (split_char CHR ''/'' q))"

definition path_dir :: "string \<Rightarrow> string" where
  "path_dir p = path_clean (rev (dropWhile (\<lambda>c. c \<noteq> CHR ''/'') (rev p)))"

definition path_abs :: "file_system \<Rightarrow> string \<Rightarrow> string result" where
  "path_abs fs p =
     (if is_abs p then Ok (path_clean p)
      else case fs_cwd fs of Inl e \<Rightarrow> Err e | Inr wd \<Rightarrow> Ok (path_join [wd, p]))"

text \<open>The pattern \<open>abs, err := filepath.Abs(p); if err != nil { abs = p }\<close>.\<close>

definition abs_or_same :: "file_system \<Rightarrow> string \<Rightarrow> string" where
  "abs_or_same fs p = (case path_abs fs p of Inl _ \<Rightarrow> p | Inr a \<Rightarrow> a)"

text \<open>A path pattern as the command line takes it: a glob if it holds one of \<open>*?[]\<close>.\<close>

definition expand_pattern :: "file_system \<Rightarrow> string \<Rightarrow> string list result" where
  "expand_pattern fs pattern =
     (if contains_any pattern ''*?[]'' then
        (case fs_glob fs pattern of
           Inl e \<Rightarrow> Err (BadGlob pattern)
         | Inr matches \<Rightarrow> if matches = [] then Err (NoGlobMatch pattern) else Ok matches)
      else Ok [pattern])"

section \<open>Lemmas\<close>

lemma split_char_no_sep: "w \<in> set (split_char d s) \<Longrightarrow> d \<notin> set w"
  by (induction s arbitrary: w) (auto split: list.splits if_splits)

lemma clean_elems_set: "set (clean_elems r es acc) \<subseteq> set es \<union> set acc"
  by (induction r es acc rule: clean_elems.induct) (auto split: list.splits)

lemma path_clean_nonempty: "path_clean p \<noteq> []"
  by (simp add: path_clean_def Let_def)

text \<open>A cleaned element list stays as it is: \<open>..\<close> only leads, and only in a relative path.\<close>

definition clean_list :: "bool \<Rightarrow> string list \<Rightarrow> bool" where
  "clean_list rooted es \<longleftrightarrow>
     (\<forall>e\<in>set es. e \<noteq> [] \<and> e \<noteq> ''.'' \<and> CHR ''/'' \<notin> set e)
     \<and> (\<exists>n ws. es = replicate n ''..'' @ ws \<and> ''..'' \<notin> set ws \<and> (rooted \<longrightarrow> n = 0))"

lemma clean_elems_plain:
  "\<forall>e\<in>set ws. e \<noteq> [] \<and> e \<noteq> ''.'' \<and> e \<noteq> ''..'' \<Longrightarrow>
   clean_elems rooted (ws @ es) acc = clean_elems rooted es (rev ws @ acc)"
  by (induction ws arbitrary: acc) auto

lemma clean_elems_dots:
  "clean_elems False (replicate n ''..'' @ es) (replicate k ''..'') =
   clean_elems False es (replicate (n + k) ''..'')"
proof (induction n arbitrary: k)
  case (Suc n)
  have "clean_elems False (''..'' # replicate n ''..'' @ es) (replicate k ''..'')
      = clean_elems False (replicate n ''..'' @ es) (replicate (Suc k) ''..'')"
    by (cases k) auto
  with Suc.IH [of "Suc k"] show ?case by simp
qed simp

lemma clean_elems_clean_list:
  assumes "clean_list rooted es"
  shows "clean_elems rooted es [] = es"
proof -
  obtain n ws where es: "es = replicate n ''..'' @ ws" and ws: "''..'' \<notin> set ws" and n: "rooted \<longrightarrow> n = 0"
    using assms by (auto simp: clean_list_def)
  have "\<forall>e\<in>set ws. e \<noteq> [] \<and> e \<noteq> ''.'' \<and> e \<noteq> ''..''"
    using assms ws es by (auto simp: clean_list_def)
  note plain = clean_elems_plain [OF this, of rooted "[]", simplified]
  show ?thesis
  proof (cases rooted)
    case True
    with n es plain show ?thesis by simp
  next
    case False
    have "clean_elems False es [] = clean_elems False ws (replicate n ''..'')"
      using clean_elems_dots [of n ws 0] by (simp add: es)
    with False plain es show ?thesis by simp
  qed
qed

end
