(* ===== verification/Go_Regexp.thy ===== *)
theory Go_Regexp
  imports Go_Strings
begin

text \<open>
  Go's \<open>regexp\<close> for the expressions the broker uses: literals, character classes, greedy and
  lazy repetition of a class, options, sequences, alternatives and capturing groups. A match is the
  leftmost one, and among those at one position the one a backtracking search finds first.
\<close>

section \<open>Expressions and their matches\<close>

datatype rx =
    Lit string
  | Cls "char \<Rightarrow> bool"
  | Star "char \<Rightarrow> bool"
  | Lazy "char \<Rightarrow> bool"
  | Opt rx
  | Cat rx rx
  | Alt rx rx
  | Cap rx

text \<open>The ways to split off characters of a class, the shortest first.\<close>

fun class_splits :: "(char \<Rightarrow> bool) \<Rightarrow> string \<Rightarrow> (string \<times> string) list" where
  "class_splits P [] = [([], [])]"
| "class_splits P (c # s) = ([], c # s) # (if P c then map (\<lambda>(a, b). (c # a, b)) (class_splits P s) else [])"

text \<open>
  The matches at the start of a text in the order of preference: the text matched, the captured
  groups, and the rest.
\<close>

fun rx_run :: "rx \<Rightarrow> string \<Rightarrow> (string \<times> string list \<times> string) list" where
  "rx_run (Lit l) s = (if has_prefix s l then [(l, [], drop (length l) s)] else [])"
| "rx_run (Cls P) s = (case s of [] \<Rightarrow> [] | c # r \<Rightarrow> if P c then [([c], [], r)] else [])"
| "rx_run (Star P) s = rev (map (\<lambda>(a, b). (a, [], b)) (class_splits P s))"
| "rx_run (Lazy P) s = map (\<lambda>(a, b). (a, [], b)) (class_splits P s)"
| "rx_run (Opt r) s = rx_run r s @ [([], [], s)]"
| "rx_run (Cat a b) s =
     concat (map (\<lambda>(m, cs, r). map (\<lambda>(m', cs', r'). (m @ m', cs @ cs', r')) (rx_run b r)) (rx_run a s))"
| "rx_run (Alt a b) s = rx_run a s @ rx_run b s"
| "rx_run (Cap a) s = map (\<lambda>(m, cs, r). (m, m # cs, r)) (rx_run a s)"

text \<open>\<open>FindStringSubmatch\<close>: the whole match and its groups; \<open>None\<close> is the nil slice.\<close>

fun find_submatch :: "rx \<Rightarrow> string \<Rightarrow> string list option" where
  "find_submatch r [] = (case rx_run r [] of [] \<Rightarrow> None | (m, cs, _) # _ \<Rightarrow> Some (m # cs))"
| "find_submatch r (c # s) =
     (case rx_run r (c # s) of [] \<Rightarrow> find_submatch r s | (m, cs, _) # _ \<Rightarrow> Some (m # cs))"

text \<open>\<open>MatchString\<close> of an expression between \<open>^\<close> and \<open>$\<close>.\<close>

definition full_match :: "rx \<Rightarrow> string \<Rightarrow> bool" where
  "full_match r s \<longleftrightarrow> (\<exists>(m, cs, rest)\<in>set (rx_run r s). rest = [])"

section \<open>The language of an expression\<close>

text \<open>The reference: which texts an expression describes, and with which groups.\<close>

fun rx_lang :: "rx \<Rightarrow> string \<Rightarrow> string list \<Rightarrow> bool" where
  "rx_lang (Lit l) m cs \<longleftrightarrow> m = l \<and> cs = []"
| "rx_lang (Cls P) m cs \<longleftrightarrow> (\<exists>c. m = [c] \<and> P c) \<and> cs = []"
| "rx_lang (Star P) m cs \<longleftrightarrow> list_all P m \<and> cs = []"
| "rx_lang (Lazy P) m cs \<longleftrightarrow> list_all P m \<and> cs = []"
| "rx_lang (Opt r) m cs \<longleftrightarrow> rx_lang r m cs \<or> m = [] \<and> cs = []"
| "rx_lang (Cat a b) m cs \<longleftrightarrow>
     (\<exists>m1 m2 c1 c2. m = m1 @ m2 \<and> cs = c1 @ c2 \<and> rx_lang a m1 c1 \<and> rx_lang b m2 c2)"
| "rx_lang (Alt a b) m cs \<longleftrightarrow> rx_lang a m cs \<or> rx_lang b m cs"
| "rx_lang (Cap a) m cs \<longleftrightarrow> (\<exists>c1. cs = m # c1 \<and> rx_lang a m c1)"

lemma class_splits_iff: "(a, b) \<in> set (class_splits P s) \<longleftrightarrow> s = a @ b \<and> list_all P a"
proof (induction s arbitrary: a)
  case (Cons c s)
  then show ?case by (cases a) auto
qed auto

lemma rx_run_iff: "(m, cs, r) \<in> set (rx_run x s) \<longleftrightarrow> s = m @ r \<and> rx_lang x m cs"
proof (induction x arbitrary: m cs r s)
  case (Lit l)
  then show ?case by (auto simp: has_prefix_iff)
next
  case (Cls P)
  then show ?case by (cases s) auto
next
  case (Star P)
  have "(m, cs, r) \<in> set (rx_run (Star P) s) \<longleftrightarrow> cs = [] \<and> (m, r) \<in> set (class_splits P s)" by auto
  then show ?case by (auto simp: class_splits_iff)
next
  case (Lazy P)
  have "(m, cs, r) \<in> set (rx_run (Lazy P) s) \<longleftrightarrow> cs = [] \<and> (m, r) \<in> set (class_splits P s)" by auto
  then show ?case by (auto simp: class_splits_iff)
next
  case (Cat a b)
  show ?case
  proof
    assume "(m, cs, r) \<in> set (rx_run (Cat a b) s)"
    then obtain m1 c1 r1 m2 c2 where "(m1, c1, r1) \<in> set (rx_run a s)" "(m2, c2, r) \<in> set (rx_run b r1)"
      and e: "m = m1 @ m2" "cs = c1 @ c2" by auto
    then have "s = m1 @ r1" "rx_lang a m1 c1" "r1 = m2 @ r" "rx_lang b m2 c2" unfolding Cat.IH by blast+
    with e show "s = m @ r \<and> rx_lang (Cat a b) m cs" unfolding rx_lang.simps by auto
  next
    assume "s = m @ r \<and> rx_lang (Cat a b) m cs"
    then obtain m1 m2 c1 c2 where e: "s = m1 @ m2 @ r" "m = m1 @ m2" "cs = c1 @ c2" "rx_lang a m1 c1" "rx_lang b m2 c2"
      unfolding rx_lang.simps by auto
    then have "(m1, c1, m2 @ r) \<in> set (rx_run a s)" "(m2, c2, r) \<in> set (rx_run b (m2 @ r))" unfolding Cat.IH by blast+
    with e show "(m, cs, r) \<in> set (rx_run (Cat a b) s)"
      by (auto intro!: bexI [of _ "(m1, c1, m2 @ r)"] image_eqI [of _ _ "(m2, c2, r)"])
  qed
next
  case (Cap a)
  have "(m, cs, r) \<in> set (rx_run (Cap a) s) \<longleftrightarrow> (\<exists>c1. cs = m # c1 \<and> (m, c1, r) \<in> set (rx_run a s))"
    by (auto intro: image_eqI [of _ _ "(m, c, r)" for c])
  then show ?case unfolding Cap.IH by auto
qed auto

lemma full_match_iff: "full_match x s \<longleftrightarrow> (\<exists>cs. rx_lang x s cs)"
proof -
  have "full_match x s \<longleftrightarrow> (\<exists>m cs. (m, cs, []) \<in> set (rx_run x s))" by (auto simp: full_match_def)
  then show ?thesis by (simp add: rx_run_iff)
qed

lemma rx_lang_some:
  "rx_lang (Cat (Cls P) (Star Q)) m cs \<longleftrightarrow> m \<noteq> [] \<and> P (hd m) \<and> list_all Q (tl m) \<and> cs = []"
proof
  assume "m \<noteq> [] \<and> P (hd m) \<and> list_all Q (tl m) \<and> cs = []"
  then have "m = [hd m] @ tl m" "cs = [] @ []" "rx_lang (Cls P) [hd m] []" "rx_lang (Star Q) (tl m) []" by simp_all
  then show "rx_lang (Cat (Cls P) (Star Q)) m cs" unfolding rx_lang.simps(6) by blast
qed auto

text \<open>A match is found exactly if some part of the text is in the language, and then as far left as possible.\<close>

lemma rx_run_Nil: "rx_run x s = [] \<longleftrightarrow> (\<forall>m r cs. s = m @ r \<longrightarrow> \<not> rx_lang x m cs)"
proof -
  have "rx_run x s = [] \<longleftrightarrow> (\<forall>m cs r. (m, cs, r) \<notin> set (rx_run x s))"
    by (cases "rx_run x s") auto
  then show ?thesis by (simp only: rx_run_iff) blast
qed

lemma find_submatch_None: "find_submatch x s = None \<longleftrightarrow> (\<forall>p m r cs. s = p @ m @ r \<longrightarrow> \<not> rx_lang x m cs)"
proof (induction s)
  case Nil
  have "find_submatch x [] = None \<longleftrightarrow> rx_run x [] = []" by (auto split: list.split)
  then show ?case by (simp add: rx_run_Nil)
next
  case (Cons c s)
  have "find_submatch x (c # s) = None \<longleftrightarrow> rx_run x (c # s) = [] \<and> find_submatch x s = None"
    by (auto split: list.split)
  also have "\<dots> \<longleftrightarrow> (\<forall>m r cs. c # s = m @ r \<longrightarrow> \<not> rx_lang x m cs) \<and> (\<forall>p m r cs. s = p @ m @ r \<longrightarrow> \<not> rx_lang x m cs)"
    unfolding rx_run_Nil Cons ..
  also have "\<dots> \<longleftrightarrow> (\<forall>p m r cs. c # s = p @ m @ r \<longrightarrow> \<not> rx_lang x m cs)"
  proof (intro iffI allI impI conjI)
    fix p m r cs
    assume "(\<forall>m r cs. c # s = m @ r \<longrightarrow> \<not> rx_lang x m cs) \<and> (\<forall>p m r cs. s = p @ m @ r \<longrightarrow> \<not> rx_lang x m cs)"
      and "c # s = p @ m @ r"
    then show "\<not> rx_lang x m cs" by (cases p) (simp_all, blast)
  next
    fix m r cs
    assume "\<forall>p m r cs. c # s = p @ m @ r \<longrightarrow> \<not> rx_lang x m cs" and "c # s = m @ r"
    then show "\<not> rx_lang x m cs" by (metis append_Nil)
  next
    fix p m r cs
    assume "\<forall>p m r cs. c # s = p @ m @ r \<longrightarrow> \<not> rx_lang x m cs" and "s = p @ m @ r"
    then show "\<not> rx_lang x m cs" by (metis append_Cons)
  qed
  finally show ?case .
qed

lemma find_submatch_Some:
  "find_submatch x s = Some ms \<Longrightarrow> \<exists>p m cs r. s = p @ m @ r \<and> ms = m # cs \<and> rx_lang x m cs"
proof (induction s)
  case Nil
  then obtain m cs r ys where "rx_run x [] = (m, cs, r) # ys" "ms = m # cs"
    by (auto split: list.splits)
  moreover from this(1) have "(m, cs, r) \<in> set (rx_run x [])" by simp
  ultimately show ?case unfolding rx_run_iff by auto
next
  case (Cons c s)
  show ?case
  proof (cases "rx_run x (c # s)")
    case Nil
    with Cons obtain p m cs r where "s = p @ m @ r" "ms = m # cs" "rx_lang x m cs" by auto
    then have "c # s = (c # p) @ m @ r" by simp
    with \<open>ms = m # cs\<close> \<open>rx_lang x m cs\<close> show ?thesis by blast
  next
    case (Cons y ys)
    obtain m cs r where y: "y = (m, cs, r)" by (cases y)
    with Cons have "(m, cs, r) \<in> set (rx_run x (c # s))" by simp
    moreover have "ms = m # cs" using Cons y \<open>find_submatch x (c # s) = Some ms\<close> by simp
    ultimately have "c # s = [] @ m @ r" "ms = m # cs" "rx_lang x m cs" unfolding rx_run_iff by auto
    then show ?thesis by blast
  qed
qed

section \<open>Classes\<close>

definition rx_digit :: "char \<Rightarrow> bool" where
  "rx_digit c \<longleftrightarrow> is_digit c"

definition rx_word :: "char \<Rightarrow> bool" where
  "rx_word c \<longleftrightarrow> (let n = of_char c :: nat in
     48 \<le> n \<and> n \<le> 57 \<or> 97 \<le> n \<and> n \<le> 122 \<or> 65 \<le> n \<and> n \<le> 90 \<or> n = 95)"

definition rx_space :: "char \<Rightarrow> bool" where
  "rx_space c \<longleftrightarrow> c \<in> {CHR 0x09, CHR 0x0A, CHR 0x0C, CHR 0x0D, CHR '' ''}"

abbreviation some_of :: "(char \<Rightarrow> bool) \<Rightarrow> rx" where
  "some_of P \<equiv> Cat (Cls P) (Star P)"

text \<open>\<open>.\<close> is any character but a newline; \<open>[^\s]\<close> one that is no white space.\<close>

definition rx_dot :: "char \<Rightarrow> bool" where
  "rx_dot c \<longleftrightarrow> c \<noteq> CHR 0x0A"

definition rx_nonspace :: "char \<Rightarrow> bool" where
  "rx_nonspace c \<longleftrightarrow> \<not> rx_space c"

end
