(* ===== verification/Yaml_Errors.thy ===== *)
theory Yaml_Errors
  imports Go_Regexp
begin

text \<open>
  \<open>improveYAMLErrorMessage\<close> of \<open>internal/broker/config.go\<close>: the texts that replace the errors of
  the YAML decoder, with the line and the types its regular expressions find in the message.
\<close>

section \<open>The decoder's errors\<close>

text \<open>
  An error of the decoder is its message, and whether \<open>errors.As\<close> finds a
  \<open>yaml.UnknownFieldError\<close> in it.
\<close>

record yaml_error =
  ye_unknown_field :: bool
  ye_text :: string

definition line_feed :: string where
  "line_feed = [CHR 0x0A]"

definition text_lines :: "string list \<Rightarrow> string" where
  "text_lines ls = join line_feed ls"

definition unknown_field_text :: "string \<Rightarrow> string" where
  "unknown_field_text errMsg = text_lines
     [''YAML configuration error: '' @ errMsg,
      '''',
      ''This field is not recognized. Common causes:'',
      ''  - Incorrect indentation (e.g. a field nested inside 'match' that belongs on the role-binding level)'',
      ''  - Typo in the field name'',
      ''  - Using camelCase instead of snake_case (e.g. 'tokenMaxExpiration' should be 'token_max_expiration')'',
      ''Check the indentation and field names in ALL your config files.'']"

section \<open>Explanations\<close>

definition where_text :: "string \<Rightarrow> string" where
  "where_text lineNum = ''The merged configuration shows this at line '' @ lineNum
     @ '', but it might be in any of your config files.''"

definition object_for_array :: "string \<Rightarrow> string \<Rightarrow> string" where
  "object_for_array lineNum fieldType = text_lines
     [''In your YAML configuration: Found a single object where an array was expected.'',
      where_text lineNum,
      ''Field type: '' @ fieldType,
      ''Check ALL your config files for this pattern:'',
      ''  field: { key: value }'',
      ''And replace with:'',
      ''  field:'',
      ''  - { key: value }'',
      ''Note the dash (-) which indicates an array element.'']"

definition array_for_object :: "string \<Rightarrow> string \<Rightarrow> string" where
  "array_for_object lineNum fieldType = text_lines
     [''In your YAML configuration: Found an array where a single object was expected.'',
      where_text lineNum,
      ''Field type: '' @ fieldType,
      ''Check ALL your config files for this pattern:'',
      ''  field:'',
      ''  - key: value'',
      ''And replace with:'',
      ''  field:'',
      ''    key: value'',
      ''Remove the dash (-) since this isn't an array.'']"

definition type_mismatch :: "string \<Rightarrow> string \<Rightarrow> string \<Rightarrow> string" where
  "type_mismatch lineNum actualType expectedType = text_lines
     [''In your YAML configuration: Type mismatch - found '' @ [CHR 0x27] @ actualType @ [CHR 0x27]
        @ '' but expected '' @ [CHR 0x27] @ expectedType @ [CHR 0x27] @ ''.'',
      where_text lineNum,
      ''Check the YAML structure in all your configuration files.'']"

definition explained :: "string \<Rightarrow> string \<Rightarrow> string" where
  "explained typeExplanation errMsg = text_lines
     [''YAML configuration error: '' @ typeExplanation, '''', ''Original error: '' @ errMsg]"

definition general_text :: "string \<Rightarrow> string" where
  "general_text errMsg = text_lines
     [''error in YAML configuration. Please check your YAML syntax and field types.'',
      ''Original error: '' @ errMsg]"

section \<open>The regular expressions\<close>

text \<open>\<open>line (\d+):\<close>, \<open>into \[\]([^\s]+)\<close> and \<open>line (\d+):.*unmarshal !!(\w+) into \[?]?([^\s]+)\<close>.\<close>

definition line_rx :: rx where
  "line_rx = Cat (Lit ''line '') (Cat (Cap (some_of rx_digit)) (Lit '':''))"

definition into_array_rx :: rx where
  "into_array_rx = Cat (Lit ''into []'') (Cap (some_of rx_nonspace))"

definition expected_rx :: rx where
  "expected_rx = Cat (Opt (Lit ''['')) (Cat (Opt (Lit '']'')) (Cap (some_of rx_nonspace)))"

definition mismatch_rx :: rx where
  "mismatch_rx =
     Cat (Lit ''line '') (Cat (Cap (some_of rx_digit)) (Cat (Lit '':'') (Cat (Star rx_dot)
       (Cat (Lit ''unmarshal !!'') (Cat (Cap (some_of rx_word)) (Cat (Lit '' into '') expected_rx))))))"

text \<open>The first group of a match, with the text used when there is none.\<close>

definition group_or :: "rx \<Rightarrow> string \<Rightarrow> string \<Rightarrow> string" where
  "group_or x errMsg deflt =
     (case find_submatch x errMsg of
        Some groups \<Rightarrow> if length groups \<ge> 2 then groups ! 1 else deflt
      | None \<Rightarrow> deflt)"

section \<open>improveYAMLErrorMessage\<close>

definition map_into_array_text :: "string \<Rightarrow> string" where
  "map_into_array_text errMsg =
     (let lineNum = group_or line_rx errMsg ''unknown'';
          typeStr = group_or into_array_rx errMsg ''array''
      in object_for_array lineNum (''[]'' @ typeStr))"

definition mismatch_text :: "string list \<Rightarrow> string" where
  "mismatch_text lineMatch =
     (let lineNum = lineMatch ! 1; actualType = lineMatch ! 2; expectedType = lineMatch ! 3 in
      if actualType = ''map'' \<and> has_prefix expectedType ''[]'' then object_for_array lineNum expectedType
      else if actualType = ''seq'' \<and> \<not> has_prefix expectedType ''[]'' then array_for_object lineNum expectedType
      else type_mismatch lineNum actualType expectedType)"

definition improveYAMLErrorMessage :: "yaml_error \<Rightarrow> go_error" where
  "improveYAMLErrorMessage err =
     (let errMsg = ye_text err in
      if ye_unknown_field err then ConfigError (unknown_field_text errMsg)
      else if \<not> contains_sub errMsg ''unmarshal'' then ExtErr errMsg
      else if contains_sub errMsg ''cannot unmarshal !!map into []''
        then ConfigError (explained (map_into_array_text errMsg) errMsg)
      else
        (case find_submatch mismatch_rx errMsg of
           None \<Rightarrow> ConfigError (general_text errMsg)
         | Some lineMatch \<Rightarrow>
             if length lineMatch \<ge> 4 then ConfigError (explained (mismatch_text lineMatch) errMsg)
             else ConfigError (general_text errMsg)))"

section \<open>Lemmas: groups and first matches\<close>

fun caps :: "rx \<Rightarrow> nat" where
  "caps (Cat a b) = caps a + caps b"
| "caps (Cap a) = Suc (caps a)"
| "caps x = 0"

text \<open>The number of groups is that of the expression where no alternative and no option holds one.\<close>

fun plain_groups :: "rx \<Rightarrow> bool" where
  "plain_groups (Cat a b) \<longleftrightarrow> plain_groups a \<and> plain_groups b"
| "plain_groups (Cap a) \<longleftrightarrow> plain_groups a"
| "plain_groups (Alt a b) \<longleftrightarrow> caps a = 0 \<and> caps b = 0 \<and> plain_groups a \<and> plain_groups b"
| "plain_groups (Opt a) \<longleftrightarrow> caps a = 0 \<and> plain_groups a"
| "plain_groups x \<longleftrightarrow> True"

lemma length_groups: "rx_lang x m cs \<Longrightarrow> plain_groups x \<Longrightarrow> length cs = caps x"
  by (induction x arbitrary: m cs) fastforce+

lemma rx_run_Cat_first:
  assumes "rx_run (Cat a b) s = y # ys"
  shows "\<exists>m cs r m' cs' r' zs. (m, cs, r) \<in> set (rx_run a s) \<and> rx_run b r = (m', cs', r') # zs
           \<and> y = (m @ m', cs @ cs', r')"
proof -
  have "concat (map (\<lambda>(m, cs, r). map (\<lambda>(m', cs', r'). (m @ m', cs @ cs', r')) (rx_run b r)) xs) = y # ys \<Longrightarrow>
    \<exists>m cs r m' cs' r' zs. (m, cs, r) \<in> set xs \<and> rx_run b r = (m', cs', r') # zs \<and> y = (m @ m', cs @ cs', r')" for xs
  proof (induction xs)
    case (Cons x xs)
    note prems = Cons.prems and IH = Cons.IH
    obtain m cs r where x: "x = (m, cs, r)" by (cases x)
    show ?case
    proof (cases "rx_run b r")
      case Nil
      with prems x have "concat (map (\<lambda>(m, cs, r). map (\<lambda>(m', cs', r'). (m @ m', cs @ cs', r')) (rx_run b r)) xs) = y # ys"
        by simp
      from IH [OF this] show ?thesis by (metis list.set_intros(2))
    next
      case (Cons z zs)
      obtain m' cs' r' where z: "z = (m', cs', r')" by (cases z)
      have "(m, cs, r) \<in> set (x # xs)" "rx_run b r = (m', cs', r') # zs" "y = (m @ m', cs @ cs', r')"
        using prems Cons x z by simp_all
      then show ?thesis by blast
    qed
  qed simp
  from this [of "rx_run a s"] assms show ?thesis by simp
qed

lemma find_submatch_run:
  "find_submatch x s = Some ms \<Longrightarrow> \<exists>p s' m cs r ys. s = p @ s' \<and> rx_run x s' = (m, cs, r) # ys \<and> ms = m # cs"
proof (induction s)
  case Nil
  then show ?case by (auto split: list.splits)
next
  case (Cons c s)
  note IH = Cons.IH and found = Cons.prems
  show ?case
  proof (cases "rx_run x (c # s)")
    case Nil
    with found IH obtain p s' m cs r ys where "s = p @ s'" "rx_run x s' = (m, cs, r) # ys" "ms = m # cs" by auto
    moreover from this(1) have "c # s = (c # p) @ s'" by simp
    ultimately show ?thesis by blast
  next
    case (Cons y ys)
    obtain m cs r where y: "y = (m, cs, r)" by (cases y)
    with Cons found have "c # s = [] @ (c # s)" "rx_run x (c # s) = (m, cs, r) # ys" "ms = m # cs" by simp_all
    then show ?thesis by blast
  qed
qed

lemma first_CatE:
  assumes "rx_run (Cat a b) s = (M, C, R) # ys"
  obtains m cs r m' cs' zs where "s = m @ r" "rx_lang a m cs" "rx_run b r = (m', cs', R) # zs" "M = m @ m'" "C = cs @ cs'"
proof -
  from rx_run_Cat_first [OF assms] obtain m cs r m' cs' zs where
    "(m, cs, r) \<in> set (rx_run a s)" "rx_run b r = (m', cs', R) # zs" "M = m @ m'" "C = cs @ cs'" by auto
  with that show ?thesis unfolding rx_run_iff by blast
qed

text \<open>An array marker is taken by the options, so it does not show in the expected type.\<close>

lemma rx_run_Cat_Opt: "rx_run (Cat (Opt a) b) s = rx_run (Cat a b) s @ rx_run b s"
  by simp

lemma rx_run_Cat_Lit:
  "rx_run (Cat (Lit l) b) (l @ s) = map (\<lambda>(m, cs, r). (l @ m, cs, r)) (rx_run b s)"
  by simp

definition bracketed_rx :: rx where
  "bracketed_rx = Cat (Opt (Lit '']'')) (Cap (some_of rx_nonspace))"

lemma bracketed_lang: "rx_lang bracketed_rx m cs \<Longrightarrow> \<exists>k. cs = [k] \<and> length k \<le> length m"
  unfolding bracketed_rx_def by (auto simp: rx_lang_some)

lemma bracketed_bracket: "rx_run bracketed_rx (CHR '']'' # v) \<noteq> []"
proof -
  have "rx_nonspace CHR '']''" by code_simp
  then have "rx_lang (some_of rx_nonspace) '']'' []" unfolding rx_lang_some by simp
  then have "rx_lang bracketed_rx '']'' ['']'']"
    unfolding bracketed_rx_def rx_lang.simps(5,8) rx_lang.simps(6) [of "Opt (Lit '']'')"]
    by (metis append_Nil)
  then have "('']'', ['']''], v) \<in> set (rx_run bracketed_rx ('']'' @ v))" unfolding rx_run_iff by simp
  then show ?thesis by auto
qed

lemma marker_is_taken:
  assumes "rx_run expected_rx (CHR ''['' # CHR '']'' # v) = (m, cs, r) # ys"
  shows "cs \<noteq> [m]"
proof -
  have run: "rx_run expected_rx (''['' @ CHR '']'' # v) =
      map (\<lambda>(m, cs, r). (''['' @ m, cs, r)) (rx_run bracketed_rx (CHR '']'' # v)) @ rx_run bracketed_rx (''['' @ CHR '']'' # v)"
    unfolding expected_rx_def bracketed_rx_def [symmetric] rx_run_Cat_Opt rx_run_Cat_Lit ..
  obtain n ds t zs where hd: "rx_run bracketed_rx (CHR '']'' # v) = (n, ds, t) # zs"
    using bracketed_bracket by (metis neq_Nil_conv prod_cases3)
  then have "(n, ds, t) \<in> set (rx_run bracketed_rx (CHR '']'' # v))" by simp
  then have "\<exists>k. ds = [k] \<and> length k \<le> length n" unfolding rx_run_iff using bracketed_lang by blast
  moreover have "m = CHR ''['' # n" "cs = ds" using assms run hd by simp_all
  ultimately show ?thesis by auto
qed

lemma expected_first:
  assumes "rx_run expected_rx s = (m, cs, r) # ys"
  shows "\<exists>b t. m = b @ t \<and> cs = [t] \<and> b \<in> {'''', ''['', '']'', ''[]''} \<and> s = b @ t @ r
           \<and> (has_prefix t ''[]'' \<longrightarrow> b \<noteq> [])"
proof -
  have "(m, cs, r) \<in> set (rx_run expected_rx s)" using assms by simp
  then have s: "s = m @ r" and "rx_lang expected_rx m cs" unfolding rx_run_iff by auto
  then obtain b t where b: "m = b @ t" "cs = [t]" "b \<in> {'''', ''['', '']'', ''[]''}"
    unfolding expected_rx_def by (fastforce simp: rx_lang_some)
  have "b \<noteq> []" if "has_prefix t ''[]''"
  proof
    assume "b = []"
    with that b s obtain v where "s = CHR ''['' # CHR '']'' # v" by (auto simp: has_prefix_iff)
    from marker_is_taken [of v m cs r ys] assms [unfolded this] b \<open>b = []\<close> show False by simp
  qed
  with b s show ?thesis by (intro exI [of _ b] exI [of _ t]) simp
qed

lemma mismatch_first:
  assumes "rx_run mismatch_rx s = (m, cs, r) # ys"
  shows "\<exists>n q a b t. s = ''line '' @ n @ '':'' @ q @ ''unmarshal !!'' @ a @ '' into '' @ b @ t @ r
           \<and> cs = [n, a, t] \<and> n \<noteq> [] \<and> list_all rx_digit n \<and> (has_prefix t ''[]'' \<longrightarrow> b \<noteq> [])"
proof -
  from assms obtain m1 c1 r1 m2 c2 z2 where
    1: "s = m1 @ r1" "rx_lang (Lit ''line '') m1 c1" "cs = c1 @ c2" and
    g2: "rx_run (Cat (Cap (some_of rx_digit)) (Cat (Lit '':'') (Cat (Star rx_dot)
       (Cat (Lit ''unmarshal !!'') (Cat (Cap (some_of rx_word)) (Cat (Lit '' into '') expected_rx)))))) r1 = (m2, c2, r) # z2"
    unfolding mismatch_rx_def by (rule first_CatE)
  from g2 obtain n c3 r3 m4 c4 z4 where
    3: "r1 = n @ r3" "rx_lang (Cap (some_of rx_digit)) n c3" "c2 = c3 @ c4" and
    g4: "rx_run (Cat (Lit '':'') (Cat (Star rx_dot)
       (Cat (Lit ''unmarshal !!'') (Cat (Cap (some_of rx_word)) (Cat (Lit '' into '') expected_rx))))) r3 = (m4, c4, r) # z4"
    by (rule first_CatE)
  from g4 obtain m5 c5 r5 m6 c6 z6 where
    5: "r3 = m5 @ r5" "rx_lang (Lit '':'') m5 c5" "c4 = c5 @ c6" and
    g6: "rx_run (Cat (Star rx_dot)
       (Cat (Lit ''unmarshal !!'') (Cat (Cap (some_of rx_word)) (Cat (Lit '' into '') expected_rx)))) r5 = (m6, c6, r) # z6"
    by (rule first_CatE)
  from g6 obtain q c7 r7 m8 c8 z8 where
    7: "r5 = q @ r7" "rx_lang (Star rx_dot) q c7" "c6 = c7 @ c8" and
    g8: "rx_run (Cat (Lit ''unmarshal !!'') (Cat (Cap (some_of rx_word)) (Cat (Lit '' into '') expected_rx))) r7 = (m8, c8, r) # z8"
    by (rule first_CatE)
  from g8 obtain m9 c9 r9 m10 c10 z10 where
    9: "r7 = m9 @ r9" "rx_lang (Lit ''unmarshal !!'') m9 c9" "c8 = c9 @ c10" and
    g10: "rx_run (Cat (Cap (some_of rx_word)) (Cat (Lit '' into '') expected_rx)) r9 = (m10, c10, r) # z10"
    by (rule first_CatE)
  from g10 obtain a c11 r11 m12 c12 z12 where
    11: "r9 = a @ r11" "rx_lang (Cap (some_of rx_word)) a c11" "c10 = c11 @ c12" and
    g12: "rx_run (Cat (Lit '' into '') expected_rx) r11 = (m12, c12, r) # z12"
    by (rule first_CatE)
  from g12 obtain m13 c13 r13 m14 c14 z14 where
    13: "r11 = m13 @ r13" "rx_lang (Lit '' into '') m13 c13" "c12 = c13 @ c14" and
    g14: "rx_run expected_rx r13 = (m14, c14, r) # z14"
    by (rule first_CatE)
  from expected_first [OF g14] obtain b t where
    15: "c14 = [t]" "r13 = b @ t @ r" "has_prefix t ''[]'' \<longrightarrow> b \<noteq> []" by blast
  have n: "c3 = [n]" "n \<noteq> []" "list_all rx_digit n"
    using 3(2) unfolding rx_lang.simps(8) rx_lang_some by (cases n; auto)+
  have a: "c11 = [a]" using 11(2) unfolding rx_lang.simps(8) rx_lang_some by auto
  have lits: "m1 = ''line ''" "c1 = []" "m5 = '':''" "c5 = []" "c7 = []" "m9 = ''unmarshal !!''" "c9 = []"
    "m13 = '' into ''" "c13 = []"
    using 1(2) 5(2) 7(2) 9(2) 13(2) unfolding rx_lang.simps(1,3) by blast+
  have "s = ''line '' @ n @ '':'' @ q @ ''unmarshal !!'' @ a @ '' into '' @ b @ t @ r"
    unfolding 1(1) 3(1) 5(1) 7(1) 9(1) 11(1) 13(1) 15(2) lits ..
  moreover have "cs = [n, a, t]"
    unfolding 1(3) 3(3) 5(3) 7(3) 9(3) 11(3) 13(3) 15(1) lits n(1) a by simp
  ultimately show ?thesis using n 15(3) by blast
qed

section \<open>What the messages say\<close>

lemma contains_sub_append: "contains_sub x s \<or> contains_sub y s \<Longrightarrow> contains_sub (x @ y) s"
  unfolding contains_sub_iff by (metis append.assoc)

lemma contains_sub_refl: "contains_sub s s"
  using contains_sub_middle [of "[]" s "[]"] by simp

lemma contains_sub_join: "w \<in> set ws \<Longrightarrow> contains_sub w s \<Longrightarrow> contains_sub (join sep ws) s"
proof (induction ws)
  case (Cons v ws)
  then show ?case by (cases "ws = []") (auto simp: join_Cons intro: contains_sub_append)
qed simp

lemma contains_text_lines: "w @ s \<in> set ls \<Longrightarrow> contains_sub (text_lines ls) s"
  unfolding text_lines_def by (erule contains_sub_join) (simp add: contains_sub_append contains_sub_refl)

lemma explained_contains: "contains_sub (explained e s) s"
  unfolding explained_def by (rule contains_text_lines [of "''Original error: ''"]) simp

lemma general_contains: "contains_sub (general_text s) s"
  unfolding general_text_def by (rule contains_text_lines [of "''Original error: ''"]) simp

lemma unknown_contains: "contains_sub (unknown_field_text s) s"
  unfolding unknown_field_text_def by (rule contains_text_lines [of "''YAML configuration error: ''"]) simp

text \<open>
  The rewriting never loses the decoder's message: the error is either the decoder's
  own, and then it is neither about an unknown field nor about unmarshalling, or its text contains
  the original text as a whole.
\<close>

lemma yaml_errors_keep_their_text:
  "case improveYAMLErrorMessage err of
     ExtErr t \<Rightarrow> t = ye_text err \<and> \<not> ye_unknown_field err \<and> \<not> contains_sub (ye_text err) ''unmarshal''
   | ConfigError t \<Rightarrow> contains_sub t (ye_text err) \<and> (ye_unknown_field err \<or> contains_sub (ye_text err) ''unmarshal'')
   | _ \<Rightarrow> False"
  by (simp add: improveYAMLErrorMessage_def Let_def explained_contains general_contains unknown_contains split: option.split)

lemma mismatch_says_unmarshal:
  assumes "s = p @ ''line '' @ n @ '':'' @ q @ ''unmarshal !!'' @ r"
  shows "contains_sub s ''unmarshal''"
proof -
  from assms have "s = (p @ ''line '' @ n @ '':'' @ q) @ ''unmarshal'' @ ('' !!'' @ r)" by simp
  then show ?thesis by (simp only: contains_sub_middle)
qed


definition sample_yaml_error :: yaml_error where
  "sample_yaml_error = \<lparr>ye_unknown_field = False, ye_text = ''line 7: cannot unmarshal !!seq into []string''\<rparr>"

lemma sample_groups:
  "find_submatch mismatch_rx (ye_text sample_yaml_error) =
     Some [''line 7: cannot unmarshal !!seq into []string'', ''7'', ''seq'', ''string'']"
  by code_simp

lemma sample_improved:
  "improveYAMLErrorMessage sample_yaml_error = ConfigError (explained (array_for_object ''7'' ''string'') (ye_text sample_yaml_error))"
  by code_simp


end
