(* ===== verification/Config_Merge.thy ===== *)
theory Config_Merge
  imports Broker_Config Go_Paths Yaml_Errors
begin

text \<open>
  Merging the YAML files, \<open>internal/broker/config.go\<close>: \<open>deepMerge\<close> and
  \<open>mergeConfigurationFiles\<close>. A decoded YAML document is a Go map, \<open>None\<close> where the map is
  nil (an empty document); decoding and encoding YAML are the environment's.
\<close>

section \<open>deepMerge\<close>

text \<open>
  \<open>merge_value\<close> is what replaces an entry present in both maps. The loop over the overlay writes
  into a copy of the base.
\<close>

fun merge_value :: "go_value \<Rightarrow> go_value \<Rightarrow> go_value"
  and merge_into :: "go_map \<Rightarrow> go_map \<Rightarrow> go_map" where
  "merge_value (GMap baseMap) (GMap overlayMap) = GMap (merge_into (overlay [] baseMap) overlayMap)"
| "merge_value (GArr baseArr) (GArr overlayArr) = GArr (baseArr @ overlayArr)"
| "merge_value b v = v"
| "merge_into result [] = result"
| "merge_into result ((k, v) # rest) =
     merge_into (mput k (case mget result k of None \<Rightarrow> v | Some b \<Rightarrow> merge_value b v) result) rest"

definition deepMerge :: "go_map \<Rightarrow> go_map \<Rightarrow> go_map" where
  "deepMerge base other = merge_into (overlay [] base) other"

section \<open>mergeConfigurationFiles\<close>

record yaml_codec =
  yc_map :: "string \<Rightarrow> yaml_error + go_map option"
  yc_marshal :: "go_map option \<Rightarrow> string result"

definition merge_maps :: "go_map option \<Rightarrow> go_map option \<Rightarrow> go_map option" where
  "merge_maps merged nxt =
     (case merged of
        None \<Rightarrow> nxt
      | Some m \<Rightarrow> Some (deepMerge m (case nxt of None \<Rightarrow> [] | Some n \<Rightarrow> n)))"

definition merge_file ::
  "yaml_codec \<Rightarrow> file_system \<Rightarrow> string \<Rightarrow> go_map option \<Rightarrow> go_map option result" where
  "merge_file yc fs filePath merged =
     (case fs_read fs filePath of
        Inl e \<Rightarrow> Err (Wrapped ''error reading file content'' e)
      | Inr raw \<Rightarrow>
          (case yc_map yc raw of
             Inl e \<Rightarrow> Err (Wrapped (''error in file '' @ filePath) (improveYAMLErrorMessage e))
           | Inr nextMapToMerge \<Rightarrow> Ok (merge_maps merged nextMapToMerge)))"

definition merge_pattern ::
  "yaml_codec \<Rightarrow> file_system \<Rightarrow> string \<Rightarrow> go_map option \<Rightarrow> go_map option result" where
  "merge_pattern yc fs pattern merged =
     (case expand_pattern fs pattern of
        Inl e \<Rightarrow> Err e
      | Inr paths \<Rightarrow> fold_result (merge_file yc fs) paths merged)"

definition mergeConfigurationFiles :: "yaml_codec \<Rightarrow> file_system \<Rightarrow> string list \<Rightarrow> string result" where
  "mergeConfigurationFiles yc fs files =
     (case fold_result (merge_pattern yc fs) files None of
        Inl e \<Rightarrow> Err e
      | Inr mergedMap \<Rightarrow>
          (case yc_marshal yc mergedMap of
             Inl e \<Rightarrow> Err (Wrapped ''error marshalling merged config to YAML'' e)
           | Inr text \<Rightarrow> Ok text))"

section \<open>Lemmas: one level\<close>

text \<open>Every map inside the value has distinct keys, as the maps of Go have.\<close>

fun deep_wf :: "go_value \<Rightarrow> bool" where
  "deep_wf (GMap m) = (wf_map m \<and> (\<forall>(k, v)\<in>set m. deep_wf v))"
| "deep_wf (GArr vs) = (\<forall>v\<in>set vs. deep_wf v)"
| "deep_wf v = True"

lemma update_fresh: "k \<notin> fst ` set m \<Longrightarrow> AList.update k v m = m @ [(k, v)]"
  by (induction m) auto

lemma overlay_Nil_id: "wf_map m \<Longrightarrow> overlay [] m = m"
proof (induction m rule: rev_induct)
  case (snoc kv m)
  obtain k v where kv: "kv = (k, v)" by (cases kv)
  from snoc.prems have "wf_map m" "k \<notin> fst ` set m" by (auto simp: wf_map_def kv)
  with snoc.IH have "overlay [] (m @ [kv]) = mput k v m" by (simp add: overlay_def kv)
  with \<open>k \<notin> fst ` set m\<close> show ?case by (simp add: mput_def kv update_fresh)
qed (simp add: overlay_def)

lemma wf_merge_into: "wf_map r \<Longrightarrow> wf_map (merge_into r m)"
  by (induction m arbitrary: r) auto

lemma wf_deepMerge [simp]: "wf_map (deepMerge b m)"
  by (simp add: deepMerge_def wf_merge_into)

lemma mget_Cons: "mget ((k, v) # m) x = (if x = k then Some v else mget m x)"
  by (simp add: mget_def)

lemma mget_merge_into:
  "wf_map m \<Longrightarrow>
   mget (merge_into r m) x =
     (case mget m x of
        None \<Rightarrow> mget r x
      | Some v \<Rightarrow> Some (case mget r x of None \<Rightarrow> v | Some b \<Rightarrow> merge_value b v))"
proof (induction m arbitrary: r)
  case (Cons kv m)
  obtain k v where kv: "kv = (k, v)" by (cases kv)
  from Cons.prems kv have wf: "wf_map m" and k: "mget m k = None"
    by (auto simp: wf_map_def mget_eq_None_iff)
  let ?w = "case mget r k of None \<Rightarrow> v | Some b \<Rightarrow> merge_value b v"
  show ?case
  proof (cases "x = k")
    case True
    then show ?thesis using Cons.IH [OF wf, of "mput k ?w r"] k by (simp add: kv mget_Cons)
  next
    case False
    then have "mget (mput k ?w r) x = mget r x" by simp
    then show ?thesis using Cons.IH [OF wf, of "mput k ?w r"] False
      by (cases "mget m x") (simp_all add: kv mget_Cons)
  qed
qed simp

lemma merge_into_append: "merge_into r (xs @ ys) = merge_into (merge_into r xs) ys"
  by (induction xs arbitrary: r) auto

lemma merge_into_Nil_id: "wf_map m \<Longrightarrow> merge_into [] m = m"
proof (induction m rule: rev_induct)
  case (snoc kv m)
  obtain k v where kv: "kv = (k, v)" by (cases kv)
  from snoc.prems have wf: "wf_map m" and k: "k \<notin> fst ` set m" by (auto simp: wf_map_def kv)
  from k have "mget m k = None" by (simp add: mget_eq_None_iff)
  with snoc.IH [OF wf] k show ?case by (simp add: merge_into_append kv mput_def update_fresh)
qed simp

text \<open>The law of one level, entry by entry.\<close>

lemma mget_deepMerge:
  assumes "wf_map b" and "wf_map m"
  shows "mget (deepMerge b m) x =
    (case (mget b x, mget m x) of
       (l, None) \<Rightarrow> l
     | (None, Some v) \<Rightarrow> Some v
     | (Some u, Some v) \<Rightarrow> Some (merge_value u v))"
  using assms by (simp add: deepMerge_def mget_merge_into overlay_Nil_id split: option.split)

lemma merge_value_maps: "merge_value (GMap b) (GMap m) = GMap (deepMerge b m)"
  by (simp add: deepMerge_def)

lemma merge_value_other: "\<forall>m. v \<noteq> GMap m \<Longrightarrow> \<forall>vs. v \<noteq> GArr vs \<Longrightarrow> merge_value u v = v"
  by (cases u; cases v) auto

lemmas merge_value_simps = merge_value_maps merge_value_other

declare merge_value.simps [simp del]

section \<open>Paths\<close>

text \<open>The value at the end of a path of keys.\<close>

fun at_path :: "string list \<Rightarrow> go_value \<Rightarrow> go_value option" where
  "at_path [] v = Some v"
| "at_path (k # ks) (GMap m) = Option.bind (mget m k) (at_path ks)"
| "at_path (k # ks) v = None"

text \<open>
  The document does not touch a path: going down it, a key is missing before a value that is not a
  map is met.
\<close>

fun untouched :: "string list \<Rightarrow> go_value \<Rightarrow> bool" where
  "untouched [] v = False"
| "untouched (k # ks) (GMap m) = (case mget m k of None \<Rightarrow> True | Some v \<Rightarrow> untouched ks v)"
| "untouched (k # ks) v = False"

definition is_leaf :: "go_value \<Rightarrow> bool" where
  "is_leaf v \<longleftrightarrow> (\<forall>m. v \<noteq> GMap m) \<and> (\<forall>vs. v \<noteq> GArr vs)"

lemma deep_wf_mget: "deep_wf (GMap m) \<Longrightarrow> mget m k = Some v \<Longrightarrow> deep_wf v"
  by (auto simp: mget_def dest!: map_of_SomeD)

lemma deep_wf_wf: "deep_wf (GMap m) \<Longrightarrow> wf_map m"
  by simp

lemma mget_merge:
  "deep_wf (GMap b) \<Longrightarrow> deep_wf (GMap m) \<Longrightarrow>
   mget (deepMerge b m) x =
    (case (mget b x, mget m x) of
       (l, None) \<Rightarrow> l
     | (None, Some v) \<Rightarrow> Some v
     | (Some u, Some v) \<Rightarrow> Some (merge_value u v))"
  by (rule mget_deepMerge) simp_all

lemma at_path_leaf_wins:
  "deep_wf u \<Longrightarrow> deep_wf v \<Longrightarrow> at_path p v = Some x \<Longrightarrow> is_leaf x \<Longrightarrow> at_path p (merge_value u v) = Some x"
proof (induction p v arbitrary: u rule: at_path.induct)
  case (1 v)
  then show ?case by (simp add: is_leaf_def merge_value_other)
next
  case (2 k ks m)
  then obtain w where w: "mget m k = Some w" "at_path ks w = Some x" by (auto simp: Option.bind_eq_Some_conv)
  show ?case
  proof (cases "\<exists>b. u = GMap b")
    case True
    then obtain b where u: "u = GMap b" by blast
    show ?thesis
    proof (cases "mget b k")
      case None
      with 2 w u show ?thesis by (simp add: merge_value_maps mget_merge del: deep_wf.simps)
    next
      case (Some y)
      then have "deep_wf y" using 2 u deep_wf_mget by blast
      moreover have "deep_wf w" using 2 w deep_wf_mget by blast
      ultimately have "at_path ks (merge_value y w) = Some x" using 2 w by blast
      with Some 2 w u show ?thesis by (simp add: merge_value_maps mget_merge del: deep_wf.simps)
    qed
  next
    case False
    then have "merge_value u (GMap m) = GMap m" by (cases u) (simp_all add: merge_value.simps)
    with 2 show ?thesis by simp
  qed
qed simp_all

lemma at_path_arrays:
  "deep_wf u \<Longrightarrow> deep_wf v \<Longrightarrow> at_path p u = Some (GArr xs) \<Longrightarrow> at_path p v = Some (GArr ys) \<Longrightarrow>
   at_path p (merge_value u v) = Some (GArr (xs @ ys))"
proof (induction p v arbitrary: u rule: at_path.induct)
  case (1 v)
  then show ?case by (simp add: merge_value.simps)
next
  case (2 k ks m)
  then obtain b where u: "u = GMap b" by (cases u) auto
  with 2 obtain y w where y: "mget b k = Some y" "at_path ks y = Some (GArr xs)"
    and w: "mget m k = Some w" "at_path ks w = Some (GArr ys)"
    by (auto simp: Option.bind_eq_Some_conv)
  have "deep_wf y" "deep_wf w" using 2 u y w deep_wf_mget by blast+
  then have "at_path ks (merge_value y w) = Some (GArr (xs @ ys))" using 2 y w by blast
  with 2 y w u show ?case by (simp add: merge_value_maps mget_merge del: deep_wf.simps)
qed simp_all

lemma at_path_kept:
  "deep_wf u \<Longrightarrow> deep_wf v \<Longrightarrow> at_path p u = Some x \<Longrightarrow> untouched p v \<Longrightarrow> at_path p (merge_value u v) = Some x"
proof (induction p v arbitrary: u rule: untouched.induct)
  case (2 k ks m)
  then obtain b where u: "u = GMap b" by (cases u) auto
  with 2 obtain y where y: "mget b k = Some y" "at_path ks y = Some x"
    by (auto simp: Option.bind_eq_Some_conv)
  show ?case
  proof (cases "mget m k")
    case None
    with 2 u y show ?thesis by (simp add: merge_value_maps mget_merge del: deep_wf.simps)
  next
    case (Some w)
    have "deep_wf y" "deep_wf w" using 2 u y Some deep_wf_mget by blast+
    then have "at_path ks (merge_value y w) = Some x" using 2 y Some by simp
    with 2 y Some u show ?thesis by (simp add: merge_value_maps mget_merge del: deep_wf.simps)
  qed
qed simp_all

lemma deep_wf_merge: "deep_wf u \<Longrightarrow> deep_wf v \<Longrightarrow> deep_wf (merge_value u v)"
proof (induction v arbitrary: u)
  case (GMap m)
  show ?case
  proof (cases "\<exists>b. u = GMap b")
    case True
    then obtain b where u: "u = GMap b" by blast
    have "deep_wf w" if "(k, w) \<in> set (deepMerge b m)" for k w
    proof -
      from that have g: "mget (deepMerge b m) k = Some w" by (simp add: mget_eq_Some_iff)
      show ?thesis
      proof (cases "mget m k")
        case None
        with g GMap.prems u have "mget b k = Some w"
          by (cases "mget b k") (simp_all add: mget_merge del: deep_wf.simps)
        with GMap.prems u deep_wf_mget show ?thesis by blast
      next
        case (Some y)
        then have y: "(k, y) \<in> set m" by (auto simp: mget_def dest: map_of_SomeD)
        have dy: "deep_wf y" using GMap.prems Some deep_wf_mget by blast
        show ?thesis
        proof (cases "mget b k")
          case None
          with g Some GMap.prems u dy show ?thesis by (simp add: mget_merge del: deep_wf.simps)
        next
          case (Some z)
          then have "deep_wf z" using GMap.prems u deep_wf_mget by blast
          with GMap.IH [OF y] dy have "deep_wf (merge_value z y)" by simp
          with g Some \<open>mget m k = Some y\<close> GMap.prems u show ?thesis
            by (simp add: mget_merge del: deep_wf.simps)
        qed
      qed
    qed
    then show ?thesis by (auto simp: u merge_value_maps)
  next
    case False
    with GMap.prems show ?thesis by (cases u) (simp_all add: merge_value.simps)
  qed
next
  case (GArr vs)
  then show ?case by (cases u) (auto simp: merge_value.simps)
qed (simp_all add: merge_value_other)

section \<open>The documents of a run\<close>

text \<open>The documents in the order they are merged, or the first error met on the way.\<close>

definition load_file :: "yaml_codec \<Rightarrow> file_system \<Rightarrow> string \<Rightarrow> go_map option result" where
  "load_file yc fs f =
     (case fs_read fs f of
        Inl e \<Rightarrow> Err (Wrapped ''error reading file content'' e)
      | Inr raw \<Rightarrow>
          (case yc_map yc raw of
             Inl e \<Rightarrow> Err (Wrapped (''error in file '' @ f) (improveYAMLErrorMessage e))
           | Inr d \<Rightarrow> Ok d))"

definition load_files :: "yaml_codec \<Rightarrow> file_system \<Rightarrow> string list \<Rightarrow> go_map option list \<Rightarrow> go_map option list result" where
  "load_files yc fs fsl = fold_result (\<lambda>f ds. case load_file yc fs f of Inl e \<Rightarrow> Err e | Inr d \<Rightarrow> Ok (ds @ [d])) fsl"

definition documents :: "yaml_codec \<Rightarrow> file_system \<Rightarrow> string list \<Rightarrow> go_map option list result" where
  "documents yc fs files =
     fold_result (\<lambda>p ds. case expand_pattern fs p of Inl e \<Rightarrow> Err e | Inr paths \<Rightarrow> load_files yc fs paths ds) files []"

definition merge_all :: "go_map option list \<Rightarrow> go_map option" where
  "merge_all ds = foldl merge_maps None ds"

text \<open>A simulation: the state of the merging loop is the merge of the documents loaded so far.\<close>

lemma fold_result_simulation:
  assumes "\<And>x s. g x (h s) = (case f x s of Inl e \<Rightarrow> Err e | Inr s' \<Rightarrow> Ok (h s'))"
  shows "fold_result g xs (h s) = (case fold_result f xs s of Inl e \<Rightarrow> Err e | Inr s' \<Rightarrow> Ok (h s'))"
proof (induction xs arbitrary: s)
  case (Cons x xs)
  then show ?case by (cases "f x s") (simp_all add: assms)
qed simp

lemma merge_files_documents:
  "fold_result (merge_pattern yc fs) files None =
     (case documents yc fs files of Inl e \<Rightarrow> Err e | Inr ds \<Rightarrow> Ok (merge_all ds))"
proof -
  have one: "merge_file yc fs f (merge_all ds) =
      (case (case load_file yc fs f of Inl e \<Rightarrow> Err e | Inr d \<Rightarrow> Ok (ds @ [d])) of
         Inl e \<Rightarrow> Err e | Inr ds' \<Rightarrow> Ok (merge_all ds'))" for f ds
    by (cases "fs_read fs f"; cases "yc_map yc (projr (fs_read fs f))")
      (simp_all add: merge_file_def load_file_def merge_all_def)
  have pat: "merge_pattern yc fs p (merge_all ds) =
      (case (case expand_pattern fs p of Inl e \<Rightarrow> Err e | Inr paths \<Rightarrow> load_files yc fs paths ds) of
         Inl e \<Rightarrow> Err e | Inr ds' \<Rightarrow> Ok (merge_all ds'))" for p ds
    unfolding merge_pattern_def load_files_def
    by (cases "expand_pattern fs p")
      (simp_all add: fold_result_simulation [where g = "merge_file yc fs" and h = merge_all, OF one])
  have "fold_result (merge_pattern yc fs) files (merge_all []) =
      (case documents yc fs files of Inl e \<Rightarrow> Err e | Inr ds \<Rightarrow> Ok (merge_all ds))"
    unfolding documents_def
    by (rule fold_result_simulation [where g = "merge_pattern yc fs" and h = merge_all, OF pat])
  then show ?thesis by (simp add: merge_all_def)
qed

definition doc_value :: "go_map option \<Rightarrow> go_value" where
  "doc_value d = GMap (case d of None \<Rightarrow> [] | Some m \<Rightarrow> m)"

lemma merge_maps_value:
  "deep_wf (doc_value a) \<Longrightarrow> deep_wf (doc_value b) \<Longrightarrow>
   doc_value (merge_maps a b) = merge_value (doc_value a) (doc_value b)"
  by (cases a; cases b)
    (auto simp: doc_value_def merge_maps_def merge_value_maps deepMerge_def overlay_Nil_id
      merge_into_Nil_id)

lemma merge_all_value:
  "deep_wf (doc_value a) \<Longrightarrow> \<forall>d\<in>set ds. deep_wf (doc_value d) \<Longrightarrow>
   doc_value (foldl merge_maps a ds) = foldl merge_value (doc_value a) (map doc_value ds)
   \<and> deep_wf (doc_value (foldl merge_maps a ds))"
proof (induction ds arbitrary: a)
  case (Cons d ds)
  then have "deep_wf (doc_value (merge_maps a d))"
    by (simp add: merge_maps_value deep_wf_merge)
  note ih = Cons.IH [OF this]
  have "doc_value (foldl merge_maps a (d # ds)) = foldl merge_value (doc_value (merge_maps a d)) (map doc_value ds)"
    unfolding foldl.simps using Cons.prems by (intro ih [THEN conjunct1]) simp
  moreover have "deep_wf (doc_value (foldl merge_maps a (d # ds)))"
    unfolding foldl.simps using Cons.prems by (intro ih [THEN conjunct2]) simp
  ultimately show ?case using Cons.prems by (simp add: merge_maps_value)
qed simp

lemma untouched_all:
  "deep_wf u \<Longrightarrow> \<forall>v\<in>set vs. deep_wf v \<and> untouched p v \<Longrightarrow> at_path p u = Some x \<Longrightarrow>
   at_path p (foldl merge_value u vs) = Some x"
  by (induction vs arbitrary: u) (simp_all add: deep_wf_merge at_path_kept)

section \<open>Properties\<close>

text \<open>
  Merging the files is loading their documents in command-line order (globs expanded
  in the order the file system lists them) and folding \<open>deepMerge\<close> over them from the left; the
  first file or pattern that fails decides the error, and nothing is merged then.
\<close>

lemma merge_files_is_fold_of_documents:
  "mergeConfigurationFiles yc fs files =
     (case documents yc fs files of
        Inl e \<Rightarrow> Err e
      | Inr ds \<Rightarrow>
          (case yc_marshal yc (foldl merge_maps None ds) of
             Inl e \<Rightarrow> Err (Wrapped ''error marshalling merged config to YAML'' e)
           | Inr text \<Rightarrow> Ok text))"
  unfolding mergeConfigurationFiles_def merge_files_documents merge_all_def
  by (cases "documents yc fs files") simp_all


definition base_doc :: go_map where
  "base_doc = [(''nats'', GMap [(''url'', GStr ''nats://a'')]), (''idp'', GArr [GStr ''one'']), (''v'', GInt 1)]"

definition overlay_doc :: go_map where
  "overlay_doc = [(''nats'', GMap [(''exp'', GInt 5)]), (''idp'', GArr [GStr ''two'']), (''v'', GInt 2)]"


text \<open>
  Property C28. In a whole run, the value of a setting is that of the last file that sets it: a
  scalar in one document, at a path that no later document touches, is what the merged
  configuration has there, however many files were merged before.
\<close>

theorem last_file_decides:
  assumes "documents yc fs files = Ok (before @ d # after)"
    and "\<forall>e\<in>set (before @ d # after). deep_wf (doc_value e)"
    and "at_path p (doc_value d) = Some x" and "is_leaf x"
    and "\<forall>e\<in>set after. untouched p (doc_value e)"
  shows "\<exists>m. mergeConfigurationFiles yc fs files =
      (case yc_marshal yc m of
         Inl e \<Rightarrow> Err (Wrapped ''error marshalling merged config to YAML'' e)
       | Inr text \<Rightarrow> Ok text)
    \<and> at_path p (doc_value m) = Some x"
proof (intro exI conjI)
  let ?a = "foldl merge_maps None before"
  let ?m = "foldl merge_maps None (before @ d # after)"
  show "mergeConfigurationFiles yc fs files =
      (case yc_marshal yc ?m of
         Inl e \<Rightarrow> Err (Wrapped ''error marshalling merged config to YAML'' e)
       | Inr text \<Rightarrow> Ok text)"
    using assms(1) by (simp add: mergeConfigurationFiles_def merge_files_documents merge_all_def)
  have a: "deep_wf (doc_value ?a)"
  proof (rule merge_all_value [THEN conjunct2])
    show "deep_wf (doc_value None)" by (simp add: doc_value_def)
  qed (use assms(2) in simp)
  have d: "deep_wf (doc_value d)" using assms(2) by simp
  have ad: "deep_wf (doc_value (merge_maps ?a d))"
    "at_path p (doc_value (merge_maps ?a d)) = Some x"
    using at_path_leaf_wins [OF a d assms(3,4)] a d by (simp_all add: merge_maps_value deep_wf_merge)
  have "doc_value ?m = foldl merge_value (doc_value (merge_maps ?a d)) (map doc_value after)"
    using merge_all_value [OF ad(1), of after] assms(2) by simp
  then show "at_path p (doc_value ?m) = Some x"
    using untouched_all [OF ad(1) _ ad(2), of "map doc_value after"] assms(2,5) by simp
qed

definition sample_yaml :: yaml_codec where
  "sample_yaml = \<lparr>yc_map = (\<lambda>s. if s = ''base'' then Inr (Some base_doc) else Inr (Some overlay_doc)),
     yc_marshal = (\<lambda>m. if m = None then Ok ''null'' else Ok ''merged'')\<rparr>"

definition sample_fs :: file_system where
  "sample_fs = \<lparr>fs_glob = (\<lambda>p. Ok []), fs_read = (\<lambda>f. Ok f), fs_missing = (\<lambda>f. False), fs_cwd = Ok ''/''\<rparr>"

theorem last_file_decides_witness:
  "\<exists>m. mergeConfigurationFiles sample_yaml sample_fs [''base'', ''overlay''] =
      (case yc_marshal sample_yaml m of
         Inl e \<Rightarrow> Err (Wrapped ''error marshalling merged config to YAML'' e)
       | Inr text \<Rightarrow> Ok text)
    \<and> at_path [''v''] (doc_value m) = Some (GInt 2)"
proof (rule last_file_decides)
  show "documents sample_yaml sample_fs [''base'', ''overlay''] = Ok ([Some base_doc] @ Some overlay_doc # [])"
    by (simp add: documents_def load_files_def load_file_def expand_pattern_def contains_any_def
        sample_yaml_def sample_fs_def)
  show "\<forall>e\<in>set ([Some base_doc] @ Some overlay_doc # []). deep_wf (doc_value e)"
    by code_simp
  show "at_path [''v''] (doc_value (Some overlay_doc)) = Some (GInt 2)"
    by (simp add: doc_value_def overlay_doc_def mget_def)
qed (simp_all add: is_leaf_def)

end
