(* ===== verification/Go_Encoding.thy ===== *)
theory Go_Encoding
  imports Go_Strings
begin

text \<open>
  Go's \<open>encoding/base64\<close> as the broker uses it: the padded standard encoding, and the unpadded
  URL-safe one with its decoder (which is not strict: it skips line breaks and ignores the bits
  left over in the last character).
\<close>

section \<open>Alphabets\<close>

definition std_alphabet :: string where
  "std_alphabet = ''ABCDEFGHIJKLMNOPQRSTUVWXYZabcdefghijklmnopqrstuvwxyz0123456789+/''"

definition url_alphabet :: string where
  "url_alphabet = ''ABCDEFGHIJKLMNOPQRSTUVWXYZabcdefghijklmnopqrstuvwxyz0123456789-_''"

section \<open>Encoding\<close>

text \<open>Three bytes are four 6-bit digits; a rest of one or two bytes is two or three digits.\<close>

fun b64_digits :: "nat list \<Rightarrow> nat list" where
  "b64_digits [] = []"
| "b64_digits [a] = [a div 4, a mod 4 * 16]"
| "b64_digits [a, b] = [a div 4, a mod 4 * 16 + b div 16, b mod 16 * 4]"
| "b64_digits (a # b # c # bs) =
     a div 4 # (a mod 4 * 16 + b div 16) # (b mod 16 * 4 + c div 64) # c mod 64 # b64_digits bs"

definition bytes_of :: "string \<Rightarrow> nat list" where
  "bytes_of s = map of_char s"

definition string_of :: "nat list \<Rightarrow> string" where
  "string_of bs = map char_of bs"

definition b64_padding :: "string \<Rightarrow> string" where
  "b64_padding s = (case length s mod 3 of 0 \<Rightarrow> [] | Suc 0 \<Rightarrow> ''=='' | _ \<Rightarrow> ''='')"

text \<open>\<open>base64.StdEncoding.EncodeToString\<close> and \<open>base64.RawURLEncoding.EncodeToString\<close>.\<close>

definition std_encode :: "string \<Rightarrow> string" where
  "std_encode s = map ((!) std_alphabet) (b64_digits (bytes_of s)) @ b64_padding s"

definition raw_url_encode :: "string \<Rightarrow> string" where
  "raw_url_encode s = map ((!) url_alphabet) (b64_digits (bytes_of s))"

section \<open>Decoding\<close>

fun quantum_bytes :: "nat list \<Rightarrow> nat list" where
  "quantum_bytes [d, e] = [d * 4 + e div 16]"
| "quantum_bytes [d, e, f] = [d * 4 + e div 16, e mod 16 * 16 + f div 4]"
| "quantum_bytes [d, e, f, g] = [d * 4 + e div 16, e mod 16 * 16 + f div 4, f mod 4 * 64 + g]"
| "quantum_bytes _ = []"

definition corrupt_input :: "nat \<Rightarrow> go_error" where
  "corrupt_input i = ExtErr (''illegal base64 data at input byte '' @ show_nat i)"

text \<open>
  \<open>si\<close> is the position in the input and \<open>ds\<close> the digits of the current group of four. A single
  digit left at the end is an error.
\<close>

fun decode_loop :: "nat \<Rightarrow> nat list \<Rightarrow> string \<Rightarrow> nat list result" where
  "decode_loop si ds [] =
     (if length ds = 1 then Err (corrupt_input (si - 1)) else Ok (quantum_bytes ds))"
| "decode_loop si ds (c # s) =
     (case index_byte url_alphabet c of
        Some d \<Rightarrow>
          if length ds = 3
          then (case decode_loop (Suc si) [] s of
                  Inl e \<Rightarrow> Err e
                | Inr bs \<Rightarrow> Ok (quantum_bytes (ds @ [d]) @ bs))
          else decode_loop (Suc si) (ds @ [d]) s
      | None \<Rightarrow>
          if c = CHR 0x0A \<or> c = CHR 0x0D then decode_loop (Suc si) ds s
          else Err (corrupt_input si))"

text \<open>\<open>base64.RawURLEncoding.DecodeString\<close>.\<close>

definition raw_url_decode :: "string \<Rightarrow> string result" where
  "raw_url_decode s = (case decode_loop 0 [] s of Inl e \<Rightarrow> Err e | Inr bs \<Rightarrow> Ok (string_of bs))"

section \<open>Lemmas: round trip\<close>

lemma index_byte_nth: "distinct s \<Longrightarrow> i < length s \<Longrightarrow> index_byte s (s ! i) = Some i"
proof (induction s arbitrary: i)
  case (Cons c s)
  then show ?case by (cases i) auto
qed simp

lemma url_alphabet_distinct: "distinct url_alphabet"
  by (simp add: url_alphabet_def)

lemma url_alphabet_length [simp]: "length url_alphabet = 64"
  by (simp add: url_alphabet_def)

lemma url_digit [simp]: "d < 64 \<Longrightarrow> index_byte url_alphabet (url_alphabet ! d) = Some d"
  by (simp add: index_byte_nth url_alphabet_distinct)

lemma url_digit_bound: "index_byte url_alphabet c = Some d \<Longrightarrow> d < 64"
proof -
  have "index_byte s c = Some i \<Longrightarrow> i < length s" for s i
    by (induction s arbitrary: i) (auto split: if_splits)
  then show "index_byte url_alphabet c = Some d \<Longrightarrow> d < 64" by fastforce
qed

lemma decode_two:
  "d < 64 \<Longrightarrow> e < 64 \<Longrightarrow>
   decode_loop si [] [url_alphabet ! d, url_alphabet ! e] = Ok [d * 4 + e div 16]"
  by simp

lemma decode_three:
  "d < 64 \<Longrightarrow> e < 64 \<Longrightarrow> f < 64 \<Longrightarrow>
   decode_loop si [] [url_alphabet ! d, url_alphabet ! e, url_alphabet ! f] =
     Ok [d * 4 + e div 16, e mod 16 * 16 + f div 4]"
  by simp

lemma decode_four:
  "d < 64 \<Longrightarrow> e < 64 \<Longrightarrow> f < 64 \<Longrightarrow> g < 64 \<Longrightarrow> decode_loop (Suc (Suc (Suc (Suc si)))) [] s = Ok bs \<Longrightarrow>
   decode_loop si [] (url_alphabet ! d # url_alphabet ! e # url_alphabet ! f # url_alphabet ! g # s) =
     Ok ((d * 4 + e div 16) # (e mod 16 * 16 + f div 4) # (f mod 4 * 64 + g) # bs)"
  by simp

text \<open>The digits of three bytes, and back.\<close>

lemma digit_bounds:
  fixes a b c :: nat
  assumes "a < 256" "b < 256" "c < 256"
  shows "a div 4 < 64" "a mod 4 * 16 < 64" "a mod 4 * 16 + b div 16 < 64" "b mod 16 * 4 < 64"
    "b mod 16 * 4 + c div 64 < 64" "c mod 64 < 64"
  using assms by auto

lemma byte_of_digits:
  fixes a b c :: nat
  assumes "a < 256" "b < 256" "c < 256"
  shows "a div 4 * 4 + a mod 4 * 16 div 16 = a" "a div 4 * 4 + (a mod 4 * 16 + b div 16) div 16 = a"
    "(a mod 4 * 16 + b div 16) mod 16 * 16 + b mod 16 * 4 div 4 = b"
    "(a mod 4 * 16 + b div 16) mod 16 * 16 + (b mod 16 * 4 + c div 64) div 4 = b"
    "(b mod 16 * 4 + c div 64) mod 4 * 64 + c mod 64 = c"
  using assms by auto

lemma decode_encode_bytes:
  "\<forall>b\<in>set bs. b < 256 \<Longrightarrow> decode_loop si [] (map ((!) url_alphabet) (b64_digits bs)) = Ok bs"
proof (induction bs arbitrary: si rule: b64_digits.induct)
  case (2 a)
  then have "a < 256" by simp
  note a = this this this
  show ?case unfolding b64_digits.simps list.map decode_two [OF digit_bounds(1,2) [OF a]] byte_of_digits(1) [OF a] ..
next
  case (3 a b)
  then have ab: "a < 256" "b < 256" "b < 256" by simp_all
  show ?case unfolding b64_digits.simps list.map decode_three [OF digit_bounds(1,3,4) [OF ab]] byte_of_digits(2,3) [OF ab] ..
next
  case (4 a b c bs)
  then have abc: "a < 256" "b < 256" "c < 256" and rest: "decode_loop (Suc (Suc (Suc (Suc si)))) [] (map ((!) url_alphabet) (b64_digits bs)) = Ok bs"
    by simp_all
  show ?case
    unfolding b64_digits.simps list.map decode_four [OF digit_bounds(1,3,5,6) [OF abc] rest] byte_of_digits(2,4,5) [OF abc] ..
qed simp

lemma string_of_bytes_of [simp]: "string_of (bytes_of s) = s"
  by (simp add: string_of_def bytes_of_def o_def)

lemma bytes_of_bound: "\<forall>b\<in>set (bytes_of s). b < 256"
  by (auto simp: bytes_of_def)

lemma raw_url_round_trip: "raw_url_decode (raw_url_encode s) = Ok s"
  by (simp add: raw_url_decode_def raw_url_encode_def decode_encode_bytes [OF bytes_of_bound])

lemma b64_digits_bound: "\<forall>b\<in>set bs. b < 256 \<Longrightarrow> d \<in> set (b64_digits bs) \<Longrightarrow> d < 64"
  by (induction bs rule: b64_digits.induct) (use digit_bounds in auto)

lemma raw_url_encode_chars: "set (raw_url_encode s) \<subseteq> set url_alphabet"
  using b64_digits_bound [OF bytes_of_bound] by (auto simp: raw_url_encode_def)

section \<open>Lemmas: what the decoder accepts\<close>

definition line_break :: "char \<Rightarrow> bool" where
  "line_break c \<longleftrightarrow> c = CHR 0x0A \<or> c = CHR 0x0D"

definition is_b64_digit :: "char \<Rightarrow> bool" where
  "is_b64_digit c \<longleftrightarrow> c \<in> set url_alphabet"

lemma decode_loop_accepts:
  "length ds < 4 \<Longrightarrow>
   (\<exists>bs. decode_loop si ds s = Ok bs) \<longleftrightarrow>
     list_all (\<lambda>c. is_b64_digit c \<or> line_break c) s \<and> (length ds + length (filter is_b64_digit s)) mod 4 \<noteq> 1"
proof (induction si ds s rule: decode_loop.induct)
  case (1 si ds)
  then show ?case by auto
next
  case (2 si ds c s)
  have digit: "index_byte url_alphabet c = None \<longleftrightarrow> \<not> is_b64_digit c"
    by (simp add: index_byte_None is_b64_digit_def)
  show ?case
  proof (cases "index_byte url_alphabet c")
    case None
    show ?thesis
    proof (cases "line_break c")
      case True
      then have "c = CHR 0x0A \<or> c = CHR 0x0D" by (simp add: line_break_def)
      from 2(1) [OF None this 2(4)] show ?thesis using None digit True by (simp add: line_break_def)
    next
      case False
      then show ?thesis using None digit by (simp add: line_break_def)
    qed
  next
    case (Some d)
    then have c: "is_b64_digit c" using digit by simp
    show ?thesis
    proof (cases "length ds = 3")
      case True
      have "(\<exists>bs. decode_loop si ds (c # s) = Ok bs) \<longleftrightarrow> (\<exists>bs. decode_loop (Suc si) [] s = Ok bs)"
        using Some True by (auto split: sum.split)
      moreover have "(4 + n) mod 4 = n mod 4" for n :: nat by simp
      ultimately show ?thesis using 2(2) [OF Some True] True c by (simp add: add.commute)
    next
      case False
      then show ?thesis using 2(3) [OF Some False] 2(4) Some c by simp
    qed
  qed
qed

lemma raw_url_decode_accepts:
  "(\<exists>r. raw_url_decode s = Ok r) \<longleftrightarrow>
     list_all (\<lambda>c. is_b64_digit c \<or> line_break c) s \<and> length (filter is_b64_digit s) mod 4 \<noteq> 1"
proof -
  have "(\<exists>r. raw_url_decode s = Ok r) \<longleftrightarrow> (\<exists>bs. decode_loop 0 [] s = Ok bs)"
    by (auto simp: raw_url_decode_def split: sum.split)
  then show ?thesis using decode_loop_accepts [of "[]" 0 s] by simp
qed

end
