(* ===== verification/Templates.thy ===== *)
theory Templates
  imports Broker_Config Go_Regexp Go_Encoding
begin

text \<open>
  Templates in the configuration text, \<open>internal/broker/template_fns.go\<close>: the search for
  delimited expressions, the cache of parsed templates, the replacement loop \<open>renderAll\<close> and
  the pure template functions.
\<close>

section \<open>Template functions\<close>

definition trim :: "string \<Rightarrow> string" where
  "trim input = trim_space input"

definition concat_fn :: "string \<Rightarrow> string \<Rightarrow> string" where
  "concat_fn input suffix = input @ suffix"

definition strJoin :: "go_runtime \<Rightarrow> go_value list \<Rightarrow> string list \<Rightarrow> string" where
  "strJoin rt input separators =
     (let separator = (if separators \<noteq> [] \<and> hd separators \<noteq> [] then hd separators else '','')
      in join separator (map (sprint_v rt) input))"

text \<open>
  \<open>bufio.Scanner\<close> with its default split function: lines without their end (\<open>\n\<close> or
  \<open>\r\n\<close>), no empty last line, and an error at a line of 64 KiB or more.
\<close>

definition drop_cr :: "string \<Rightarrow> string" where
  "drop_cr l = trim_suffix l [CHR 0x0D]"

definition raw_lines :: "string \<Rightarrow> string list" where
  "raw_lines s =
     (let ls = split_char CHR 0x0A s in if last ls = [] then butlast ls else ls)"

definition max_token :: nat where
  "max_token = 65536"

fun scan_nth :: "nat \<Rightarrow> string list \<Rightarrow> string result" where
  "scan_nth i [] = Ok []"
| "scan_nth i (l # ls) =
     (if length l \<ge> max_token then Err (ExtErr ''bufio.Scanner: token too long'')
      else if i = 0 then Ok (drop_cr l) else scan_nth (i - 1) ls)"

text \<open>
  The loop compares its counter with \<open>n - 1\<close>: for \<open>n < 1\<close> no line is found, but the whole file
  is scanned.
\<close>

definition readNthLine :: "(string \<Rightarrow> string result) \<Rightarrow> int \<Rightarrow> string \<Rightarrow> string result" where
  "readNthLine read n filePath =
     (case read filePath of
        Inl e \<Rightarrow> Err e
      | Inr content \<Rightarrow>
          let ls = raw_lines content
          in scan_nth (if n < 1 then length ls else nat (n - 1)) ls)"

section \<open>Environment variables in texts\<close>

text \<open>\<open>os.Expand\<close>: names as a shell writes them, with the text after the \<open>$\<close> as the argument.\<close>

definition shell_special :: "char \<Rightarrow> bool" where
  "shell_special c \<longleftrightarrow> c \<in> set ''*#$@!?-0123456789''"

definition alpha_num :: "char \<Rightarrow> bool" where
  "alpha_num c \<longleftrightarrow> (let n = of_char c :: nat in
     n = 95 \<or> 48 \<le> n \<and> n \<le> 57 \<or> 97 \<le> n \<and> n \<le> 122 \<or> 65 \<le> n \<and> n \<le> 90)"

text \<open>The name and the number of characters it takes.\<close>

definition shell_name :: "string \<Rightarrow> string \<times> nat" where
  "shell_name s =
     (if hd s = CHR ''{'' then
        (if length s > 2 \<and> shell_special (s ! 1) \<and> s ! 2 = CHR ''}'' then ([s ! 1], 3)
         else (case index_byte (tl s) CHR ''}'' of
                 Some 0 \<Rightarrow> ([], 2)
               | Some i \<Rightarrow> (take i (tl s), i + 2)
               | None \<Rightarrow> ([], 1)))
      else if shell_special (hd s) then ([hd s], 1)
      else (takeWhile alpha_num s, length (takeWhile alpha_num s)))"

function expand :: "(string \<Rightarrow> string) \<Rightarrow> string \<Rightarrow> string" where
  "expand mapping s =
     (case s of
        [] \<Rightarrow> []
      | c # r \<Rightarrow>
          if c = CHR ''$'' \<and> r \<noteq> [] then
            (case shell_name r of (name, w) \<Rightarrow>
               (if name = [] \<and> w > 0 then [] else if name = [] then [c] else mapping name)
               @ expand mapping (drop w r))
          else c # expand mapping r)"
  by pat_completeness auto
termination
  by (relation "measure (\<lambda>(f, s). length s)") auto

declare expand.simps [simp del]

text \<open>\<open>Getenv\<close> of a variable that is not set is the empty text.\<close>

definition getenv :: "(string \<times> string) list \<Rightarrow> string \<Rightarrow> string" where
  "getenv env name = (case mget env name of None \<Rightarrow> [] | Some v \<Rightarrow> v)"

definition readEnv :: "(string \<times> string) list \<Rightarrow> string \<Rightarrow> string" where
  "readEnv env envName = getenv env envName"

definition expandEnv :: "(string \<times> string) list \<Rightarrow> string \<Rightarrow> string" where
  "expandEnv env inputStr = expand (getenv env) inputStr"

definition readFile :: "(string \<times> string) list \<Rightarrow> (string \<Rightarrow> string result) \<Rightarrow> string \<Rightarrow> string result" where
  "readFile env read filePath =
     (case read (expandEnv env filePath) of Inl e \<Rightarrow> Err e | Inr content \<Rightarrow> Ok content)"

definition b64Encode :: "string \<Rightarrow> string" where
  "b64Encode input = std_encode input"

text \<open>
  The functions by the names they have in a template, and a call of one: \<open>None\<close> when the template
  engine refuses the operands, whose number or types do not fit the Go function's.
\<close>

datatype template_fn =
    B64Encode | Concat | ExpandEnv | ReadEnv | ReadFile | ReadNthLine | StrJoin | Trim

definition templateFuncMap :: "(string \<times> template_fn) list" where
  "templateFuncMap =
    [(''b64encode'', B64Encode), (''concat'', Concat), (''expandEnv'', ExpandEnv), (''env'', ReadEnv),
     (''readFile'', ReadFile), (''readNthLine'', ReadNthLine), (''strJoin'', StrJoin), (''trim'', Trim)]"

fun template_string :: "go_value \<Rightarrow> string option" where
  "template_string (GStr s) = Some s"
| "template_string _ = None"

definition call_template_fn ::
  "go_runtime \<Rightarrow> (string \<times> string) list \<Rightarrow> (string \<Rightarrow> string result) \<Rightarrow> template_fn \<Rightarrow> go_value list
   \<Rightarrow> string result option" where
  "call_template_fn rt env read f args =
     (case (f, args) of
        (B64Encode, [GStr s]) \<Rightarrow> Some (Ok (b64Encode s))
      | (Concat, [GStr s, GStr t]) \<Rightarrow> Some (Ok (concat_fn s t))
      | (ExpandEnv, [GStr s]) \<Rightarrow> Some (Ok (expandEnv env s))
      | (ReadEnv, [GStr s]) \<Rightarrow> Some (Ok (readEnv env s))
      | (ReadFile, [GStr s]) \<Rightarrow> Some (readFile env read s)
      | (ReadNthLine, [GInt n, GStr s]) \<Rightarrow> Some (readNthLine read n s)
      | (StrJoin, GArr vs # seps) \<Rightarrow>
          if list_all (\<lambda>v. template_string v \<noteq> None) seps
          then Some (Ok (strJoin rt vs (map (the \<circ> template_string) seps))) else None
      | (Trim, [GStr s]) \<Rightarrow> Some (Ok (trim s))
      | _ \<Rightarrow> None)"

lemma expand_plain: "CHR ''$'' \<notin> set p \<Longrightarrow> expand f (p @ s) = p @ expand f s"
proof (induction p)
  case (Cons c p)
  then show ?case by (subst expand.simps) auto
qed simp

lemma expand_no_dollar: "CHR ''$'' \<notin> set s \<Longrightarrow> expand f s = s"
  using expand_plain [of s f "[]"] by (simp add: expand.simps)

text \<open>A name in braces is replaced by the value of the variable.\<close>

lemma expand_braces:
  assumes "n \<noteq> []" and "CHR ''}'' \<notin> set n"
  shows "expand f (''${'' @ n @ ''}'' @ s) = f n @ expand f s"
proof -
  have "shell_name (CHR ''{'' # n @ CHR ''}'' # s) = (n, length n + 2)"
  proof (cases "length n = 1")
    case True
    then obtain c where "n = [c]" by (cases n) auto
    with assms(2) show ?thesis by (auto simp: shell_name_def)
  next
    case False
    with assms obtain a b n' where n: "n = a # b # n'" by (cases n; cases "tl n") auto
    with assms(2) have "b \<noteq> CHR ''}''" by auto
    with n show ?thesis using index_byte_first [OF assms(2), of s]
      by (simp add: shell_name_def split: nat.split)
  qed
  then show ?thesis using assms(1) by (subst expand.simps) simp
qed

lemma expandEnv_braces:
  assumes "CHR ''$'' \<notin> set p" and "n \<noteq> []" and "CHR ''}'' \<notin> set n"
  shows "expandEnv env (p @ ''${'' @ n @ ''}'' @ s) = p @ getenv env n @ expandEnv env s"
  using expand_plain [OF assms(1)] expand_braces [OF assms(2,3)] by (simp add: expandEnv_def)

section \<open>The template engine\<close>

text \<open>
  \<open>text/template\<close> is the environment's here, with the environment variables and files its
  functions read: parsing with a pair of delimiters, and executing a template in a context.
\<close>

record 't template_engine =
  te_parse :: "string \<Rightarrow> string \<Rightarrow> string \<Rightarrow> 't result"
  te_exec :: "'t \<Rightarrow> go_map \<Rightarrow> string result"

definition unescapeYAMLTemplate :: "string \<Rightarrow> string" where
  "unescapeYAMLTemplate input =
     replace_all (map char_of [92, 92 :: nat]) (map char_of [92 :: nat])
       (replace_all (map char_of [92, 34 :: nat]) (map char_of [34 :: nat]) input)"

section \<open>Finding the expressions\<close>

text \<open>
  The regular expression is the left delimiter, any characters but a newline (as few as possible),
  and the right delimiter. \<open>match_len\<close> is the length of the match at the start of a text.
\<close>

fun find_close :: "string \<Rightarrow> string \<Rightarrow> nat option" where
  "find_close R [] = (if R = [] then Some 0 else None)"
| "find_close R (c # s) =
     (if has_prefix (c # s) R then Some 0
      else if c = CHR 0x0A then None
      else map_option Suc (find_close R s))"

definition match_len :: "string \<Rightarrow> string \<Rightarrow> string \<Rightarrow> nat option" where
  "match_len L R s =
     (if has_prefix s L
      then map_option (\<lambda>n. length L + n + length R) (find_close R (drop (length L) s))
      else None)"

text \<open>\<open>FindAllStringIndex\<close>: leftmost, non-overlapping matches (none is empty here, see below).\<close>

function find_all :: "string \<Rightarrow> string \<Rightarrow> nat \<Rightarrow> string \<Rightarrow> (nat \<times> nat) list" where
  "find_all L R pos s =
     (case match_len L R s of
        Some (Suc n) \<Rightarrow>
          if s = [] then [] else (pos, pos + Suc n) # find_all L R (pos + Suc n) (drop (Suc n) s)
      | _ \<Rightarrow> (case s of [] \<Rightarrow> [] | c # r \<Rightarrow> find_all L R (Suc pos) r))"
  by pat_completeness auto
termination
  by (relation "measure (\<lambda>(L, R, pos, s). length s)") auto

declare find_all.simps [simp del]

definition find_all_strings :: "string \<Rightarrow> string \<Rightarrow> string \<Rightarrow> string list" where
  "find_all_strings L R s = map (\<lambda>(i, j). take (j - i) (drop i s)) (find_all L R 0 s)"

text \<open>\<open>match_len\<close> is what the expression says.\<close>

definition template_rx :: "string \<Rightarrow> string \<Rightarrow> rx" where
  "template_rx L R = Cat (Lit L) (Cat (Lazy rx_dot) (Lit R))"

definition first_length :: "(string \<times> string list \<times> string) list \<Rightarrow> nat option" where
  "first_length ms = (case ms of [] \<Rightarrow> None | (m, cs, r) # _ \<Rightarrow> Some (length m))"

lemma first_length_simps [simp]:
  "first_length [] = None" "first_length ((m, cs, r) # ms) = Some (length m)"
  by (simp_all add: first_length_def)

lemma lazy_close:
  "first_length (concat (map (\<lambda>(a, b). map (\<lambda>(m, cs, r). (p @ a @ m, cs, r)) (rx_run (Lit R) b)) (class_splits rx_dot s))) =
   map_option (\<lambda>n. length p + n + length R) (find_close R s)"
proof (induction s arbitrary: p)
  case Nil
  then show ?case by (simp add: has_prefix_iff)
next
  case (Cons c s)
  from Cons [of "p @ [c]"] show ?case
    by (auto simp: rx_dot_def o_def case_prod_unfold option.map_comp cong: if_cong)
qed

lemma match_len_regexp: "match_len L R s = first_length (rx_run (template_rx L R) s)"
proof (cases "has_prefix s L")
  case True
  then show ?thesis
    using lazy_close [of "L" R "drop (length L) s"]
    by (simp add: match_len_def template_rx_def map_concat o_def case_prod_unfold rx_run.simps(1) [of L] del: rx_run.simps(1))
next
  case False
  then show ?thesis by (simp add: match_len_def template_rx_def)
qed

section \<open>The template cache\<close>

record 't template_cache =
  tc_templates :: "(string \<times> 't) list"
  tc_params :: config_params

definition parse_template :: "'t template_engine \<Rightarrow> config_params \<Rightarrow> string \<Rightarrow> 't result" where
  "parse_template te ps input =
     te_parse te (cp_LeftDelim ps) (cp_RightDelim ps) (unescapeYAMLTemplate input)"

definition precompile ::
  "'t template_engine \<Rightarrow> config_params \<Rightarrow> string \<Rightarrow> (string \<times> 't) list \<Rightarrow> (string \<times> 't) list" where
  "precompile te ps m compiled =
     (if mget compiled m \<noteq> None then compiled
      else case parse_template te ps m of
          Inl e \<Rightarrow> compiled
        | Inr tmpl \<Rightarrow> mput m tmpl compiled)"

definition newTemplateCache :: "'t template_engine \<Rightarrow> string \<Rightarrow> config_params \<Rightarrow> 't template_cache" where
  "newTemplateCache te content ps =
     \<lparr>tc_templates = fold (precompile te ps) (find_all_strings (cp_LeftDelim ps) (cp_RightDelim ps) content) [],
      tc_params = ps\<rparr>"

section \<open>Rendering\<close>

definition executeTemplate :: "'t template_engine \<Rightarrow> 't \<Rightarrow> string \<Rightarrow> go_map \<Rightarrow> string" where
  "executeTemplate te tmpl input ctx = (case te_exec te tmpl ctx of Inl e \<Rightarrow> input | Inr r \<Rightarrow> r)"

definition tryRenderTemplate :: "'t template_engine \<Rightarrow> string \<Rightarrow> go_map \<Rightarrow> config_params \<Rightarrow> string" where
  "tryRenderTemplate te input ctx ps =
     (case parse_template te ps input of
        Inl e \<Rightarrow> input
      | Inr tmpl \<Rightarrow> (case te_exec te tmpl ctx of Inl e \<Rightarrow> input | Inr r \<Rightarrow> r))"

definition render_one :: "'t template_engine \<Rightarrow> 't template_cache \<Rightarrow> string \<Rightarrow> go_map \<Rightarrow> string" where
  "render_one te tc originalMatch mappings =
     (case mget (tc_templates tc) originalMatch of
        Some tmpl \<Rightarrow> executeTemplate te tmpl originalMatch mappings
      | None \<Rightarrow> tryRenderTemplate te originalMatch mappings (tc_params tc))"

text \<open>The loop: \<open>result\<close> is rewritten in place and \<open>offset\<close> is how far it has shifted.\<close>

fun render_loop :: "(string \<Rightarrow> string) \<Rightarrow> (nat \<times> nat) list \<Rightarrow> string \<Rightarrow> int \<Rightarrow> string" where
  "render_loop f [] result offset = result"
| "render_loop f ((i, j) # ms) result offset =
     (let start = int i + offset; stop = int j + offset;
          originalMatch = take (nat (stop - start)) (drop (nat start) result);
          replacement = f originalMatch
      in render_loop f ms (take (nat start) result @ replacement @ drop (nat stop) result)
           (offset + int (length replacement) - (stop - start)))"

definition renderAll :: "'t template_engine \<Rightarrow> 't template_cache \<Rightarrow> string \<Rightarrow> go_map \<Rightarrow> string" where
  "renderAll te tc content mappings =
     render_loop (\<lambda>m. render_one te tc m mappings)
       (find_all (cp_LeftDelim (tc_params tc)) (cp_RightDelim (tc_params tc)) 0 content) content 0"

definition renderAllTemplates :: "'t template_engine \<Rightarrow> string \<Rightarrow> go_map \<Rightarrow> config_params \<Rightarrow> string" where
  "renderAllTemplates te content mappings ps = renderAll te (newTemplateCache te content ps) content mappings"

section \<open>Lemmas\<close>

text \<open>The reference: a left-to-right scan that replaces each expression.\<close>

function render_segments :: "(string \<Rightarrow> string) \<Rightarrow> string \<Rightarrow> string \<Rightarrow> string \<Rightarrow> string" where
  "render_segments f L R s =
     (case match_len L R s of
        Some (Suc n) \<Rightarrow>
          if s = [] then [] else f (take (Suc n) s) @ render_segments f L R (drop (Suc n) s)
      | _ \<Rightarrow> (case s of [] \<Rightarrow> [] | c # r \<Rightarrow> c # render_segments f L R r))"
  by pat_completeness auto
termination
  by (relation "measure (\<lambda>(f, L, R, s). length s)") auto

declare render_segments.simps [simp del]

lemma find_close_bound: "find_close R s = Some n \<Longrightarrow> n + length R \<le> length s"
  by (induction R s arbitrary: n rule: find_close.induct)
    (auto split: if_splits dest: has_prefix_length)

lemma match_len_bound: "match_len L R s = Some n \<Longrightarrow> n \<le> length s"
  by (auto simp: match_len_def has_prefix_iff split: if_splits dest!: find_close_bound)

lemma find_all_shift: "find_all L R pos s = map (\<lambda>(i, j). (i + pos, j + pos)) (find_all L R 0 s)"
proof (induction "length s" arbitrary: pos s rule: less_induct)
  case less
  note IH = less
  show ?case
  proof (cases "\<exists>n. match_len L R s = Some (Suc n) \<and> s \<noteq> []")
    case True
    then obtain n where n: "match_len L R s = Some (Suc n)" "s \<noteq> []" by blast
    then have len: "length (drop (Suc n) s) < length s" by simp
    show ?thesis
      using n IH [OF len, of "pos + Suc n"] IH [OF len, of "Suc n"]
      by (subst (1 2) find_all.simps) (simp add: o_def split_beta)
  next
    case False
    show ?thesis
    proof (cases s)
      case Nil
      then show ?thesis by (subst (1 2) find_all.simps) (auto split: option.splits nat.splits)
    next
      case (Cons c r)
      with False have "find_all L R p s = find_all L R (Suc p) r" for p
        by (subst find_all.simps) (auto split: option.splits nat.splits)
      with IH [of r "Suc pos"] IH [of r "Suc 0"] Cons show ?thesis by (simp add: o_def split_beta)
    qed
  qed
qed

lemma render_loop_step:
  assumes "Suc n \<le> length s"
  shows "render_loop f ((p, Suc n + p) # ms) (pre @ s) (int (length pre) - int p) =
    render_loop f ms ((pre @ f (take (Suc n) s)) @ drop (Suc n) s)
      (int (length (pre @ f (take (Suc n) s))) - int (p + Suc n))"
proof -
  have start: "nat (int p + (int (length pre) - int p)) = length pre" by simp
  have stop: "nat (int (Suc n + p) + (int (length pre) - int p)) = length pre + Suc n" by simp
  have len: "nat (int (Suc n + p) + (int (length pre) - int p) - (int p + (int (length pre) - int p))) = Suc n"
    by simp
  show ?thesis
    unfolding render_loop.simps Let_def start stop len by (simp add: algebra_simps)
qed

lemma shift_pairs:
  "map (\<lambda>(i, j). (i + p, j + p)) (map (\<lambda>(i, j). (i + q, j + q)) xs) =
   map (\<lambda>(i, j). (i + (p + q), j + (p + q))) (xs :: (nat \<times> nat) list)"
  by (simp add: o_def split_beta add.commute add.left_commute)

text \<open>The loop invariant: what is rendered, then what is left, and the shift between them.\<close>

lemma render_loop_prefix:
  "render_loop f (map (\<lambda>(i, j). (i + p, j + p)) (find_all L R 0 s)) (pre @ s) (int (length pre) - int p)
   = pre @ render_segments f L R s"
proof (induction "length s" arbitrary: pre p s rule: less_induct)
  case less
  note IH = less
  show ?case
  proof (cases "\<exists>n. match_len L R s = Some (Suc n) \<and> s \<noteq> []")
    case True
    then obtain n where n: "match_len L R s = Some (Suc n)" "s \<noteq> []" by blast
    then have len: "length (drop (Suc n) s) < length s" by simp
    from match_len_bound [OF n(1)] have b: "Suc n \<le> length s" .
    let ?rep = "f (take (Suc n) s)"
    have fa: "find_all L R 0 s = (0, Suc n) # map (\<lambda>(i, j). (i + Suc n, j + Suc n)) (find_all L R 0 (drop (Suc n) s))"
      using n by (subst find_all.simps) (simp add: find_all_shift [of L R "Suc n"])
    have "render_segments f L R s = ?rep @ render_segments f L R (drop (Suc n) s)"
      using n by (subst render_segments.simps) simp
    moreover have "render_loop f (map (\<lambda>(i, j). (i + p, j + p)) (find_all L R 0 s)) (pre @ s) (int (length pre) - int p)
        = (pre @ ?rep) @ render_segments f L R (drop (Suc n) s)"
      unfolding fa list.map(2) prod.case add_0 render_loop_step [OF b] shift_pairs by (rule IH [OF len])
    ultimately show ?thesis by simp
  next
    case False
    show ?thesis
    proof (cases s)
      case Nil
      then have "find_all L R 0 s = []" "render_segments f L R s = []"
        by (subst find_all.simps render_segments.simps; auto split: option.splits nat.splits)+
      with Nil show ?thesis by simp
    next
      case (Cons c r)
      with False have a: "find_all L R 0 (c # r) = find_all L R (Suc 0) r"
        and seg: "render_segments f L R (c # r) = c # render_segments f L R r"
        by (subst find_all.simps render_segments.simps; auto split: option.splits nat.splits)+
      have sh: "find_all L R (Suc 0) r = map (\<lambda>(i, j). (i + Suc 0, j + Suc 0)) (find_all L R 0 r)"
        by (rule find_all_shift)
      have "render_loop f (map (\<lambda>(i, j). (i + (p + Suc 0), j + (p + Suc 0))) (find_all L R 0 r))
          ((pre @ [c]) @ r) (int (length (pre @ [c])) - int (p + Suc 0)) = (pre @ [c]) @ render_segments f L R r"
        by (rule IH) (simp add: Cons)
      then show ?thesis unfolding Cons a sh shift_pairs by (simp add: seg)
    qed
  qed
qed

lemma render_loop_segments: "render_loop f (find_all L R 0 s) s 0 = render_segments f L R s"
  using render_loop_prefix [of f 0 L R s "[]"] by (simp add: split_beta)

lemma render_segments_id: "render_segments (\<lambda>m. m) L R s = s"
proof (induction "\<lambda>m :: string. m" L R s rule: render_segments.induct)
  case (1 L R s)
  then show ?case
    by (subst render_segments.simps) (auto split: option.splits nat.splits list.splits)
qed

lemma render_segments_cong: "(\<And>m. f m = g m) \<Longrightarrow> render_segments f L R s = render_segments g L R s"
  by (metis ext)

lemma precompile_parsed:
  "(\<And>m t. mget c m = Some t \<Longrightarrow> parse_template te ps m = Ok t) \<Longrightarrow>
   mget (fold (precompile te ps) ms c) m = Some t \<Longrightarrow> parse_template te ps m = Ok t"
proof (induction ms arbitrary: c)
  case (Cons x ms)
  have "mget (precompile te ps x c) m' = Some t' \<Longrightarrow> parse_template te ps m' = Ok t'" for m' t'
    using Cons.prems(1) by (auto simp: precompile_def split: if_splits sum.splits)
  from Cons.IH [OF this] Cons.prems(2) show ?case by simp
qed simp

lemma render_one_cached:
  "render_one te (newTemplateCache te content ps) m mappings = tryRenderTemplate te m mappings ps"
proof (cases "mget (tc_templates (newTemplateCache te content ps)) m")
  case None
  then show ?thesis by (simp add: render_one_def) (simp add: newTemplateCache_def)
next
  case (Some t)
  then have "parse_template te ps m = Ok t"
    using precompile_parsed [of "[]" te ps] by (simp add: newTemplateCache_def)
  with Some show ?thesis by (simp add: render_one_def tryRenderTemplate_def executeTemplate_def)
qed

lemma newTemplateCache_params [simp]: "tc_params (newTemplateCache te content ps) = ps"
  by (simp add: newTemplateCache_def)

section \<open>Properties\<close>

text \<open>
  Property C33. Rendering with the template cache, whatever text the cache was built from, is the
  left-to-right replacement of each delimited expression by the result of parsing and executing it
  afresh: the index arithmetic of the loop and the cache do not change the result.
\<close>

theorem render_all_is_segment_replacement:
  "renderAll te (newTemplateCache te cached ps) content mappings =
   render_segments (\<lambda>m. tryRenderTemplate te m mappings ps) (cp_LeftDelim ps) (cp_RightDelim ps) content"
  by (simp add: renderAll_def render_loop_segments render_one_cached)

text \<open>
  An expression that cannot be rendered stays as it is: when no template executes in
  the context (as at start-up, where nothing is mapped), the text is unchanged.
\<close>

lemma render_all_keeps_unrenderable:
  assumes "\<And>t. \<exists>e. te_exec te t mappings = Err e"
  shows "renderAll te (newTemplateCache te cached ps) content mappings = content"
proof -
  have "tryRenderTemplate te m mappings ps = m" for m
    using assms by (auto simp: tryRenderTemplate_def split: sum.split dest: spec) (metis sum.simps(4))
  then show ?thesis
    by (simp add: renderAll_def render_loop_segments render_one_cached render_segments_id)
qed

text \<open>A template engine for the witness: a template is its text, and only the empty context fails.\<close>

definition sample_templates :: "string template_engine" where
  "sample_templates = \<lparr>te_parse = (\<lambda>l r s. Ok s),
     te_exec = (\<lambda>t m. if m = [] then Err (ExtErr t) else Ok ''x'')\<rparr>"

lemma render_all_keeps_unrenderable_witness:
  "renderAll sample_templates
     (newTemplateCache sample_templates ''a {{b}} c'' \<lparr>cp_LeftDelim = ''{{'', cp_RightDelim = ''}}''\<rparr>)
     ''a {{b}} c'' [] = ''a {{b}} c''
   \<and> renderAll sample_templates
     (newTemplateCache sample_templates ''a {{b}} c'' \<lparr>cp_LeftDelim = ''{{'', cp_RightDelim = ''}}''\<rparr>)
     ''a {{b}} c'' [(''b'', GNil)] = ''a x c''"
proof
  show "renderAll sample_templates
     (newTemplateCache sample_templates ''a {{b}} c'' \<lparr>cp_LeftDelim = ''{{'', cp_RightDelim = ''}}''\<rparr>)
     ''a {{b}} c'' [] = ''a {{b}} c''"
    by (rule render_all_keeps_unrenderable) (simp add: sample_templates_def)
qed code_simp

end
