(* ===== verification/Rbac.thy ===== *)
theory Rbac
  imports Broker_Config Go_Paths
begin

text \<open>
  Role bindings, \<open>internal/broker/config_rbac.go\<close>: matching a binding's criteria against the
  claims, the two selection strategies of \<open>lookupUserAccount\<close>, the collation of roles, and the
  discovery of accounts in a directory.
\<close>

section \<open>Code outside the repository\<close>

text \<open>
  \<open>expr-lang/expr\<close>: compiling an expression against the types of a context, and running a
  program. \<open>nats-io/jwt\<close>: adding strings to a subject list and to a CIDR list.
\<close>

record 'p expr_engine =
  ex_compile :: "string \<Rightarrow> go_map \<Rightarrow> 'p result"
  ex_run :: "'p \<Rightarrow> go_map \<Rightarrow> go_value result"

record jwt_lists =
  jl_add :: "string list \<Rightarrow> string list \<Rightarrow> string list"
  jl_cidr_add :: "string list \<Rightarrow> string list \<Rightarrow> string list"

section \<open>Lookups\<close>

definition lookupAccountInfo :: "config \<Rightarrow> string \<Rightarrow> user_account_info result" where
  "lookupAccountInfo c userAccount =
     (case find (\<lambda>a. ua_Name a = userAccount) (rbac_Accounts (cfg_Rbac c)) of
        Some a \<Rightarrow> Ok a
      | None \<Rightarrow> Err (UnknownAccount userAccount))"

definition lookupRole :: "config \<Rightarrow> string \<Rightarrow> role result" where
  "lookupRole c roleName =
     (case find (\<lambda>r. ro_Name r = roleName) (rbac_Roles (cfg_Rbac c)) of
        Some r \<Rightarrow> Ok r
      | None \<Rightarrow> Err (UnknownRole roleName))"

section \<open>Collating roles\<close>

definition collatePermissions :: "jwt_lists \<Rightarrow> permissions \<Rightarrow> permissions \<Rightarrow> permissions" where
  "collatePermissions jl base other =
     (let add = (\<lambda>b o'. \<lparr>sp_Allow = jl_add jl (sp_Allow b) (sp_Allow o'),
                         sp_Deny = jl_add jl (sp_Deny b) (sp_Deny o')\<rparr>);
          r = pm_Resp base;
          r1 = (if rp_Expires (pm_Resp other) > 0 then r\<lparr>rp_Expires := rp_Expires (pm_Resp other)\<rparr> else r);
          r2 = (if rp_MaxMsgs (pm_Resp other) > 0 then r1\<lparr>rp_MaxMsgs := rp_MaxMsgs (pm_Resp other)\<rparr> else r1)
      in \<lparr>pm_Pub = add (pm_Pub base) (pm_Pub other), pm_Sub = add (pm_Sub base) (pm_Sub other), pm_Resp = r2\<rparr>)"

definition collateLimits :: "jwt_lists \<Rightarrow> limits \<Rightarrow> limits \<Rightarrow> limits" where
  "collateLimits jl base other =
     \<lparr>lm_User = \<lparr>ul_Src = jl_cidr_add jl (ul_Src (lm_User base)) (ul_Src (lm_User other)),
                ul_Times = ul_Times (lm_User other),
                ul_Locale = ul_Locale (lm_User other)\<rparr>,
      lm_Nats = \<lparr>nl_Subs = nl_Subs (lm_Nats other),
                nl_Data = nl_Data (lm_Nats other),
                nl_Payload = nl_Payload (lm_Nats other)\<rparr>\<rparr>"

definition no_permissions :: permissions where
  "no_permissions = \<lparr>pm_Pub = \<lparr>sp_Allow = [], sp_Deny = []\<rparr>, pm_Sub = \<lparr>sp_Allow = [], sp_Deny = []\<rparr>,
     pm_Resp = \<lparr>rp_MaxMsgs = 0, rp_Expires = 0\<rparr>\<rparr>"

text \<open>\<open>jwt.NoLimit\<close> is -1.\<close>

definition no_limits :: limits where
  "no_limits = \<lparr>lm_User = \<lparr>ul_Src = [], ul_Times = [], ul_Locale = []\<rparr>,
     lm_Nats = \<lparr>nl_Subs = -1, nl_Data = -1, nl_Payload = -1\<rparr>\<rparr>"

fun collate_loop ::
  "jwt_lists \<Rightarrow> config \<Rightarrow> string list \<Rightarrow> permissions \<times> limits \<Rightarrow> (permissions \<times> limits) result" where
  "collate_loop jl c [] acc = Ok acc"
| "collate_loop jl c (roleName # rs) (p, l) =
     (case lookupRole c roleName of
        Inl e \<Rightarrow> Err e
      | Inr r \<Rightarrow> collate_loop jl c rs
                 (collatePermissions jl p (ro_Permissions r), collateLimits jl l (ro_Limits r)))"

definition collateRoles :: "jwt_lists \<Rightarrow> config \<Rightarrow> string list \<Rightarrow> (permissions \<times> limits) result" where
  "collateRoles jl c roles = collate_loop jl c roles (no_permissions, no_limits)"

section \<open>Match criteria\<close>

text \<open>The cache of compiled expressions, \<open>None\<close> for a nil pointer.\<close>

type_synonym 'p expr_cache = "(string \<times> 'p) list option"

definition loadOrCompileExpr ::
  "'p expr_engine \<Rightarrow> string \<Rightarrow> go_map \<Rightarrow> 'p expr_cache \<Rightarrow> 'p result \<times> 'p expr_cache" where
  "loadOrCompileExpr eng e ctx cache =
     (case Option.bind cache (\<lambda>c. mget c e) of
        Some p \<Rightarrow> (Ok p, cache)
      | None \<Rightarrow>
          (case ex_compile eng e ctx of
             Inl err \<Rightarrow> (Err err, cache)
           | Inr p \<Rightarrow> (Ok p, map_option (mput e p) cache)))"

text \<open>A string, or an element of a generic array, equal to \<open>s\<close>.\<close>

definition is_string :: "string \<Rightarrow> go_value \<Rightarrow> bool" where
  "is_string s v \<longleftrightarrow> v = GStr s"

definition permission_matched :: "go_map \<Rightarrow> string \<Rightarrow> bool" where
  "permission_matched ctx p =
     (case mget ctx ''permissions'' of
        Some (GArr vs) \<Rightarrow> (\<exists>v\<in>set vs. is_string p v)
      | Some v \<Rightarrow> is_string p v
      | None \<Rightarrow> False)"

definition claim_matched :: "go_value \<Rightarrow> string \<Rightarrow> bool" where
  "claim_matched v value =
     (case v of
        GStr s \<Rightarrow> s = value
      | GArr vs \<Rightarrow> (\<exists>x\<in>set vs. is_string value x)
      | GMap m \<Rightarrow> mget m value \<noteq> None
      | GStrMap m \<Rightarrow> mget m value \<noteq> None
      | _ \<Rightarrow> False)"

definition evaluateMatchCriterion ::
  "'p expr_engine \<Rightarrow> match_criterion \<Rightarrow> go_map \<Rightarrow> 'p expr_cache \<Rightarrow> (bool \<times> string) \<times> 'p expr_cache" where
  "evaluateMatchCriterion eng m ctx cache =
     (if mc_Expr m \<noteq> [] then
        (case loadOrCompileExpr eng (mc_Expr m) ctx cache of
           (Inl _, cache') \<Rightarrow> ((False, []), cache')
         | (Inr p, cache') \<Rightarrow>
             (case ex_run eng p ctx of
                Inr (GBool True) \<Rightarrow> ((True, ''expr='' @ mc_Expr m), cache')
              | _ \<Rightarrow> ((False, []), cache')))
      else if mc_Permission m \<noteq> [] then
        (if permission_matched ctx (mc_Permission m)
         then ((True, ''permission='' @ mc_Permission m), cache) else ((False, []), cache))
      else
        (case mget ctx (mc_Claim m) of
           None \<Rightarrow> ((False, []), cache)
         | Some v \<Rightarrow>
             if claim_matched v (mc_Value m)
             then ((True, mc_Claim m @ ''='' @ mc_Value m), cache) else ((False, []), cache)))"

section \<open>lookupUserAccount\<close>

text \<open>The loop over one binding's criteria; the strict strategy leaves it at the first failure.\<close>

fun match_loop ::
  "'p expr_engine \<Rightarrow> strategy \<Rightarrow> match_criterion list \<Rightarrow> go_map \<Rightarrow> int \<Rightarrow> string list \<Rightarrow> bool
   \<Rightarrow> 'p expr_cache \<Rightarrow> int \<times> string list \<times> bool \<times> 'p expr_cache" where
  "match_loop eng st [] ctx currentMatches matchedOn fully cache = (currentMatches, matchedOn, fully, cache)"
| "match_loop eng st (m # ms) ctx currentMatches matchedOn fully cache =
     (case evaluateMatchCriterion eng m ctx cache of
        ((matched, description), cache') \<Rightarrow>
          if matched then
            match_loop eng st ms ctx (currentMatches + 1) (matchedOn @ [description]) fully cache'
          else if st = StrategyStrict then (-1, matchedOn, False, cache')
          else match_loop eng st ms ctx currentMatches matchedOn False cache')"

record match_result =
  mr_matches :: int
  mr_numMatchCriteria :: int
  mr_account :: string
  mr_permissions :: permissions
  mr_limits :: limits
  mr_maxExpiry :: int
  mr_matchedOn :: "string list"

type_synonym account_choice = "string \<times> permissions \<times> limits \<times> int"

text \<open>The answer for a chosen binding: its account, its roles collated, its own maximal lifetime.\<close>

definition grant :: "jwt_lists \<Rightarrow> config \<Rightarrow> role_binding \<Rightarrow> account_choice result" where
  "grant jl c b =
     (case collateRoles jl c (rb_Roles b) of
        Inl e \<Rightarrow> Err e
      | Inr (p, l) \<Rightarrow> Ok (rb_Account b, p, l, rb_TokenMaxExpiry b))"

text \<open>The loop over the bindings either returns from the function or ends with its variables.\<close>

datatype 'p loop_exit =
    Returned "account_choice result" "'p expr_cache"
  | Finished match_result "role_binding option" "'p expr_cache"

definition zero_match :: match_result where
  "zero_match = \<lparr>mr_matches = 0, mr_numMatchCriteria = 0, mr_account = [], mr_permissions = no_permissions,
     mr_limits = no_limits, mr_maxExpiry = 0, mr_matchedOn = []\<rparr>"

fun binding_loop ::
  "'p expr_engine \<Rightarrow> jwt_lists \<Rightarrow> config \<Rightarrow> go_map \<Rightarrow> role_binding list \<Rightarrow> match_result
   \<Rightarrow> role_binding option \<Rightarrow> 'p expr_cache \<Rightarrow> 'p loop_exit" where
  "binding_loop eng jl c ctx [] best fallback cache = Finished best fallback cache"
| "binding_loop eng jl c ctx (b # bs) best fallback cache =
     (if rb_Match b = [] then
        binding_loop eng jl c ctx bs best (if fallback = None then Some b else fallback) cache
      else
        (case match_loop eng (rbac_Strategy (cfg_Rbac c)) (rb_Match b) ctx 0 [] True cache of
           (currentMatches, matchedOn, fully, cache') \<Rightarrow>
             let numMatchCriteria = int (length (rb_Match b)) in
             if rbac_Strategy (cfg_Rbac c) = StrategyStrict then
               (if fully \<and> currentMatches = numMatchCriteria then Returned (grant jl c b) cache'
                else binding_loop eng jl c ctx bs best fallback cache')
             else if currentMatches > 0
                  \<and> (currentMatches > mr_matches best
                     \<or> (currentMatches = mr_matches best \<and> numMatchCriteria > mr_numMatchCriteria best)) then
               (case collateRoles jl c (rb_Roles b) of
                  Inl e \<Rightarrow> Returned (Err e) cache'
                | Inr (p, l) \<Rightarrow>
                    binding_loop eng jl c ctx bs
                      \<lparr>mr_matches = currentMatches, mr_numMatchCriteria = numMatchCriteria,
                       mr_account = rb_Account b, mr_permissions = p, mr_limits = l,
                       mr_maxExpiry = rb_TokenMaxExpiry b, mr_matchedOn = matchedOn\<rparr>
                      fallback cache')
             else binding_loop eng jl c ctx bs best fallback cache'))"

definition lookupUserAccount ::
  "'p expr_engine \<Rightarrow> jwt_lists \<Rightarrow> config \<Rightarrow> go_map \<Rightarrow> 'p expr_cache
   \<Rightarrow> account_choice result \<times> 'p expr_cache" where
  "lookupUserAccount eng jl c ctx cache =
     (case binding_loop eng jl c ctx (rbac_RoleBinding (cfg_Rbac c)) zero_match None cache of
        Returned r cache' \<Rightarrow> (r, cache')
      | Finished best fallback cache' \<Rightarrow>
          if rbac_Strategy (cfg_Rbac c) = StrategyStrict then
            (case fallback of
               Some b \<Rightarrow> (grant jl c b, cache')
             | None \<Rightarrow> (Err NoStrictMatch, cache'))
          else if mr_matches best = 0 then
            (case fallback of
               Some b \<Rightarrow> (grant jl c b, cache')
             | None \<Rightarrow> (Err NoBestMatch, cache'))
          else (Ok (mr_account best, mr_permissions best, mr_limits best, mr_maxExpiry best), cache'))"

end
