(* ===== verification/Samples.thy ===== *)
theory Samples
  imports Rbac
begin

text \<open>
  A small configuration and small implementations of the libraries' parameters, at which the
  witnesses of the properties are evaluated: an expression language with one expression, subject
  lists without duplicates, two roles and three role bindings.
\<close>

definition sample_engine :: "string expr_engine" where
  "sample_engine = \<lparr>ex_compile = (\<lambda>e ctx. if e = ''bad'' then Err (ExtErr e) else Ok e),
     ex_run = (\<lambda>p ctx. Ok (GBool (mget ctx p \<noteq> None)))\<rparr>"

definition sample_add :: "string list \<Rightarrow> string list \<Rightarrow> string list" where
  "sample_add xs ys = xs @ filter (\<lambda>y. y \<notin> set xs \<and> y \<noteq> []) ys"

definition sample_lists :: jwt_lists where
  "sample_lists = \<lparr>jl_add = sample_add, jl_cidr_add = sample_add\<rparr>"

definition sample_options :: options where
  "sample_options = \<lparr>LogLevel = ''info'', LogFormat = ''json'', LogSensitive = False,
     MetricsEnabled = False, MetricsPort = 8080, WatchConfig = False\<rparr>"

definition subjects :: "string list \<Rightarrow> string list \<Rightarrow> subject_permission" where
  "subjects a d = \<lparr>sp_Allow = a, sp_Deny = d\<rparr>"

definition sample_role :: "string \<Rightarrow> string list \<Rightarrow> string list \<Rightarrow> int \<Rightarrow> role" where
  "sample_role n a d subs = \<lparr>ro_Name = n,
     ro_Permissions = \<lparr>pm_Pub = subjects a d, pm_Sub = subjects a [], pm_Resp = \<lparr>rp_MaxMsgs = 0, rp_Expires = 0\<rparr>\<rparr>,
     ro_Limits = \<lparr>lm_User = \<lparr>ul_Src = [], ul_Times = [], ul_Locale = []\<rparr>,
                 lm_Nats = \<lparr>nl_Subs = subs, nl_Data = -1, nl_Payload = -1\<rparr>\<rparr>\<rparr>"

definition claim_is :: "string \<Rightarrow> string \<Rightarrow> match_criterion" where
  "claim_is k v = \<lparr>mc_Claim = k, mc_Value = v, mc_Permission = [], mc_Expr = []\<rparr>"

definition expr_is :: "string \<Rightarrow> match_criterion" where
  "expr_is e = \<lparr>mc_Claim = [], mc_Value = [], mc_Permission = [], mc_Expr = e\<rparr>"

definition sample_binding :: "string \<Rightarrow> string list \<Rightarrow> match_criterion list \<Rightarrow> role_binding" where
  "sample_binding a rs ms = \<lparr>rb_Account = a, rb_Roles = rs, rb_TokenMaxExpiry = 0, rb_Match = ms\<rparr>"

definition guest_binding :: role_binding where
  "guest_binding = sample_binding ''GUEST'' [''reader''] []"

definition sales_binding :: role_binding where
  "sales_binding = sample_binding ''SALES'' [''reader''] [claim_is ''team'' ''sales'', expr_is ''email'']"

definition admin_binding :: role_binding where
  "admin_binding = sample_binding ''ADMIN'' [''reader'', ''writer''] [claim_is ''team'' ''sales'', claim_is ''sub'' ''root'']"

definition sample_bounds :: duration_bounds where
  "sample_bounds = \<lparr>db_Min = 60 * second, db_Max = 3600 * second\<rparr>"

definition sample_key :: "string \<Rightarrow> keypair" where
  "sample_key pub = \<lparr>kp_PublicKey = Ok pub, kp_Open = (\<lambda>d k. Ok d), kp_Seal = (\<lambda>d k. Ok d)\<rparr>"

definition sample_idp :: idp where
  "sample_idp = \<lparr>idp_Description = ''sso'', idp_IssuerURL = ''https://sso'', idp_ClientID = ''app'',
     idp_ValidationSpec = \<lparr>vs_Claims = [''sub'', ''email''], vs_Audience = [''app''], vs_SkipAudienceValidation = False,
       vs_TokenExpiryBounds = \<lparr>db_Min = 0, db_Max = 3600 * second\<rparr>, vs_CustomClaimsMapping = []\<rparr>,
     idp_UserInfoEnabled = True, idp_TokenExpiryBounds = \<lparr>db_Min = 0, db_Max = 0\<rparr>, idp_CustomMapping = [],
     idp_IgnoreSetupError = False, idp_MaxTokenLifetime = 7200 * second, idp_ClockSkew = 60 * second\<rparr>"

definition sample_config :: "strategy \<Rightarrow> config" where
  "sample_config st = \<lparr>
     cfg_AppParams = \<lparr>cp_LeftDelim = ''{{'', cp_RightDelim = ''}}''\<rparr>,
     cfg_Server = sample_options,
     cfg_NATS = \<lparr>nats_URL = ''nats://localhost'', nats_TokenExpiryBounds = sample_bounds\<rparr>,
     cfg_Service = \<lparr>sv_Name = ''broker'', sv_Description = [], sv_Version = ''1.0.0'', sv_CredsFile = ''a.creds'',
       sv_Account = \<lparr>sa_Name = ''MINT'', sa_SigningNKey = Some (sample_key ''AMINT''), sa_XKeySeed = None\<rparr>\<rparr>,
     cfg_Idp = [sample_idp],
     cfg_Rbac = \<lparr>
       rbac_Accounts = map (\<lambda>n. \<lparr>ua_Name = n, ua_PublicKey = CHR ''A'' # n, ua_SigningNKey = Some (sample_key (CHR ''A'' # n))\<rparr>)
         [''GUEST'', ''SALES'', ''ADMIN''],
       rbac_RoleBinding = [guest_binding, sales_binding, admin_binding],
       rbac_Roles = [sample_role ''reader'' [''a.>'', ''b''] [''a.secret''] 10, sample_role ''writer'' [''b'', ''c''] [] 20],
       rbac_TokenMaxExpiry = 0, rbac_Strategy = st, rbac_AutoAccountsDir = []\<rparr>\<rparr>"

definition sample_claims :: go_map where
  "sample_claims = [(''sub'', GStr ''joe''), (''team'', GArr [GStr ''ops'', GStr ''sales'']), (''email'', GStr ''j@x'')]"

lemmas sample_defs = sample_engine_def sample_add_def sample_lists_def sample_options_def subjects_def
  sample_role_def claim_is_def expr_is_def sample_binding_def guest_binding_def sales_binding_def
  admin_binding_def sample_bounds_def sample_key_def sample_config_def sample_claims_def

end
