(* ===== verification/Config_Manager.thy ===== *)
theory Config_Manager
  imports Config_Merge Templates Rbac Samples Go_Regexp
begin

text \<open>
  The configuration manager, \<open>internal/broker/config.go\<close>: the decoding of durations and keys,
  \<open>validateSemVer\<close>, \<open>NewConfigManager\<close>, \<open>GetConfig\<close>, and \<open>discoverAccounts\<close> of
  \<open>internal/broker/config_rbac.go\<close>.
\<close>

section \<open>Code outside the repository\<close>

text \<open>
  The YAML decoder fills a \<open>Config\<close> (calling the \<open>UnmarshalYAML\<close> methods below on durations
  and keys), the validator checks its tags and reports the failing fields, \<open>nkeys.FromSeed\<close> and
  \<open>str2duration\<close> parse keys and durations.
\<close>

datatype validation = Valid | InvalidFields "string list" | ValidatorError go_error

record config_env =
  ce_yaml :: yaml_codec
  ce_decode :: "string \<Rightarrow> yaml_error + config"
  ce_validate :: "(string \<Rightarrow> bool) \<Rightarrow> config \<Rightarrow> validation"
  ce_fs :: file_system
  ce_from_seed :: "string \<Rightarrow> keypair result"

section \<open>Durations and keys\<close>

text \<open>
  A text that does not parse leaves the value as it was; the second component is the level at which
  this is logged. In the initial phase an unrendered template is expected.
\<close>

definition configPhaseInitial :: string where
  "configPhaseInitial = ''initial''"

definition configPhaseRender :: string where
  "configPhaseRender = ''render''"

definition parse_failure_level :: "string \<Rightarrow> string \<Rightarrow> log_level" where
  "parse_failure_level phase s =
     (if contains_sub s ''{{'' \<and> phase = configPhaseInitial then DebugLevel else WarnLevel)"

definition Duration_UnmarshalText ::
  "(string \<Rightarrow> int result) \<Rightarrow> string \<Rightarrow> int \<Rightarrow> string \<Rightarrow> int \<times> log_level option" where
  "Duration_UnmarshalText parse phase v text =
     (case parse text of
        Inl e \<Rightarrow> (v, Some (parse_failure_level phase text))
      | Inr d \<Rightarrow> (d, None))"

definition NKey_UnmarshalText ::
  "(string \<Rightarrow> keypair result) \<Rightarrow> string \<Rightarrow> nkey \<Rightarrow> string \<Rightarrow> nkey \<times> log_level option" where
  "NKey_UnmarshalText from_seed phase v text =
     (case from_seed (trim_space text) of
        Inl e \<Rightarrow> (v, Some (parse_failure_level phase (trim_space text)))
      | Inr k \<Rightarrow> (Some k, None))"

text \<open>What the decoder answers when it is asked for a node as a given type.\<close>

record yaml_node =
  yn_string :: "string result"
  yn_int64 :: "int result"
  yn_float64 :: "f64 result"
  yn_map :: "go_map result"
  yn_any :: "go_value result"

definition duration_of_value ::
  "go_runtime \<Rightarrow> (string \<Rightarrow> int result) \<Rightarrow> string \<Rightarrow> string \<Rightarrow> int \<Rightarrow> go_value \<Rightarrow> int result" where
  "duration_of_value rt parse phase what v x =
     (case x of
        GStr s \<Rightarrow> Ok (fst (Duration_UnmarshalText parse phase v s))
      | GInt i \<Rightarrow> Ok i
      | GI64 i \<Rightarrow> Ok i
      | GF64 f \<Rightarrow> Ok (i64_of_f64 rt f)
      | _ \<Rightarrow> Err (ExtErr (''invalid duration'' @ what @ '' type'')))"

definition duration_of_map ::
  "go_runtime \<Rightarrow> (string \<Rightarrow> int result) \<Rightarrow> string \<Rightarrow> int \<Rightarrow> go_map \<Rightarrow> int result" where
  "duration_of_map rt parse phase v m =
     (case find (\<lambda>k. mget m k \<noteq> None) [''value'', ''max'', ''min''] of
        None \<Rightarrow> Err (ExtErr ''invalid duration map keys'')
      | Some k \<Rightarrow> duration_of_value rt parse phase (CHR ''.'' # k) v (the (mget m k)))"

definition Duration_UnmarshalYAML ::
  "go_runtime \<Rightarrow> (string \<Rightarrow> int result) \<Rightarrow> string \<Rightarrow> int \<Rightarrow> yaml_node \<Rightarrow> int result" where
  "Duration_UnmarshalYAML rt parse phase v n =
     (case yn_string n of
        Inr s \<Rightarrow> Ok (fst (Duration_UnmarshalText parse phase v s))
      | Inl _ \<Rightarrow>
     (case yn_int64 n of
        Inr i \<Rightarrow> Ok i
      | Inl _ \<Rightarrow>
     (case yn_float64 n of
        Inr f \<Rightarrow> Ok (i64_of_f64 rt f)
      | Inl _ \<Rightarrow>
     (case yn_map n of
        Inr m \<Rightarrow> duration_of_map rt parse phase v m
      | Inl _ \<Rightarrow>
     (case yn_any n of
        Inl e \<Rightarrow> Err e
      | Inr x \<Rightarrow> duration_of_value rt parse phase [] v x)))))"

definition NKey_UnmarshalYAML ::
  "(string \<Rightarrow> keypair result) \<Rightarrow> string \<Rightarrow> nkey \<Rightarrow> yaml_node \<Rightarrow> nkey result" where
  "NKey_UnmarshalYAML from_seed phase v n =
     (case yn_string n of
        Inl e \<Rightarrow> Err e
      | Inr s \<Rightarrow> Ok (fst (NKey_UnmarshalText from_seed phase v s)))"

section \<open>Semantic versions\<close>

text \<open>The regular expression \<open>^v?(0|[1-9]\d*)\.(0|[1-9]\d*)\.(0|[1-9]\d*)$\<close>.\<close>

definition semver_number :: rx where
  "semver_number = Cap (Alt (Lit ''0'') (Cat (Cls (\<lambda>c. rx_digit c \<and> c \<noteq> CHR ''0'')) (Star rx_digit)))"

definition semver_rx :: rx where
  "semver_rx = Cat (Opt (Lit ''v'')) (Cat semver_number (Cat (Lit ''.'') (Cat semver_number (Cat (Lit ''.'') semver_number))))"

definition validateSemVer :: "string \<Rightarrow> bool" where
  "validateSemVer version = full_match semver_rx version"

section \<open>NewConfigManager\<close>

record ('t, 'p) config_manager =
  cm_mergedYAML :: string
  cm_baseConfig :: config
  cm_templateCache :: "'t template_cache"
  cm_exprCache :: "'p expr_cache"

definition default_delims :: "config_params \<Rightarrow> config_params" where
  "default_delims ps = guarded
     [(cp_LeftDelim ps = [], cp_LeftDelim_update (\<lambda>_. ''{{'')),
      (cp_RightDelim ps = [], cp_RightDelim_update (\<lambda>_. ''}}''))] ps"

definition default_bounds :: "duration_bounds \<Rightarrow> duration_bounds" where
  "default_bounds b = guarded
     [(db_Min b = 0, db_Min_update (\<lambda>_. DefaultTokenExpiryBoundsLower)),
      (db_Max b = 0, db_Max_update (\<lambda>_. DefaultTokenExpiryBoundsUpper))] b"

definition NewConfigManager ::
  "'t template_engine \<Rightarrow> config_env \<Rightarrow> string list \<Rightarrow> ('t, 'p) config_manager result" where
  "NewConfigManager te env files =
     (case mergeConfigurationFiles (ce_yaml env) (ce_fs env) files of
        Inl e \<Rightarrow> Err e
      | Inr merged \<Rightarrow>
          (case ce_decode env merged of
             Inl e \<Rightarrow> Err (improveYAMLErrorMessage e)
           | Inr c \<Rightarrow>
               if sv_Name (cfg_Service c) = [] then Err MissingServiceName
               else
                 let ps = default_delims (cfg_AppParams c);
                     nats = (cfg_NATS c)\<lparr>nats_TokenExpiryBounds := default_bounds (nats_TokenExpiryBounds (cfg_NATS c))\<rparr>
                 in Ok \<lparr>cm_mergedYAML = merged,
                        cm_baseConfig = c\<lparr>cfg_AppParams := ps, cfg_NATS := nats\<rparr>,
                        cm_templateCache = newTemplateCache te merged ps,
                        cm_exprCache = Some []\<rparr>))"

definition ServerOptions :: "('t, 'p) config_manager \<Rightarrow> options" where
  "ServerOptions cm = cfg_Server (cm_baseConfig cm)"

section \<open>Discovered accounts\<close>

definition pub_suffix :: string where
  "pub_suffix = ''-id-1.pub''"

definition discover_account :: "config_env \<Rightarrow> string \<Rightarrow> string \<Rightarrow> user_account_info list \<Rightarrow> user_account_info list result" where
  "discover_account env dir pubFile discovered =
     (let base = path_base pubFile; name = trim_suffix base pub_suffix;
          skFile = path_join [dir, name @ ''-sk-1.nk''] in
      if name = base then Ok discovered
      else if fs_missing (ce_fs env) skFile then Ok discovered
      else
        (case fs_read (ce_fs env) pubFile of
           Inl e \<Rightarrow> Err (Wrapped ''error reading public key for account'' e)
         | Inr pubKeyBytes \<Rightarrow>
             (case fs_read (ce_fs env) skFile of
                Inl e \<Rightarrow> Err (Wrapped ''error reading signing key for account'' e)
              | Inr skBytes \<Rightarrow>
                  Ok (discovered @
                    [\<lparr>ua_Name = name, ua_PublicKey = trim_space pubKeyBytes,
                      ua_SigningNKey = fst (NKey_UnmarshalText (ce_from_seed env) configPhaseRender None skBytes)\<rparr>]))))"

definition discoverAccounts :: "config_env \<Rightarrow> rbac \<Rightarrow> user_account_info list result" where
  "discoverAccounts env r =
     (if rbac_AutoAccountsDir r = [] then Ok []
      else
        (case fs_glob (ce_fs env) (path_join [rbac_AutoAccountsDir r, ''*-id-1.pub'']) of
           Inl e \<Rightarrow> Err (Wrapped ''error scanning auto_accounts_dir'' e)
         | Inr pubFiles \<Rightarrow> fold_result (discover_account env (rbac_AutoAccountsDir r)) pubFiles []))"

section \<open>GetConfig\<close>

definition illegalChars :: string where
  "illegalChars = [CHR '' '', CHR 0x09, CHR 0x0D, CHR 0x0A, CHR ''.'', CHR ''*'', CHR ''>'', CHR ''/'']"

definition is_illegal :: "char \<Rightarrow> bool" where
  "is_illegal c \<longleftrightarrow> c \<in> set illegalChars"

text \<open>\<open>strings.TrimFunc\<close> with a test on ASCII characters.\<close>

definition trim_func :: "(char \<Rightarrow> bool) \<Rightarrow> string \<Rightarrow> string" where
  "trim_func f s = rev (dropWhile f (rev (dropWhile f s)))"

definition sanitizeServiceName :: "string \<Rightarrow> string" where
  "sanitizeServiceName name =
     (if contains_any name illegalChars
      then trim_func is_illegal (fold (\<lambda>c s. replace_all [c] ''_'' s) illegalChars name)
      else name)"

text \<open>
  The names known before the loop are those configured; they do not grow while discovered accounts
  are appended.
\<close>

definition merge_accounts :: "user_account_info list \<Rightarrow> user_account_info list \<Rightarrow> user_account_info list" where
  "merge_accounts configured discovered =
     configured @ filter (\<lambda>a. ua_Name a \<notin> ua_Name ` set configured) discovered"

text \<open>The fields taken over from the rendered configuration.\<close>

definition take_rendered :: "config \<Rightarrow> config \<Rightarrow> config" where
  "take_rendered cfg tempCfg =
     (let sv = cfg_Service tempCfg; base = cfg_Service cfg;
          account = \<lparr>sa_Name = sa_Name (sv_Account sv),
            sa_SigningNKey = (case sa_SigningNKey (sv_Account sv) of None \<Rightarrow> sa_SigningNKey (sv_Account base) | Some k \<Rightarrow> Some k),
            sa_XKeySeed = (case sa_XKeySeed (sv_Account sv) of None \<Rightarrow> sa_XKeySeed (sv_Account base) | Some k \<Rightarrow> Some k)\<rparr>
      in cfg\<lparr>cfg_NATS := \<lparr>nats_URL = nats_URL (cfg_NATS tempCfg),
                         nats_TokenExpiryBounds = default_bounds (nats_TokenExpiryBounds (cfg_NATS tempCfg))\<rparr>,
             cfg_Service := \<lparr>sv_Name = sanitizeServiceName (sv_Name sv), sv_Description = sv_Description sv,
                            sv_Version = sv_Version sv, sv_CredsFile = sv_CredsFile sv, sv_Account = account\<rparr>,
             cfg_Idp := cfg_Idp tempCfg,
             cfg_Rbac := cfg_Rbac tempCfg\<rparr>)"

definition add_discovered :: "config_env \<Rightarrow> config \<Rightarrow> config result" where
  "add_discovered env cfg =
     (if rbac_AutoAccountsDir (cfg_Rbac cfg) = [] then Ok cfg
      else
        (case discoverAccounts env (cfg_Rbac cfg) of
           Inl e \<Rightarrow> Err (Wrapped ''auto-account discovery failed'' e)
         | Inr discovered \<Rightarrow>
             Ok (cfg\<lparr>cfg_Rbac := (cfg_Rbac cfg)\<lparr>rbac_Accounts :=
               merge_accounts (rbac_Accounts (cfg_Rbac cfg)) discovered\<rparr>\<rparr>)))"

definition GetConfig ::
  "'t template_engine \<Rightarrow> config_env \<Rightarrow> ('t, 'p) config_manager \<Rightarrow> go_map \<Rightarrow> config result" where
  "GetConfig te env cm mappings =
     (case ce_decode env (renderAll te (cm_templateCache cm) (cm_mergedYAML cm) mappings) of
        Inl e \<Rightarrow> Err (improveYAMLErrorMessage e)
      | Inr tempCfg \<Rightarrow>
          let cfg = take_rendered (cm_baseConfig cm) tempCfg in
          (case ce_validate env validateSemVer cfg of
             InvalidFields fs \<Rightarrow> Err (ValidationFailed fs)
           | ValidatorError e \<Rightarrow> Err e
           | Valid \<Rightarrow> add_discovered env cfg))"

definition natsOptions :: "config \<Rightarrow> string list" where
  "natsOptions c = (if sv_CredsFile (cfg_Service c) \<noteq> [] then [sv_CredsFile (cfg_Service c)] else [])"

definition serviceEncryptionXkey :: "config \<Rightarrow> nkey" where
  "serviceEncryptionXkey c = sa_XKeySeed (sv_Account (cfg_Service c))"

section \<open>Lemmas: semantic versions\<close>

lemma show_nat_small: "n < 10 \<Longrightarrow> show_nat n = [char_of (48 + n)]"
  by (subst show_nat.simps) simp

lemma show_nat_step: "0 < m \<Longrightarrow> d < 10 \<Longrightarrow> show_nat (10 * m + d) = show_nat m @ [char_of (48 + d)]"
  by (subst show_nat.simps) simp

lemma char_zero: "char_of (48 :: nat) = CHR ''0''"
  by code_simp

lemma hd_show_nat: "0 < n \<Longrightarrow> hd (show_nat n) \<noteq> CHR ''0''"
proof (induction n rule: show_nat.induct)
  case (1 n)
  show ?case
  proof (cases "n < 10")
    case True
    have "(char_of (48 + n) = CHR ''0'') = (n = 0)"
    proof
      assume "char_of (48 + n) = CHR ''0''"
      then have "of_char (char_of (48 + n) :: char) = (48 :: nat)" by simp
      with True show "n = 0" by simp
    qed (simp add: char_zero)
    with 1 True show ?thesis by (simp add: show_nat_small)
  next
    case False
    with 1 have "hd (show_nat (n div 10)) \<noteq> CHR ''0''" by simp
    with False show_nat_nonempty [of "n div 10"] show ?thesis
      by (subst show_nat.simps) (simp add: hd_append)
  qed
qed

lemma is_digit_char: "is_digit c \<Longrightarrow> \<exists>d<10. c = char_of (48 + d :: nat)"
  by (rule exI [of _ "of_char c - 48"]) (auto simp: is_digit_def)

definition numeric_identifier :: "string \<Rightarrow> bool" where
  "numeric_identifier s \<longleftrightarrow> s = ''0'' \<or> (s \<noteq> [] \<and> hd s \<noteq> CHR ''0'' \<and> list_all is_digit s)"

lemma numeric_show_nat: "numeric_identifier (show_nat n)"
proof (cases "n = 0")
  case True
  then show ?thesis by (simp add: numeric_identifier_def show_nat_small char_zero)
next
  case False
  then show ?thesis
    using show_nat_nonempty hd_show_nat show_nat_digits by (simp add: numeric_identifier_def list_all_iff)
qed

lemma numeral_is_show_nat:
  "s \<noteq> [] \<Longrightarrow> hd s \<noteq> CHR ''0'' \<Longrightarrow> list_all is_digit s \<Longrightarrow> \<exists>n>0. s = show_nat n"
proof (induction s rule: rev_induct)
  case (snoc c s)
  from snoc.prems obtain d :: nat where d: "d < 10" "c = char_of (48 + d)" using is_digit_char by fastforce
  show ?case
  proof (cases "s = []")
    case True
    with snoc.prems d have "0 < d" by (cases "d = 0") (simp_all add: char_zero)
    with True d show ?thesis by (intro exI [of _ d]) (simp add: show_nat_small)
  next
    case False
    with snoc obtain m where "0 < m" "s = show_nat m" by auto
    with d show ?thesis by (intro exI [of _ "10 * m + d"]) (simp add: show_nat_step)
  qed
qed simp

lemma numeric_identifier_iff: "numeric_identifier s \<longleftrightarrow> (\<exists>n. s = show_nat n)"
proof
  assume n: "numeric_identifier s"
  show "\<exists>n. s = show_nat n"
  proof (cases "s = ''0''")
    case True
    then show ?thesis by (intro exI [of _ 0]) (simp add: show_nat_small char_zero)
  next
    case False
    with n numeral_is_show_nat [of s] show ?thesis by (auto simp: numeric_identifier_def)
  qed
qed (auto simp: numeric_show_nat)

lemma semver_number_lang: "rx_lang semver_number m cs \<longleftrightarrow> numeric_identifier m \<and> cs = [m]"
proof -
  have d: "rx_digit = is_digit" by (rule ext) (simp add: rx_digit_def)
  show ?thesis
    unfolding semver_number_def rx_lang.simps(7,8) rx_lang_some d
    by (cases m) (auto simp: numeric_identifier_def)
qed

lemma rx_lang_Ex:
  "(\<exists>cs. rx_lang (Cat x y) m cs) \<longleftrightarrow> (\<exists>m1 m2. m = m1 @ m2 \<and> (\<exists>cs. rx_lang x m1 cs) \<and> (\<exists>cs. rx_lang y m2 cs))"
  "(\<exists>cs. rx_lang (Lit l) m cs) \<longleftrightarrow> m = l"
  "(\<exists>cs. rx_lang (Opt (Lit l)) m cs) \<longleftrightarrow> m \<in> {[], l}"
  "(\<exists>cs. rx_lang semver_number m cs) \<longleftrightarrow> numeric_identifier m"
  by (auto simp: semver_number_lang; blast)+

lemma validateSemVer_iff:
  "validateSemVer s \<longleftrightarrow> (\<exists>p a b c. p \<in> {[], ''v''} \<and> s = p @ show_nat a @ ''.'' @ show_nat b @ ''.'' @ show_nat c)"
  unfolding validateSemVer_def full_match_iff semver_rx_def rx_lang_Ex numeric_identifier_iff
  by (simp only: ex_simps [symmetric] simp_thms) blast

section \<open>Lemmas: the service name\<close>

definition subject_token :: "string \<Rightarrow> string" where
  "subject_token name = map (\<lambda>c. if is_illegal c then CHR ''_'' else c) name"

lemma fold_replace:
  "CHR ''_'' \<notin> set cs \<Longrightarrow>
   fold (\<lambda>c s. replace_all [c] ''_'' s) cs name = map (\<lambda>c. if c \<in> set cs then CHR ''_'' else c) name"
proof (induction cs arbitrary: name)
  case (Cons c cs)
  then show ?case by (auto simp: replace_all_char)
qed simp

lemma underscore_legal: "\<not> is_illegal CHR ''_''"
  by (simp add: is_illegal_def illegalChars_def)

lemma subject_token_legal: "c \<in> set (subject_token name) \<Longrightarrow> \<not> is_illegal c"
proof -
  assume "c \<in> set (subject_token name)"
  then obtain d where "c = (if is_illegal d then CHR ''_'' else d)"
    unfolding subject_token_def set_map by blast
  then show "\<not> is_illegal c" by (cases "is_illegal d") (simp_all only: underscore_legal if_True if_False not_False_eq_True)
qed

lemma dropWhile_none: "\<forall>c\<in>set s. \<not> f c \<Longrightarrow> dropWhile f s = s"
  by (cases s) simp_all

lemma trim_func_id: "\<forall>c\<in>set s. \<not> f c \<Longrightarrow> trim_func f s = s"
proof -
  assume s: "\<forall>c\<in>set s. \<not> f c"
  then have "dropWhile f s = s" by (rule dropWhile_none)
  moreover from s have "dropWhile f (rev s) = rev s" by (intro dropWhile_none) simp
  ultimately show ?thesis by (simp add: trim_func_def)
qed

lemma sanitize_eq: "sanitizeServiceName name = subject_token name"
proof (cases "contains_any name illegalChars")
  case True
  have "CHR ''_'' \<notin> set illegalChars" using underscore_legal by (simp add: is_illegal_def)
  then have "fold (\<lambda>c s. replace_all [c] ''_'' s) illegalChars name = subject_token name"
    by (simp add: fold_replace subject_token_def is_illegal_def)
  with True show ?thesis
    by (simp add: sanitizeServiceName_def trim_func_id subject_token_legal)
next
  case False
  then have "subject_token name = name"
    by (auto simp: subject_token_def contains_any_def is_illegal_def intro!: map_idI)
  with False show ?thesis by (simp add: sanitizeServiceName_def)
qed

section \<open>Lemmas: GetConfig\<close>

lemma default_bounds_nonzero: "db_Min (default_bounds b) \<noteq> 0 \<and> db_Max (default_bounds b) \<noteq> 0"
  by (simp add: default_bounds_def DefaultTokenExpiryBoundsLower_def DefaultTokenExpiryBoundsUpper_def)

lemma add_discovered_fields:
  "add_discovered env cfg = Ok c \<Longrightarrow>
   cfg_NATS c = cfg_NATS cfg \<and> cfg_Service c = cfg_Service cfg \<and> cfg_Idp c = cfg_Idp cfg
   \<and> cfg_Server c = cfg_Server cfg \<and> cfg_AppParams c = cfg_AppParams cfg
   \<and> (\<exists>found. rbac_Accounts (cfg_Rbac c) = rbac_Accounts (cfg_Rbac cfg) @ found
        \<and> (\<forall>a\<in>set found. ua_Name a \<notin> ua_Name ` set (rbac_Accounts (cfg_Rbac cfg))))
   \<and> rbac_RoleBinding (cfg_Rbac c) = rbac_RoleBinding (cfg_Rbac cfg)
   \<and> rbac_Roles (cfg_Rbac c) = rbac_Roles (cfg_Rbac cfg)"
  by (auto simp: add_discovered_def merge_accounts_def split: if_splits sum.splits)

lemma GetConfig_OkE:
  assumes "GetConfig te env cm mappings = Ok c"
  obtains temp where "ce_decode env (renderAll te (cm_templateCache cm) (cm_mergedYAML cm) mappings) = Inr temp"
    and "ce_validate env validateSemVer (take_rendered (cm_baseConfig cm) temp) = Valid"
    and "add_discovered env (take_rendered (cm_baseConfig cm) temp) = Ok c"
  using assms by (auto simp: GetConfig_def Let_def split: sum.splits validation.splits)

lemma discover_account_cases:
  assumes "discover_account env dir f ds = Ok ds'"
  shows "ds' = ds \<or> (\<exists>name pub sk. path_base f = name @ pub_suffix \<and> fs_read (ce_fs env) f = Ok pub
    \<and> fs_read (ce_fs env) (path_join [dir, name @ ''-sk-1.nk'']) = Ok sk
    \<and> \<not> fs_missing (ce_fs env) (path_join [dir, name @ ''-sk-1.nk''])
    \<and> ds' = ds @ [\<lparr>ua_Name = name, ua_PublicKey = trim_space pub,
         ua_SigningNKey = (case ce_from_seed env (trim_space sk) of Inl _ \<Rightarrow> None | Inr k \<Rightarrow> Some k)\<rparr>])"
proof (cases "trim_suffix (path_base f) pub_suffix = path_base f")
  case True
  with assms show ?thesis by (simp add: discover_account_def)
next
  case False
  moreover have "pub_suffix \<noteq> []" by (simp add: pub_suffix_def)
  ultimately obtain name where n: "path_base f = name @ pub_suffix"
    by (auto simp: trim_suffix_eq_iff has_suffix_iff)
  let ?sk = "path_join [dir, name @ ''-sk-1.nk'']"
  have d: "discover_account env dir f ds =
      (if fs_missing (ce_fs env) ?sk then Ok ds
       else case fs_read (ce_fs env) f of
           Inl e \<Rightarrow> Err (Wrapped ''error reading public key for account'' e)
         | Inr pub \<Rightarrow>
             (case fs_read (ce_fs env) ?sk of
                Inl e \<Rightarrow> Err (Wrapped ''error reading signing key for account'' e)
              | Inr sk \<Rightarrow>
                  Ok (ds @ [\<lparr>ua_Name = name, ua_PublicKey = trim_space pub,
                    ua_SigningNKey = (case ce_from_seed env (trim_space sk) of Inl _ \<Rightarrow> None | Inr k \<Rightarrow> Some k)\<rparr>])))"
    using False by (simp add: discover_account_def n NKey_UnmarshalText_def split: sum.split)
  show ?thesis
  proof (cases "fs_missing (ce_fs env) ?sk")
    case True
    with assms d show ?thesis by simp
  next
    case here: False
    with assms d obtain pub sk where r: "fs_read (ce_fs env) f = Ok pub" "fs_read (ce_fs env) ?sk = Ok sk"
      by (auto split: sum.splits)
    with assms d here n show ?thesis by (intro disjI2 exI [of _ name] exI [of _ pub] exI [of _ sk]) simp
  qed
qed

definition read_pair :: "config_env \<Rightarrow> string \<Rightarrow> string list \<Rightarrow> user_account_info \<Rightarrow> bool" where
  "read_pair env dir files a \<longleftrightarrow>
     (\<exists>f\<in>set files. path_base f = ua_Name a @ pub_suffix
        \<and> (\<exists>pub. fs_read (ce_fs env) f = Ok pub \<and> ua_PublicKey a = trim_space pub)
        \<and> \<not> fs_missing (ce_fs env) (path_join [dir, ua_Name a @ ''-sk-1.nk''])
        \<and> (\<exists>sk. fs_read (ce_fs env) (path_join [dir, ua_Name a @ ''-sk-1.nk'']) = Ok sk
             \<and> ua_SigningNKey a = (case ce_from_seed env (trim_space sk) of Inl _ \<Rightarrow> None | Inr k \<Rightarrow> Some k)))"

lemma discover_loop:
  "fold_result (discover_account env dir) files ds = Ok ds' \<Longrightarrow>
   a \<in> set ds' \<Longrightarrow> a \<in> set ds \<or> read_pair env dir files a"
proof (induction files arbitrary: ds)
  case (Cons f files)
  then obtain d1 where d1: "discover_account env dir f ds = Ok d1"
    "fold_result (discover_account env dir) files d1 = Ok ds'" by (auto split: sum.splits)
  from Cons.IH [OF d1(2) Cons.prems(2)] have "a \<in> set d1 \<or> read_pair env dir (f # files) a"
    by (auto simp: read_pair_def)
  moreover from discover_account_cases [OF d1(1)] have "a \<in> set d1 \<Longrightarrow> a \<in> set ds \<or> read_pair env dir (f # files) a"
    by (auto simp: read_pair_def)
  ultimately show ?case by blast
qed simp

section \<open>A sample environment\<close>

definition sample_temp :: config where
  "sample_temp = (let c = sample_config StrategyStrict
     in c\<lparr>cfg_Rbac := (cfg_Rbac c)\<lparr>rbac_AutoAccountsDir := ''/acc''\<rparr>,
          cfg_Service := (cfg_Service c)\<lparr>sv_Name := ''my.broker*''\<rparr>\<rparr>)"

definition sample_accounts_fs :: file_system where
  "sample_accounts_fs = sample_fs\<lparr>fs_glob := (\<lambda>p. Ok [''/acc/NEW-id-1.pub'', ''/acc/ADMIN-id-1.pub''])\<rparr>"

definition sample_env :: config_env where
  "sample_env = \<lparr>ce_yaml = sample_yaml, ce_decode = (\<lambda>s. Inr sample_temp),
     ce_validate = (\<lambda>semver c. if semver (sv_Version (cfg_Service c)) then Valid else InvalidFields [''Version'']),
     ce_fs = sample_accounts_fs, ce_from_seed = (\<lambda>s. Ok (sample_key s))\<rparr>"

definition sample_manager :: "(string, string) config_manager" where
  "sample_manager = \<lparr>cm_mergedYAML = ''a: 1'', cm_baseConfig = sample_config StrategyStrict,
     cm_templateCache = newTemplateCache sample_templates ''a: 1'' \<lparr>cp_LeftDelim = ''{{'', cp_RightDelim = ''}}''\<rparr>,
     cm_exprCache = Some []\<rparr>"

lemma sample_semver: "validateSemVer ''1.0.0''"
  by code_simp

lemma sample_discover: "\<exists>ds'. fold_result (discover_account sample_env dir) fs ds = Ok ds'"
proof (induction fs arbitrary: ds)
  case (Cons f fs)
  have "\<exists>d1. discover_account sample_env dir f ds = Ok d1"
    by (simp add: discover_account_def Let_def sample_env_def sample_accounts_fs_def sample_fs_def)
  with Cons show ?case by auto
qed simp

lemma sample_get_config: "\<exists>c. GetConfig sample_templates sample_env sample_manager [] = Ok c"
proof -
  have "sv_Version (cfg_Service (take_rendered (cm_baseConfig sample_manager) sample_temp)) = ''1.0.0''"
    by (simp add: take_rendered_def Let_def sample_temp_def sample_config_def)
  then have v: "ce_validate sample_env validateSemVer (take_rendered (cm_baseConfig sample_manager) sample_temp) = Valid"
    by (simp add: sample_env_def sample_semver)
  have glob: "fs_glob (ce_fs sample_env) p = Ok [''/acc/NEW-id-1.pub'', ''/acc/ADMIN-id-1.pub'']" for p
    by (simp add: sample_env_def sample_accounts_fs_def)
  have "\<exists>ds. discoverAccounts sample_env r = Ok ds" for r
  proof (cases "rbac_AutoAccountsDir r = []")
    case False
    with sample_discover show ?thesis by (simp add: discoverAccounts_def glob del: fold_result.simps)
  qed (simp add: discoverAccounts_def)
  then obtain ds where "discoverAccounts sample_env
      (cfg_Rbac (take_rendered (cm_baseConfig sample_manager) sample_temp)) = Ok ds" by blast
  then have "\<exists>c. add_discovered sample_env (take_rendered (cm_baseConfig sample_manager) sample_temp) = Ok c"
    by (simp add: add_discovered_def)
  moreover have "ce_decode sample_env s = Inr sample_temp" for s by (simp add: sample_env_def)
  ultimately show ?thesis using v by (simp add: GetConfig_def Let_def)
qed

text \<open>An environment in which nothing is discovered: every rendering is the sample configuration.\<close>

definition sample_plain_env :: config_env where
  "sample_plain_env = sample_env\<lparr>ce_decode := (\<lambda>s. Inr (sample_config StrategyStrict))\<rparr>"

lemma sample_get_config_from:
  assumes "cm_baseConfig cm = sample_config StrategyStrict"
  shows "GetConfig sample_templates sample_plain_env cm m = Ok (sample_config StrategyStrict)"
proof -
  have same: "take_rendered (cm_baseConfig cm) (sample_config StrategyStrict) = sample_config StrategyStrict"
  proof -
    have "sanitizeServiceName ''broker'' = ''broker''" by code_simp
    then show ?thesis
      by (simp add: take_rendered_def Let_def assms sample_config_def default_bounds_def sample_bounds_def)
  qed
  have "ce_validate sample_plain_env validateSemVer (sample_config StrategyStrict) = Valid"
    by (simp add: sample_plain_env_def sample_env_def sample_semver sample_config_def)
  moreover have "add_discovered e (sample_config StrategyStrict) = Ok (sample_config StrategyStrict)" for e
    by (simp add: add_discovered_def sample_config_def)
  moreover have "ce_decode sample_plain_env t = Inr (sample_config StrategyStrict)" for t
    by (simp add: sample_plain_env_def)
  ultimately show ?thesis by (simp add: GetConfig_def Let_def same)
qed

lemma sample_get_config_same:
  "GetConfig sample_templates sample_plain_env sample_manager m = Ok (sample_config StrategyStrict)"
  by (rule sample_get_config_from) (simp add: sample_manager_def)

lemma sample_new_manager:
  "\<exists>cm :: (string, string) config_manager.
     NewConfigManager sample_templates sample_plain_env [''base'', ''overlay''] = Ok cm
     \<and> cm_baseConfig cm = sample_config StrategyStrict \<and> cm_exprCache cm = Some []"
proof -
  have "documents sample_yaml sample_accounts_fs [''base'', ''overlay''] = Ok [Some base_doc, Some overlay_doc]"
    by (simp add: documents_def load_files_def load_file_def expand_pattern_def contains_any_def
        sample_yaml_def sample_fs_def sample_accounts_fs_def)
  then have "mergeConfigurationFiles sample_yaml sample_accounts_fs [''base'', ''overlay''] =
      (case yc_marshal sample_yaml (foldl merge_maps None [Some base_doc, Some overlay_doc]) of
         Inl e \<Rightarrow> Err (Wrapped ''error marshalling merged config to YAML'' e)
       | Inr text \<Rightarrow> Ok text)"
    by (simp only: mergeConfigurationFiles_def merge_files_documents merge_all_def sum.case)
  also have "\<dots> = Ok ''merged''"
    by (simp add: merge_maps_def sample_yaml_def)
  finally have "mergeConfigurationFiles sample_yaml sample_accounts_fs [''base'', ''overlay''] = Ok ''merged''" .
  then show ?thesis
    by (simp add: NewConfigManager_def Let_def sample_plain_env_def sample_env_def)
      (simp add: sample_config_def default_delims_def default_bounds_def sample_bounds_def)
qed

section \<open>Properties\<close>

text \<open>
  \<open>validateSemVer\<close> accepts exactly three decimal numbers without leading zeros,
  separated by dots, after at most one \<open>v\<close>.
\<close>

lemma validate_semver_exact:
  "validateSemVer s \<longleftrightarrow>
     (\<exists>p a b c. p \<in> {[], ''v''} \<and> s = p @ show_nat a @ ''.'' @ show_nat b @ ''.'' @ show_nat c)"
  by (rule validateSemVer_iff)

text \<open>
  Property C29. What every configuration handed to a request satisfies: the service name is the
  rendered one with each character that is illegal in a NATS subject replaced by an underscore (so
  it keeps its length and none is left, also not at its ends), the expiry bounds are set, a
  signing key or an encryption key read at start-up is never lost by rendering, and the server
  options and delimiters are those of start-up.
\<close>

theorem get_config_well_formed:
  assumes "GetConfig te env cm mappings = Ok c"
  shows "(\<exists>temp. ce_decode env (renderAll te (cm_templateCache cm) (cm_mergedYAML cm) mappings) = Inr temp
      \<and> sv_Name (cfg_Service c) = map (\<lambda>x. if is_illegal x then CHR ''_'' else x) (sv_Name (cfg_Service temp))
      \<and> cfg_Idp c = cfg_Idp temp)
    \<and> (\<forall>x\<in>set (sv_Name (cfg_Service c)). \<not> is_illegal x)
    \<and> db_Min (nats_TokenExpiryBounds (cfg_NATS c)) \<noteq> 0 \<and> db_Max (nats_TokenExpiryBounds (cfg_NATS c)) \<noteq> 0
    \<and> (sa_SigningNKey (sv_Account (cfg_Service (cm_baseConfig cm))) \<noteq> None \<longrightarrow>
         sa_SigningNKey (sv_Account (cfg_Service c)) \<noteq> None)
    \<and> (serviceEncryptionXkey (cm_baseConfig cm) \<noteq> None \<longrightarrow> serviceEncryptionXkey c \<noteq> None)
    \<and> cfg_Server c = ServerOptions cm \<and> cfg_AppParams c = cfg_AppParams (cm_baseConfig cm)"
proof -
  obtain temp where t: "ce_decode env (renderAll te (cm_templateCache cm) (cm_mergedYAML cm) mappings) = Inr temp"
    and a: "add_discovered env (take_rendered (cm_baseConfig cm) temp) = Ok c"
    using assms by (rule GetConfig_OkE)
  note f = add_discovered_fields [OF a]
  have name: "sv_Name (cfg_Service c) = subject_token (sv_Name (cfg_Service temp))"
    using f by (simp add: take_rendered_def Let_def sanitize_eq)
  have "\<forall>x\<in>set (sv_Name (cfg_Service c)). \<not> is_illegal x"
    unfolding name using subject_token_legal by blast
  moreover have "db_Min (nats_TokenExpiryBounds (cfg_NATS c)) \<noteq> 0 \<and> db_Max (nats_TokenExpiryBounds (cfg_NATS c)) \<noteq> 0"
    using f default_bounds_nonzero by (simp add: take_rendered_def Let_def)
  moreover have "cfg_Idp c = cfg_Idp temp" "cfg_Server c = ServerOptions cm"
    "cfg_AppParams c = cfg_AppParams (cm_baseConfig cm)"
    using f by (simp_all add: take_rendered_def Let_def ServerOptions_def)
  moreover have "sa_SigningNKey (sv_Account (cfg_Service (cm_baseConfig cm))) \<noteq> None \<longrightarrow>
      sa_SigningNKey (sv_Account (cfg_Service c)) \<noteq> None"
    "serviceEncryptionXkey (cm_baseConfig cm) \<noteq> None \<longrightarrow> serviceEncryptionXkey c \<noteq> None"
    using f by (auto simp: take_rendered_def Let_def serviceEncryptionXkey_def split: option.splits)
  moreover note t name [unfolded subject_token_def]
  ultimately show ?thesis by blast
qed

theorem get_config_well_formed_witness:
  "\<exists>c. GetConfig sample_templates sample_env sample_manager [] = Ok c
     \<and> sv_Name (cfg_Service c) = ''my_broker_'' \<and> sa_SigningNKey (sv_Account (cfg_Service c)) \<noteq> None"
proof -
  obtain c where c: "GetConfig sample_templates sample_env sample_manager [] = Ok c"
    using sample_get_config by blast
  have d: "ce_decode sample_env s = Inr sample_temp" for s
    by (simp add: sample_env_def)
  have n: "map (\<lambda>x. if is_illegal x then CHR ''_'' else x) (sv_Name (cfg_Service sample_temp)) = ''my_broker_''"
    by code_simp
  have "sa_SigningNKey (sv_Account (cfg_Service (cm_baseConfig sample_manager))) \<noteq> None"
    by (simp add: sample_manager_def sample_config_def)
  with get_config_well_formed [OF c] d n have "sv_Name (cfg_Service c) = ''my_broker_''"
    "sa_SigningNKey (sv_Account (cfg_Service c)) \<noteq> None" by auto
  with c show ?thesis by blast
qed

text \<open>
  Property C30. Discovered accounts never shadow configured ones: whatever the accounts directory
  holds, a name in the configuration still resolves to the configured keys, and a further account
  comes from a pair of key files in the directory with its name, the public key being the text of
  the first file without surrounding white space.
\<close>

theorem discovered_accounts_do_not_shadow:
  assumes "GetConfig te env cm mappings = Ok c"
  shows "\<exists>temp. ce_decode env (renderAll te (cm_templateCache cm) (cm_mergedYAML cm) mappings) = Inr temp
    \<and> (\<forall>name info. lookupAccountInfo temp name = Ok info \<longrightarrow> lookupAccountInfo c name = Ok info)
    \<and> (\<forall>a\<in>set (rbac_Accounts (cfg_Rbac c)). a \<in> set (rbac_Accounts (cfg_Rbac temp))
        \<or> (\<exists>files. fs_glob (ce_fs env) (path_join [rbac_AutoAccountsDir (cfg_Rbac temp), ''*-id-1.pub'']) = Ok files
            \<and> read_pair env (rbac_AutoAccountsDir (cfg_Rbac temp)) files a))"
proof -
  obtain temp where t: "ce_decode env (renderAll te (cm_templateCache cm) (cm_mergedYAML cm) mappings) = Inr temp"
    and a: "add_discovered env (take_rendered (cm_baseConfig cm) temp) = Ok c"
    using assms by (rule GetConfig_OkE)
  have rb: "cfg_Rbac (take_rendered (cm_baseConfig cm) temp) = cfg_Rbac temp"
    by (simp add: take_rendered_def Let_def)
  obtain found where f: "rbac_Accounts (cfg_Rbac c) = rbac_Accounts (cfg_Rbac temp) @ found"
    using add_discovered_fields [OF a] rb by auto
  have "find P xs = Some x \<Longrightarrow> find P (xs @ ys) = Some x" for P and xs ys :: "user_account_info list" and x
    by (induction xs) auto
  then have "\<forall>name info. lookupAccountInfo temp name = Ok info \<longrightarrow> lookupAccountInfo c name = Ok info"
    by (auto simp: lookupAccountInfo_def f split: option.splits)
  moreover have "\<forall>x\<in>set (rbac_Accounts (cfg_Rbac c)). x \<in> set (rbac_Accounts (cfg_Rbac temp))
        \<or> (\<exists>files. fs_glob (ce_fs env) (path_join [rbac_AutoAccountsDir (cfg_Rbac temp), ''*-id-1.pub'']) = Ok files
            \<and> read_pair env (rbac_AutoAccountsDir (cfg_Rbac temp)) files x)"
  proof (cases "rbac_AutoAccountsDir (cfg_Rbac temp) = []")
    case True
    with a rb show ?thesis by (simp add: add_discovered_def)
  next
    case False
    with a rb obtain ds where ds: "discoverAccounts env (cfg_Rbac temp) = Ok ds"
      and c: "rbac_Accounts (cfg_Rbac c) = merge_accounts (rbac_Accounts (cfg_Rbac temp)) ds"
      by (auto simp: add_discovered_def split: sum.splits)
    from ds False obtain files where
      fl: "fs_glob (ce_fs env) (path_join [rbac_AutoAccountsDir (cfg_Rbac temp), ''*-id-1.pub'']) = Ok files"
      and loop: "fold_result (discover_account env (rbac_AutoAccountsDir (cfg_Rbac temp))) files [] = Ok ds"
      by (auto simp: discoverAccounts_def split: sum.splits)
    from discover_loop [OF loop] fl c show ?thesis by (auto simp: merge_accounts_def)
  qed
  ultimately show ?thesis using t by blast
qed

theorem discovered_accounts_do_not_shadow_witness:
  "\<exists>c info. GetConfig sample_templates sample_env sample_manager [] = Ok c
     \<and> lookupAccountInfo c ''ADMIN'' = Ok info \<and> ua_PublicKey info = ''AADMIN''"
proof -
  obtain c where c: "GetConfig sample_templates sample_env sample_manager [] = Ok c"
    using sample_get_config by blast
  have d: "ce_decode sample_env s = Inr sample_temp" for s
    by (simp add: sample_env_def)
  have "\<exists>info. lookupAccountInfo sample_temp ''ADMIN'' = Ok info \<and> ua_PublicKey info = ''AADMIN''"
    by (simp add: lookupAccountInfo_def sample_temp_def sample_config_def)
  with discovered_accounts_do_not_shadow [OF c] d c show ?thesis by fastforce
qed

end
