(* ===== verification/Idp_Verifier.thy ===== *)
theory Idp_Verifier
  imports Samples
begin

text \<open>
  Verifying a token, \<open>internal/broker/idp_jwt_verifier.go\<close>: the verifiers built at start-up, the
  checks one verifier makes, the loop \<open>runVerification\<close> over them and the user-info request.
  The OpenID Connect library is the environment's: an \<open>id_token\<close> is what its calls on a verified
  token answer. Verification of one token reads the clock as \<open>now\<close>.
\<close>

section \<open>The OIDC library\<close>

text \<open>
  \<open>it_claims_map\<close> and \<open>it_claims_struct\<close> are \<open>IDToken.Claims\<close> on a map and on an
  \<open>IdpJwtClaims\<close>; \<open>pv_userinfo\<close> is \<open>Provider.UserInfo\<close> and \<open>pv_userinfo_claims\<close> the
  \<open>Claims\<close> of its answer.
\<close>

record id_token =
  it_IssuedAt :: int
  it_Expiry :: int
  it_claims_map :: "go_map result"
  it_claims_struct :: "idp_claims result"
  it_verify_access :: "string \<Rightarrow> unit result"

record oidc_provider =
  pv_verify :: "string \<Rightarrow> string \<Rightarrow> id_token result"
  pv_userinfo :: "string \<Rightarrow> unit result"
  pv_userinfo_claims :: "string \<Rightarrow> go_map result"

section \<open>Verifiers\<close>

record jwt_verifier =
  jv_clientID :: string
  jv_provider :: oidc_provider
  jv_issuerURL :: string
  jv_MaxTokenLifetime :: int
  jv_ClockSkew :: int

type_synonym idp_verifier = "jwt_verifier \<times> idp"

definition DefaultMaxTokenLifetime :: int where
  "DefaultMaxTokenLifetime = 24 * 3600 * second"

definition DefaultClockSkew :: int where
  "DefaultClockSkew = 300 * second"

definition NewJwtVerifier ::
  "(string \<Rightarrow> oidc_provider result) \<Rightarrow> string \<Rightarrow> string \<Rightarrow> int \<Rightarrow> int \<Rightarrow> jwt_verifier result" where
  "NewJwtVerifier newProvider clientID issuerURL maxTokenLifetime clockSkew =
     (let maxLife = (if maxTokenLifetime \<le> 0 then DefaultMaxTokenLifetime else maxTokenLifetime);
          skew = (if clockSkew \<le> 0 then DefaultClockSkew else clockSkew)
      in case newProvider issuerURL of
           Inl e \<Rightarrow> Err e
         | Inr p \<Rightarrow> Ok \<lparr>jv_clientID = clientID, jv_provider = p, jv_issuerURL = issuerURL,
                     jv_MaxTokenLifetime = maxLife, jv_ClockSkew = skew\<rparr>)"

definition add_verifier ::
  "(string \<Rightarrow> oidc_provider result) \<Rightarrow> idp \<Rightarrow> idp_verifier list \<Rightarrow> idp_verifier list result" where
  "add_verifier newProvider i verifiers =
     (case NewJwtVerifier newProvider (idp_ClientID i) (idp_IssuerURL i) (idp_MaxTokenLifetime i) (idp_ClockSkew i) of
        Inl e \<Rightarrow> if idp_IgnoreSetupError i then Ok verifiers
                 else Err (Wrapped ''failed to setup verifier for IDP'' e)
      | Inr v \<Rightarrow> Ok (verifiers @ [(v, i)]))"

definition NewIdpVerifiers :: "(string \<Rightarrow> oidc_provider result) \<Rightarrow> config \<Rightarrow> idp_verifier list result" where
  "NewIdpVerifiers newProvider c = fold_result (add_verifier newProvider) (cfg_Idp c) []"

section \<open>The checks\<close>

text \<open>
  The sums cannot overflow: the expiry is at most \<open>now + MaxTokenLifetime\<close> when the skew is added.
\<close>

definition ValidateTimes :: "go_runtime \<Rightarrow> int \<Rightarrow> jwt_verifier \<Rightarrow> int \<Rightarrow> int \<Rightarrow> unit result" where
  "ValidateTimes rt now v issuedAt expiry =
     (if unix_of issuedAt < 1 then Err MissingIssuedAt
      else if unix_of expiry < 1 then Err MissingExpiry
      else if unix_of expiry > unix_of now + seconds_i64 rt (jv_MaxTokenLifetime v) then Err ExpiryTooFar
      else if unix_of now < unix_of issuedAt - seconds_i64 rt (jv_ClockSkew v) then Err TokenTooEarly
      else if unix_of now > unix_of expiry + seconds_i64 rt (jv_ClockSkew v) then Err TokenTooLate
      else Ok ())"

definition verifyJWT ::
  "go_runtime \<Rightarrow> int \<Rightarrow> jwt_verifier \<Rightarrow> string \<Rightarrow> (string \<times> string) list \<Rightarrow> (idp_claims \<times> id_token) result outcome" where
  "verifyJWT rt now v token customMapping =
     (case pv_verify (jv_provider v) (jv_clientID v) token of
        Inl e \<Rightarrow> Done (Err e)
      | Inr idToken \<Rightarrow>
          (case it_claims_map idToken of
             Inl e \<Rightarrow> Done (Err e)
           | Inr rawClaims \<Rightarrow>
               (case it_claims_struct idToken of
                  Inl e \<Rightarrow> Done (Err e)
                | Inr claims0 \<Rightarrow>
                    bind_outcome (fromMap rt claims0 rawClaims customMapping)
                      (\<lambda>claims. case ValidateTimes rt now v (it_IssuedAt idToken) (it_Expiry idToken) of
                          Inl e \<Rightarrow> Done (Err e)
                        | Inr _ \<Rightarrow> Done (Ok (claims, idToken))))))"

text \<open>\<open>spec.Claims != nil\<close> needs no test of its own: the loop over no names succeeds.\<close>

definition validateAgainstSpec :: "int \<Rightarrow> idp_claims \<Rightarrow> validation_spec \<Rightarrow> unit result" where
  "validateAgainstSpec now claims spec =
     (case claims_exist claims (vs_Claims spec) of
        Inl e \<Rightarrow> Err e
      | Inr _ \<Rightarrow>
          (case (if \<not> vs_SkipAudienceValidation spec \<and> vs_Audience spec \<noteq> []
                 then validateAudience claims (vs_Audience spec) else Ok ()) of
             Inl e \<Rightarrow> Err e
           | Inr _ \<Rightarrow>
               if db_Min (vs_TokenExpiryBounds spec) > 0 \<or> db_Max (vs_TokenExpiryBounds spec) > 0
               then validateExpiryBounds now claims (vs_TokenExpiryBounds spec) else Ok ()))"

definition GetUserInfo :: "jwt_verifier \<Rightarrow> string \<Rightarrow> id_token option \<Rightarrow> go_map result" where
  "GetUserInfo v accessToken idToken =
     (if accessToken = [] then Err NoAccessToken
      else case idToken of
          None \<Rightarrow> Err NoIdToken
        | Some t \<Rightarrow>
            (case it_verify_access t accessToken of
               Inl e \<Rightarrow> Err (Wrapped ''access token verification failed'' e)
             | Inr _ \<Rightarrow>
                 (case pv_userinfo (jv_provider v) accessToken of
                    Inl e \<Rightarrow> Err (Wrapped ''failed to fetch user info'' e)
                  | Inr _ \<Rightarrow>
                      (case pv_userinfo_claims (jv_provider v) accessToken of
                         Inl e \<Rightarrow> Err (Wrapped ''failed to parse user info claims'' e)
                       | Inr m \<Rightarrow> Ok m))))"

section \<open>runVerification\<close>

type_synonym identity = "idp_claims \<times> idp_verifier \<times> id_token"

fun verification_loop ::
  "go_runtime \<Rightarrow> int \<Rightarrow> string \<Rightarrow> idp_verifier list \<Rightarrow> go_error list \<Rightarrow> identity result outcome" where
  "verification_loop rt now token [] errors =
     Done (Err (if errors = [] then NoVerifiers else NoVerifierMatched errors))"
| "verification_loop rt now token (item # items) errors =
     bind_outcome (verifyJWT rt now (fst item) token (idp_CustomMapping (snd item)))
       (\<lambda>r. case r of
          Inl e \<Rightarrow> verification_loop rt now token items
                    (errors @ [Wrapped (''idp '' @ idp_Description (snd item)) e])
        | Inr (reqClaims, idToken) \<Rightarrow>
            (case validateAgainstSpec now reqClaims (idp_ValidationSpec (snd item)) of
               Inl e \<Rightarrow> verification_loop rt now token items
                         (errors @ [Wrapped (''idp '' @ idp_Description (snd item) @ '' validation'') e])
             | Inr _ \<Rightarrow> Done (Ok (reqClaims, item, idToken))))"

definition runVerification ::
  "go_runtime \<Rightarrow> int \<Rightarrow> string \<Rightarrow> idp_verifier list \<Rightarrow> identity result outcome" where
  "runVerification rt now token items = verification_loop rt now token items []"

section \<open>Lemmas\<close>

text \<open>One verifier's answer: both of its checks.\<close>

definition verify_one :: "go_runtime \<Rightarrow> int \<Rightarrow> string \<Rightarrow> idp_verifier \<Rightarrow> (idp_claims \<times> id_token) result outcome" where
  "verify_one rt now token item =
     bind_outcome (verifyJWT rt now (fst item) token (idp_CustomMapping (snd item)))
       (\<lambda>r. case r of
          Inl e \<Rightarrow> Done (Err (Wrapped (''idp '' @ idp_Description (snd item)) e))
        | Inr (c, t) \<Rightarrow>
            (case validateAgainstSpec now c (idp_ValidationSpec (snd item)) of
               Inl e \<Rightarrow> Done (Err (Wrapped (''idp '' @ idp_Description (snd item) @ '' validation'') e))
             | Inr _ \<Rightarrow> Done (Ok (c, t))))"

lemma verification_loop_Cons:
  "verification_loop rt now token (item # items) errors =
     (case verify_one rt now token item of
        Panic p \<Rightarrow> Panic p
      | Done (Inl e) \<Rightarrow> verification_loop rt now token items (errors @ [e])
      | Done (Inr (c, t)) \<Rightarrow> Done (Ok (c, item, t)))"
  by (cases "verifyJWT rt now (fst item) token (idp_CustomMapping (snd item))")
    (auto simp: verify_one_def split: sum.split prod.split)

declare verification_loop.simps(2) [simp del]

lemma validateAgainstSpec_Ok_iff:
  "validateAgainstSpec now c spec = Ok () \<longleftrightarrow>
     claims_exist c (vs_Claims spec) = Ok ()
     \<and> (vs_SkipAudienceValidation spec \<or> vs_Audience spec = [] \<or> validateAudience c (vs_Audience spec) = Ok ())
     \<and> (db_Min (vs_TokenExpiryBounds spec) \<le> 0 \<and> db_Max (vs_TokenExpiryBounds spec) \<le> 0
        \<or> validateExpiryBounds now c (vs_TokenExpiryBounds spec) = Ok ())"
  by (auto simp: validateAgainstSpec_def split: sum.splits if_splits)

lemma ValidateTimes_Ok_iff:
  "ValidateTimes rt now v issuedAt expiry = Ok () \<longleftrightarrow>
     1 \<le> unix_of issuedAt \<and> 1 \<le> unix_of expiry
     \<and> unix_of expiry \<le> unix_of now + seconds_i64 rt (jv_MaxTokenLifetime v)
     \<and> unix_of issuedAt - seconds_i64 rt (jv_ClockSkew v) \<le> unix_of now
     \<and> unix_of now \<le> unix_of expiry + seconds_i64 rt (jv_ClockSkew v)"
  by (auto simp: ValidateTimes_def)

lemma claims_exist_Ok_iff: "claims_exist c ks = Ok () \<longleftrightarrow> (\<forall>k\<in>set ks. mget (toMap c) k \<noteq> None)"
  by (auto simp: claims_exist_def find_None_iff split: option.splits dest: find_SomeD)

lemma validateAudience_Ok_iff: "validateAudience c auds = Ok () \<longleftrightarrow> set (cl_Audience c) \<inter> set auds \<noteq> {}"
  by (auto simp: validateAudience_def)

lemma verifyJWT_OkD:
  "verifyJWT rt now v token m = Done (Ok (c, t)) \<Longrightarrow>
   pv_verify (jv_provider v) (jv_clientID v) token = Ok t
   \<and> ValidateTimes rt now v (it_IssuedAt t) (it_Expiry t) = Ok ()
   \<and> (\<exists>c0 raw. it_claims_struct t = Ok c0 \<and> it_claims_map t = Ok raw \<and> fromMap rt c0 raw m = Done c)"
  by (auto simp: verifyJWT_def bind_outcome_Done_iff split: sum.splits)

lemma verify_one_OkD:
  "verify_one rt now token (v, i) = Done (Ok (c, t)) \<Longrightarrow>
   verifyJWT rt now v token (idp_CustomMapping i) = Done (Ok (c, t))
   \<and> validateAgainstSpec now c (idp_ValidationSpec i) = Ok ()"
proof -
  assume a: "verify_one rt now token (v, i) = Done (Ok (c, t))"
  then obtain r where r: "verifyJWT rt now v token (idp_CustomMapping i) = Done r"
    by (cases "verifyJWT rt now v token (idp_CustomMapping i)") (simp_all add: verify_one_def)
  show ?thesis
  proof (cases r)
    case (Inr ct)
    obtain c' t' where ct: "ct = (c', t')" by (cases ct)
    show ?thesis using a r Inr ct
      by (cases "validateAgainstSpec now c' (idp_ValidationSpec i)") (simp_all add: verify_one_def)
  qed (use a r in \<open>simp add: verify_one_def\<close>)
qed

lemma verify_one_Done_Err:
  "verify_one rt now token item = Done (Err e) \<Longrightarrow> \<exists>e' s. e = Wrapped (''idp '' @ s) e'"
  by (cases "verifyJWT rt now (fst item) token (idp_CustomMapping (snd item))")
    (auto simp: verify_one_def split: sum.splits prod.splits)

section \<open>A sample provider\<close>

definition sample_raw :: go_map where
  "sample_raw = [(''sub'', GStr ''joe''), (''aud'', GStr ''app''), (''email'', GStr ''j@x''),
     (''exp'', GF64 (Fin 1600 0)), (''team'', GArr [GStr ''sales''])]"

definition sample_token :: id_token where
  "sample_token = \<lparr>it_IssuedAt = 1000 * second, it_Expiry = 1600 * second, it_claims_map = Ok sample_raw,
     it_claims_struct = Ok zero_claims, it_verify_access = (\<lambda>a. Ok ())\<rparr>"

definition sample_provider :: oidc_provider where
  "sample_provider = \<lparr>pv_verify = (\<lambda>c t. if t = ''jwt'' then Ok sample_token else Err (ExtErr ''bad token'')),
     pv_userinfo = (\<lambda>a. Ok ()), pv_userinfo_claims = (\<lambda>a. Ok [(''email'', GStr ''joe@x'')])\<rparr>"

definition sample_verifier :: jwt_verifier where
  "sample_verifier = \<lparr>jv_clientID = ''app'', jv_provider = sample_provider, jv_issuerURL = ''https://sso'',
     jv_MaxTokenLifetime = 7200 * second, jv_ClockSkew = 60 * second\<rparr>"

definition sample_runtime :: go_runtime where
  "sample_runtime = \<lparr>rt_f64_oob = (\<lambda>f. - (2 ^ 63)), rt_show_f64 = (\<lambda>f. ''number''),
     rt_json_f64 = (\<lambda>f. case f of Fin m e \<Rightarrow> show_int m | NonFin s \<Rightarrow> [])\<rparr>"

lemma sample_verifiers:
  "NewIdpVerifiers (\<lambda>u. Ok sample_provider) (sample_config st) = Ok [(sample_verifier, sample_idp)]"
  by (simp add: NewIdpVerifiers_def sample_config_def add_verifier_def NewJwtVerifier_def)
    (simp add: sample_idp_def sample_verifier_def)

definition sample_verified :: idp_claims where
  "sample_verified = zero_claims\<lparr>cl_Subject := ''joe'', cl_Audience := [''app''], cl_Email := ''j@x'',
     cl_Expiry := 1600, cl_CustomClaims := [(''team'', GArr [GStr ''sales''])]\<rparr>"

lemma sample_fromMap: "fromMap sample_runtime zero_claims sample_raw [] = Done sample_verified"
  by code_simp

lemma sample_verifies:
  "verify_one sample_runtime (1100 * second) ''jwt'' (sample_verifier, sample_idp) = Done (Ok (sample_verified, sample_token))"
proof -
  have "seconds_i64 sample_runtime (7200 * second) = 7200" "seconds_i64 sample_runtime (60 * second) = 60"
    by (rule seconds_i64_whole; simp)+
  then have t: "ValidateTimes sample_runtime (1100 * second) sample_verifier (1000 * second) (1600 * second) = Ok ()"
    by (simp add: ValidateTimes_def sample_verifier_def unix_of_def)
  have s: "validateAgainstSpec (1100 * second) sample_verified (idp_ValidationSpec sample_idp) = Ok ()"
    by code_simp
  show ?thesis
    using t s sample_fromMap
    by (simp add: verify_one_def verifyJWT_def sample_verifier_def sample_provider_def sample_token_def
        sample_idp_def)
qed

section \<open>Properties\<close>

lemma verification_loop_Ok_iff:
  "verification_loop rt now token items errs = Done (Ok (c, item, t)) \<longleftrightarrow>
   (\<exists>xs ys. items = xs @ item # ys \<and> verify_one rt now token item = Done (Ok (c, t))
      \<and> (\<forall>x\<in>set xs. \<exists>e. verify_one rt now token x = Done (Err e)))"
proof (induction items arbitrary: errs)
  case (Cons x items)
  consider (panic) p where "verify_one rt now token x = Panic p"
    | (no) e where "verify_one rt now token x = Done (Err e)"
    | (yes) c' t' where "verify_one rt now token x = Done (Ok (c', t'))"
    by (metis outcome.exhaust sum.exhaust prod.exhaust)
  then show ?case
  proof cases
    case no
    have split: "(\<exists>xs ys. x # items = xs @ item # ys \<and> P xs) \<longleftrightarrow>
        x = item \<and> P [] \<or> (\<exists>xs ys. items = xs @ item # ys \<and> P (x # xs))" for P
      by (auto simp: Cons_eq_append_conv)
    from no show ?thesis
      using split [of "\<lambda>xs. verify_one rt now token item = Done (Ok (c, t))
        \<and> (\<forall>x\<in>set xs. \<exists>e. verify_one rt now token x = Done (Err e))"]
      by (auto simp: verification_loop_Cons Cons.IH)
  qed (auto simp: verification_loop_Cons Cons_eq_append_conv)
qed simp

lemma verification_loop_Err_iff:
  "verification_loop rt now token items errs = Done (Err e) \<longleftrightarrow>
   (\<exists>es. list_all2 (\<lambda>x e. verify_one rt now token x = Done (Err e)) items es
      \<and> e = (if errs @ es = [] then NoVerifiers else NoVerifierMatched (errs @ es)))"
proof (induction items arbitrary: errs)
  case (Cons x items)
  consider (panic) p where "verify_one rt now token x = Panic p"
    | (no) e' where "verify_one rt now token x = Done (Err e')"
    | (yes) c' t' where "verify_one rt now token x = Done (Ok (c', t'))"
    by (metis outcome.exhaust sum.exhaust prod.exhaust)
  then show ?case
    by cases (auto simp: verification_loop_Cons Cons.IH list_all2_Cons1)
qed auto

text \<open>
  Property C24. \<open>runVerification\<close> accepts a token with the first verifier, in configuration
  order, that accepts it, all earlier ones having rejected it; and it fails exactly when every
  verifier rejects it, with all of their errors in order, or none is configured.
\<close>

theorem first_accepting_verifier_wins:
  "(runVerification rt now token items = Done (Ok (c, item, t)) \<longleftrightarrow>
      (\<exists>xs ys. items = xs @ item # ys \<and> verify_one rt now token item = Done (Ok (c, t))
         \<and> (\<forall>x\<in>set xs. \<exists>e. verify_one rt now token x = Done (Err e))))
   \<and> (runVerification rt now token items = Done (Err e) \<longleftrightarrow>
      (\<exists>es. list_all2 (\<lambda>x e. verify_one rt now token x = Done (Err e)) items es
         \<and> e = (if items = [] then NoVerifiers else NoVerifierMatched es)))"
  unfolding runVerification_def verification_loop_Ok_iff verification_loop_Err_iff append_Nil
  by (metis list_all2_Nil list_all2_Nil2)

theorem first_accepting_verifier_wins_witness:
  "runVerification sample_runtime (1100 * second) ''jwt'' [(sample_verifier, sample_idp), (sample_verifier, sample_idp)]
     = Done (Ok (sample_verified, (sample_verifier, sample_idp), sample_token))"
  using sample_verifies
  by (intro first_accepting_verifier_wins [THEN conjunct1, THEN iffD2]
      exI [of _ "[]"] exI [of _ "[(sample_verifier, sample_idp)]"]) simp

text \<open>
  Property C8. What an accepted token is known to satisfy: the OpenID Connect library verified it
  for one of the configured providers and its client id; it was issued and expires at known times,
  is used within them up to the clock skew, and expires within the maximal lifetime from now; its
  claims hold every required claim, one of the required audiences, and respect the provider's
  bounds on the remaining lifetime, where these are configured.
\<close>

theorem accepted_token_is_valid:
  assumes "runVerification rt now token items = Done (Ok (c, (v, i), t))"
  shows "(v, i) \<in> set items \<and> pv_verify (jv_provider v) (jv_clientID v) token = Ok t
    \<and> 1 \<le> unix_of (it_IssuedAt t)
    \<and> unix_of (it_IssuedAt t) - seconds_i64 rt (jv_ClockSkew v) \<le> unix_of now
    \<and> unix_of now \<le> unix_of (it_Expiry t) + seconds_i64 rt (jv_ClockSkew v)
    \<and> unix_of (it_Expiry t) \<le> unix_of now + seconds_i64 rt (jv_MaxTokenLifetime v)
    \<and> (\<forall>k\<in>set (vs_Claims (idp_ValidationSpec i)). mget (toMap c) k \<noteq> None)
    \<and> (vs_Audience (idp_ValidationSpec i) \<noteq> [] \<longrightarrow> \<not> vs_SkipAudienceValidation (idp_ValidationSpec i) \<longrightarrow>
         set (cl_Audience c) \<inter> set (vs_Audience (idp_ValidationSpec i)) \<noteq> {})
    \<and> (db_Min (vs_TokenExpiryBounds (idp_ValidationSpec i)) > 0 \<or> db_Max (vs_TokenExpiryBounds (idp_ValidationSpec i)) > 0 \<longrightarrow>
         validateExpiryBounds now c (vs_TokenExpiryBounds (idp_ValidationSpec i)) = Ok ())"
proof -
  have item: "(v, i) \<in> set items" and one: "verify_one rt now token (v, i) = Done (Ok (c, t))"
    using assms unfolding runVerification_def verification_loop_Ok_iff by auto
  from verify_one_OkD [OF one] have j: "verifyJWT rt now v token (idp_CustomMapping i) = Done (Ok (c, t))"
    and s: "validateAgainstSpec now c (idp_ValidationSpec i) = Ok ()" by simp_all
  from verifyJWT_OkD [OF j] have "ValidateTimes rt now v (it_IssuedAt t) (it_Expiry t) = Ok ()"
    "pv_verify (jv_provider v) (jv_clientID v) token = Ok t" by simp_all
  with s item show ?thesis
    unfolding ValidateTimes_Ok_iff validateAgainstSpec_Ok_iff claims_exist_Ok_iff validateAudience_Ok_iff
    by auto
qed

theorem accepted_token_is_valid_witness:
  "\<exists>c t. runVerification sample_runtime (1100 * second) ''jwt'' [(sample_verifier, sample_idp)]
      = Done (Ok (c, (sample_verifier, sample_idp), t))
    \<and> mget (toMap c) ''email'' \<noteq> None"
proof -
  have r: "runVerification sample_runtime (1100 * second) ''jwt'' [(sample_verifier, sample_idp)]
      = Done (Ok (sample_verified, (sample_verifier, sample_idp), sample_token))"
    unfolding runVerification_def verification_loop_Cons sample_verifies by simp
  have "''email'' \<in> set (vs_Claims (idp_ValidationSpec sample_idp))" by (simp add: sample_idp_def)
  with accepted_token_is_valid [OF r] r show ?thesis by blast
qed

text \<open>
  \<open>validateExpiryBounds\<close> compares the exact remaining lifetime with the bounds as
  long as it fits a \<open>time.Duration\<close> (292 years).
\<close>

lemma expiry_bounds_exact:
  assumes "in_i64 (cl_Expiry c - unix_of now)" and "in_i64 ((cl_Expiry c - unix_of now) * second)"
  shows "validateExpiryBounds now c b = Ok () \<longleftrightarrow>
    db_Min b \<le> (cl_Expiry c - unix_of now) * second \<and> (cl_Expiry c - unix_of now) * second \<le> db_Max b"
  using assms by (auto simp: validateExpiryBounds_def Let_def)

lemma expiry_bounds_exact_witness:
  "validateExpiryBounds (100 * second) (zero_claims\<lparr>cl_Expiry := 400\<rparr>) \<lparr>db_Min = 60 * second, db_Max = 3600 * second\<rparr> = Ok ()"
  by (subst expiry_bounds_exact) (simp_all add: in_i64_def unix_of_def zero_claims_def)

text \<open>
  Beyond that range the product wraps around, and a far expiry can pass the bounds; the check of
  the maximal lifetime in \<open>ValidateTimes\<close> comes first and refuses such tokens.
\<close>

lemma expiry_bounds_wrap:
  "validateExpiryBounds 0 (zero_claims\<lparr>cl_Expiry := 2 ^ 55 + 300\<rparr>) \<lparr>db_Min = 60 * second, db_Max = 3600 * second\<rparr> = Ok ()"
  by (simp add: validateExpiryBounds_def wrap64_def unix_of_def zero_claims_def)

lemma add_verifiers:
  "fold_result (add_verifier np) ids vs0 = Ok vs \<Longrightarrow>
   \<exists>ws. vs = vs0 @ ws \<and> map snd ws = filter (\<lambda>i. case np (idp_IssuerURL i) of Inl _ \<Rightarrow> False | Inr _ \<Rightarrow> True) ids
     \<and> (\<forall>(v, i)\<in>set ws. 0 < jv_MaxTokenLifetime v \<and> 0 < jv_ClockSkew v \<and> jv_clientID v = idp_ClientID i
          \<and> np (idp_IssuerURL i) = Ok (jv_provider v))
     \<and> (\<forall>i\<in>set ids. i \<in> set (map snd ws) \<or> idp_IgnoreSetupError i)"
proof (induction ids arbitrary: vs0)
  case (Cons i ids)
  show ?case
  proof (cases "np (idp_IssuerURL i)")
    case (Inl e)
    then have "add_verifier np i vs0 =
        (if idp_IgnoreSetupError i then Ok vs0 else Err (Wrapped ''failed to setup verifier for IDP'' e))"
      by (simp add: add_verifier_def NewJwtVerifier_def)
    with Cons.prems have ig: "idp_IgnoreSetupError i"
      and rest: "fold_result (add_verifier np) ids vs0 = Ok vs"
      by (auto split: if_splits)
    from Cons.IH [OF rest] ig Inl show ?thesis by auto
  next
    case (Inr p)
    then obtain v where v: "NewJwtVerifier np (idp_ClientID i) (idp_IssuerURL i) (idp_MaxTokenLifetime i) (idp_ClockSkew i) = Ok v"
      "0 < jv_MaxTokenLifetime v" "0 < jv_ClockSkew v" "jv_clientID v = idp_ClientID i" "jv_provider v = p"
      by (simp add: NewJwtVerifier_def DefaultMaxTokenLifetime_def DefaultClockSkew_def)
    then have "add_verifier np i vs0 = Ok (vs0 @ [(v, i)])" by (simp add: add_verifier_def)
    with Cons.prems have "fold_result (add_verifier np) ids (vs0 @ [(v, i)]) = Ok vs" by simp
    from Cons.IH [OF this] obtain ws where "vs = (vs0 @ [(v, i)]) @ ws"
      "map snd ws = filter (\<lambda>i. case np (idp_IssuerURL i) of Inl _ \<Rightarrow> False | Inr _ \<Rightarrow> True) ids"
      "\<forall>(v, i)\<in>set ws. 0 < jv_MaxTokenLifetime v \<and> 0 < jv_ClockSkew v \<and> jv_clientID v = idp_ClientID i
          \<and> np (idp_IssuerURL i) = Ok (jv_provider v)"
      "\<forall>i\<in>set ids. i \<in> set (map snd ws) \<or> idp_IgnoreSetupError i" by blast
    with v Inr show ?thesis by (intro exI [of _ "(v, i) # ws"]) auto
  qed
qed simp

text \<open>
  The verifiers built at start-up are those of the providers that could be reached,
  in configuration order, each with a positive maximal lifetime and clock skew; a provider is left
  out only if its configuration says so.
\<close>

lemma verifiers_of_reachable_providers:
  assumes "NewIdpVerifiers np c = Ok vs"
  shows "map snd vs = filter (\<lambda>i. case np (idp_IssuerURL i) of Inl _ \<Rightarrow> False | Inr _ \<Rightarrow> True) (cfg_Idp c)
    \<and> (\<forall>(v, i)\<in>set vs. 0 < jv_MaxTokenLifetime v \<and> 0 < jv_ClockSkew v \<and> jv_clientID v = idp_ClientID i
         \<and> np (idp_IssuerURL i) = Ok (jv_provider v))
    \<and> (\<forall>i\<in>set (cfg_Idp c). i \<in> set (map snd vs) \<or> idp_IgnoreSetupError i)"
  using add_verifiers [OF assms [unfolded NewIdpVerifiers_def]] unfolding append_Nil by blast

lemma verifiers_of_reachable_providers_witness:
  "\<exists>vs. NewIdpVerifiers (\<lambda>u. if u = ''https://sso'' then Ok sample_provider else Err (ExtErr u))
       ((sample_config StrategyStrict)\<lparr>cfg_Idp := [sample_idp\<lparr>idp_IssuerURL := ''x'', idp_IgnoreSetupError := True\<rparr>, sample_idp]\<rparr>)
     = Ok vs \<and> vs \<noteq> [] \<and> (\<forall>(v, i)\<in>set vs. 0 < jv_MaxTokenLifetime v \<and> 0 < jv_ClockSkew v \<and> jv_clientID v = idp_ClientID i
         \<and> (if idp_IssuerURL i = ''https://sso'' then Ok sample_provider else Err (ExtErr (idp_IssuerURL i))) = Ok (jv_provider v))"
proof -
  let ?np = "\<lambda>u. if u = ''https://sso'' then Ok sample_provider else Err (ExtErr u)"
  let ?i = "sample_idp\<lparr>idp_IssuerURL := ''x'', idp_IgnoreSetupError := True\<rparr>"
  let ?c = "(sample_config StrategyStrict)\<lparr>cfg_Idp := [?i, sample_idp]\<rparr>"
  have url: "idp_IssuerURL sample_idp = ''https://sso''" by (simp add: sample_idp_def)
  have "add_verifier ?np ?i [] = Ok []" by (simp add: add_verifier_def NewJwtVerifier_def)
  moreover have "\<exists>v. add_verifier ?np sample_idp [] = Ok [(v, sample_idp)]"
    by (simp add: add_verifier_def NewJwtVerifier_def url)
  ultimately obtain v where "fold_result (add_verifier ?np) [?i, sample_idp] [] = Ok [(v, sample_idp)]"
    unfolding fold_result.simps by auto
  then have vs: "NewIdpVerifiers ?np ?c = Ok [(v, sample_idp)]"
    unfolding NewIdpVerifiers_def by (simp del: fold_result.simps)
  from vs verifiers_of_reachable_providers [OF vs, THEN conjunct2, THEN conjunct1]
  show ?thesis by blast
qed

end
