(* ===== verification/Token_Expiry.thy ===== *)
theory Token_Expiry
  imports Broker_Config
begin

text \<open>
  The lifetime of a minted token: \<open>calculateExpiration\<close> in \<open>internal/broker/server.go\<close>. Times are
  unix seconds; \<open>now\<close> is the clock reading in nanoseconds, read once per call.
\<close>

text \<open>\<open>now.Add(d).Unix()\<close>.\<close>

definition unix_after :: "int \<Rightarrow> int \<Rightarrow> int" where
  "unix_after now d = unix_of (now + d)"

text \<open>Step 2: the bounds of the provider's validation spec.\<close>

definition apply_idp_bounds :: "int \<Rightarrow> duration_bounds option \<Rightarrow> int \<Rightarrow> int" where
  "apply_idp_bounds now b expiry =
     (case b of
        None \<Rightarrow> expiry
      | Some b' \<Rightarrow>
          let e1 = (if db_Min b' > 0 \<and> expiry < unix_after now (db_Min b')
                    then unix_after now (db_Min b') else expiry)
          in if db_Max b' > 0 \<and> e1 > unix_after now (db_Max b')
             then unix_after now (db_Max b') else e1)"

text \<open>Steps 3 and 4: the role binding's override, else the RBAC maximum.\<close>

definition apply_rbac_bounds :: "int \<Rightarrow> config \<Rightarrow> int option \<Rightarrow> int \<Rightarrow> int" where
  "apply_rbac_bounds now cfg roleBindingMax expiry =
     (let rbacMax = rbac_TokenMaxExpiry (cfg_Rbac cfg) in
      case roleBindingMax of
        Some d \<Rightarrow>
          if d > 0 then unix_after now d
          else if rbacMax > 0 \<and> expiry > unix_after now rbacMax then unix_after now rbacMax
          else expiry
      | None \<Rightarrow>
          if rbacMax > 0 \<and> expiry > unix_after now rbacMax then unix_after now rbacMax else expiry)"

text \<open>Step 5: the NATS token bounds.\<close>

definition apply_nats_bounds :: "int \<Rightarrow> config \<Rightarrow> int \<Rightarrow> int" where
  "apply_nats_bounds now cfg expiry =
     (let lo = unix_after now (db_Min (nats_TokenExpiryBounds (cfg_NATS cfg)));
          hi = unix_after now (db_Max (nats_TokenExpiryBounds (cfg_NATS cfg)));
          e1 = (if expiry < lo then lo else expiry)
      in if e1 > hi then hi else e1)"

definition calculateExpiration ::
  "int \<Rightarrow> config \<Rightarrow> int \<Rightarrow> duration_bounds option \<Rightarrow> int option \<Rightarrow> int" where
  "calculateExpiration now cfg idpProvidedExpiry idpValidationExpiry roleBindingTokenMaxExpiry =
     (let idpCeiling = idpProvidedExpiry;
          e2 = apply_idp_bounds now idpValidationExpiry idpProvidedExpiry;
          e4 = apply_rbac_bounds now cfg roleBindingTokenMaxExpiry e2;
          e5 = apply_nats_bounds now cfg e4
      in if e5 > idpCeiling then idpCeiling else e5)"

section \<open>Bounds as a contract\<close>

text \<open>
  Each step is a function on expiry times that keeps order; the final step is a ceiling. What
  holds of every pipeline of such steps is proved once.
\<close>

locale expiry_pipeline =
  fixes steps :: "int \<Rightarrow> int"
    and lo :: int
    and hi :: int
    and result :: "int \<Rightarrow> int"
  assumes steps_hi: "steps e \<le> hi"
    and steps_lo: "lo \<le> hi \<Longrightarrow> lo \<le> steps e"
    and steps_mono: "e \<le> e' \<Longrightarrow> steps e \<le> steps e'"
    and result_def: "result e = min (steps e) e"
begin

lemma never_extends: "result e \<le> e"
  by (simp add: result_def)

lemma below_hi: "result e \<le> hi"
  using steps_hi [of e] by (simp add: result_def min_le_iff_disj)

lemma within: "lo \<le> hi \<Longrightarrow> lo \<le> e \<Longrightarrow> lo \<le> result e"
  using steps_lo [of e] by (simp add: result_def)

lemma mono: "e \<le> e' \<Longrightarrow> result e \<le> result e'"
  unfolding result_def by (intro min.mono steps_mono)

end

lemma apply_idp_bounds_mono:
  "e \<le> e' \<Longrightarrow> apply_idp_bounds now b e \<le> apply_idp_bounds now b e'"
  by (auto simp: apply_idp_bounds_def Let_def split: option.split)

lemma apply_rbac_bounds_mono:
  "e \<le> e' \<Longrightarrow> apply_rbac_bounds now cfg rb e \<le> apply_rbac_bounds now cfg rb e'"
  by (auto simp: apply_rbac_bounds_def Let_def split: option.split)

lemma apply_nats_bounds_mono:
  "e \<le> e' \<Longrightarrow> apply_nats_bounds now cfg e \<le> apply_nats_bounds now cfg e'"
  by (auto simp: apply_nats_bounds_def Let_def)

lemma apply_nats_bounds_range:
  "apply_nats_bounds now cfg e \<le> unix_after now (db_Max (nats_TokenExpiryBounds (cfg_NATS cfg)))"
  "unix_after now (db_Min (nats_TokenExpiryBounds (cfg_NATS cfg)))
     \<le> unix_after now (db_Max (nats_TokenExpiryBounds (cfg_NATS cfg))) \<Longrightarrow>
   unix_after now (db_Min (nats_TokenExpiryBounds (cfg_NATS cfg))) \<le> apply_nats_bounds now cfg e"
  by (auto simp: apply_nats_bounds_def Let_def)

interpretation expiry: expiry_pipeline
  "\<lambda>e. apply_nats_bounds now cfg (apply_rbac_bounds now cfg rb (apply_idp_bounds now vb e))"
  "unix_after now (db_Min (nats_TokenExpiryBounds (cfg_NATS cfg)))"
  "unix_after now (db_Max (nats_TokenExpiryBounds (cfg_NATS cfg)))"
  "\<lambda>e. calculateExpiration now cfg e vb rb"
  for now cfg vb rb
proof (unfold_locales, goal_cases)
  case (1 e)
  show ?case by (rule apply_nats_bounds_range)
next
  case (2 e)
  then show ?case by (rule apply_nats_bounds_range)
next
  case (3 e e')
  then show ?case by (intro apply_nats_bounds_mono apply_rbac_bounds_mono apply_idp_bounds_mono)
next
  case (4 e)
  show ?case by (simp add: calculateExpiration_def Let_def min_def)
qed

section \<open>Properties\<close>

text \<open>
  Property C2. The minted token never outlives the token the identity provider issued, nor the
  upper NATS bound, whatever the other settings say; and a provider token that lives longer never
  gives a shorter minted token.
\<close>

theorem expiration_ceiling:
  "calculateExpiration now cfg e vb rb \<le> e
   \<and> calculateExpiration now cfg e vb rb \<le> unix_after now (db_Max (nats_TokenExpiryBounds (cfg_NATS cfg)))
   \<and> calculateExpiration now cfg e vb rb \<le> calculateExpiration now cfg (e + int d) vb rb"
  by (simp add: expiry.never_extends expiry.below_hi expiry.mono)

text \<open>
  Where the NATS bounds are in order and the provider's token lives at least until
  the lower bound, the minted token's lifetime lies within the NATS bounds.
\<close>

lemma expiration_within_nats_bounds:
  assumes "db_Min (nats_TokenExpiryBounds (cfg_NATS cfg)) \<le> db_Max (nats_TokenExpiryBounds (cfg_NATS cfg))"
    and "unix_after now (db_Min (nats_TokenExpiryBounds (cfg_NATS cfg))) \<le> e"
  shows "unix_after now (db_Min (nats_TokenExpiryBounds (cfg_NATS cfg))) \<le> calculateExpiration now cfg e vb rb"
    (is "?lo \<le> ?r")
proof -
  have "?lo \<le> unix_after now (db_Max (nats_TokenExpiryBounds (cfg_NATS cfg)))"
    using assms(1) by (simp add: unix_after_def unix_of_mono)
  then show ?thesis using assms(2) by (rule expiry.within)
qed

text \<open>
  The reference: the lifetime wanted before the NATS bounds, then two clamps and the ceiling.
\<close>

definition wanted_expiry :: "int \<Rightarrow> config \<Rightarrow> int \<Rightarrow> duration_bounds \<Rightarrow> int \<Rightarrow> int" where
  "wanted_expiry now cfg e vb rb =
     (let raised = (if db_Min vb > 0 then max e (unix_after now (db_Min vb)) else e);
          capped = (if db_Max vb > 0 then min raised (unix_after now (db_Max vb)) else raised);
          rbacMax = rbac_TokenMaxExpiry (cfg_Rbac cfg)
      in if rb > 0 then unix_after now rb
         else if rbacMax > 0 then min capped (unix_after now rbacMax) else capped)"

text \<open>
  \<open>calculateExpiration\<close> is: raise to and cap at the provider's validation bounds;
  replace by the role binding's lifetime if it has one, else cap at the RBAC maximum; raise to the
  lower and cap at the upper NATS bound; cap at the provider's own expiry.
\<close>

lemma calculate_expiration_spec:
  "calculateExpiration now cfg e (Some vb) (Some rb) =
     min e (min (unix_after now (db_Max (nats_TokenExpiryBounds (cfg_NATS cfg))))
       (max (unix_after now (db_Min (nats_TokenExpiryBounds (cfg_NATS cfg))))
         (wanted_expiry now cfg e vb rb)))"
proof -
  have nats: "apply_nats_bounds now cfg x =
      min (unix_after now (db_Max (nats_TokenExpiryBounds (cfg_NATS cfg))))
        (max (unix_after now (db_Min (nats_TokenExpiryBounds (cfg_NATS cfg)))) x)" for x
    by (simp add: apply_nats_bounds_def Let_def min_def max_def)
  have rbac: "apply_rbac_bounds now cfg (Some rb) (apply_idp_bounds now (Some vb) e)
      = wanted_expiry now cfg e vb rb"
    by (simp add: apply_rbac_bounds_def apply_idp_bounds_def wanted_expiry_def Let_def min_def max_def)
  have "calculateExpiration now cfg e (Some vb) (Some rb) =
      min e (apply_nats_bounds now cfg (apply_rbac_bounds now cfg (Some rb) (apply_idp_bounds now (Some vb) e)))"
    by (simp add: calculateExpiration_def Let_def min_def)
  then show ?thesis by (simp only: nats rbac)
qed

end
