(* ===== verification/Go_Json.thy ===== *)
theory Go_Json
  imports Go_Values
begin

text \<open>
  \<open>encoding/json\<close> as the program uses it: the grammar its scanner accepts, texts in compact and in
  indented form, the quoting of strings, and the passage between texts and dynamic values. A text is
  read into a tree that keeps strings and numbers as they are written.
\<close>

section \<open>Trees\<close>

datatype json =
    JNull
  | JBool bool
  | JNum string
  | JStr string
  | JArr "json list"
  | JObj "(string \<times> json) list"

abbreviation (input) dquote :: char where "dquote \<equiv> CHR 0x22"
abbreviation (input) backslash :: char where "backslash \<equiv> CHR 0x5C"

section \<open>Scanning\<close>

definition json_space :: "char \<Rightarrow> bool" where
  "json_space c \<longleftrightarrow> c = CHR '' '' \<or> c = CHR 0x09 \<or> c = CHR 0x0D \<or> c = CHR 0x0A"

fun json_skip :: "string \<Rightarrow> string" where
  "json_skip [] = []"
| "json_skip (c # s) = (if json_space c then json_skip s else c # s)"

fun hex_val :: "char \<Rightarrow> nat option" where
  "hex_val c =
     (let n = of_char c in
      if 48 \<le> n \<and> n \<le> 57 then Some (n - 48)
      else if 97 \<le> n \<and> n \<le> 102 then Some (n - 87)
      else if 65 \<le> n \<and> n \<le> 70 then Some (n - 55)
      else None)"

declare hex_val.simps [simp del]

text \<open>The value of four hexadecimal digits at the start of a text.\<close>

definition hex4 :: "string \<Rightarrow> nat option" where
  "hex4 s =
     (case map hex_val (take 4 s) of
        [Some a, Some b, Some c, Some d] \<Rightarrow> Some (((a * 16 + b) * 16 + c) * 16 + d)
      | _ \<Rightarrow> None)"

definition escape_letters :: string where
  "escape_letters = [dquote, backslash, CHR ''/'', CHR ''b'', CHR ''f'', CHR ''n'', CHR ''r'', CHR ''t'']"

text \<open>One character of a string as it is written: how many bytes it takes, 0 where there is none.\<close>

definition char_len :: "string \<Rightarrow> nat" where
  "char_len s =
     (case s of
        [] \<Rightarrow> 0
      | c # r \<Rightarrow>
          if c = dquote then 0
          else if c = backslash then
            (case r of
               [] \<Rightarrow> 0
             | d # r' \<Rightarrow> if d \<in> set escape_letters then 2
                       else if d = CHR ''u'' \<and> hex4 r' \<noteq> None then 6 else 0)
          else if (of_char c :: nat) < 32 then 0 else 1)"

text \<open>The characters up to the closing quotation mark, and what follows it.\<close>

function scan_chars :: "string \<Rightarrow> (string \<times> string) option" where
  "scan_chars s =
     (case char_len s of
        0 \<Rightarrow> (case s of c # r \<Rightarrow> if c = dquote then Some ([], r) else None | [] \<Rightarrow> None)
      | Suc n \<Rightarrow>
          map_option (\<lambda>(raw, r). (take (Suc n) s @ raw, r)) (scan_chars (drop (Suc n) s)))"
  by pat_completeness auto
termination
  by (relation "measure length") (auto simp: char_len_def split: list.splits)

declare scan_chars.simps [simp del]

definition digits_of :: "string \<Rightarrow> string" where
  "digits_of s = takeWhile is_digit s"

text \<open>The integer part, the fraction and the exponent of a number, each with the rest of the text.\<close>

definition scan_int :: "string \<Rightarrow> (string \<times> string) option" where
  "scan_int s =
     (case s of
        [] \<Rightarrow> None
      | c # r \<Rightarrow>
          if c = CHR ''0'' then Some ([c], r)
          else if is_digit c then Some (digits_of s, dropWhile is_digit s)
          else None)"

definition scan_frac :: "string \<Rightarrow> (string \<times> string) option" where
  "scan_frac s =
     (case s of
        c # r \<Rightarrow>
          if c = CHR ''.'' then (if digits_of r = [] then None else Some (c # digits_of r, dropWhile is_digit r))
          else Some ([], s)
      | [] \<Rightarrow> Some ([], s))"

definition scan_sign :: "string \<Rightarrow> string \<times> string" where
  "scan_sign s = (case s of c # r \<Rightarrow> if c = CHR ''+'' \<or> c = CHR ''-'' then ([c], r) else ([], s) | [] \<Rightarrow> ([], s))"

definition scan_exp :: "string \<Rightarrow> (string \<times> string) option" where
  "scan_exp s =
     (case s of
        c # r \<Rightarrow>
          if c = CHR ''e'' \<or> c = CHR ''E'' then
            (case scan_sign r of
               (sg, r') \<Rightarrow> if digits_of r' = [] then None else Some (c # sg @ digits_of r', dropWhile is_digit r'))
          else Some ([], s)
      | [] \<Rightarrow> Some ([], s))"

definition scan_number :: "string \<Rightarrow> (string \<times> string) option" where
  "scan_number s =
     (case (case s of c # r \<Rightarrow> if c = CHR ''-'' then ([c], r) else ([], s) | [] \<Rightarrow> ([], s)) of
        (sg, s1) \<Rightarrow>
          Option.bind (scan_int s1) (\<lambda>(ip, s2).
          Option.bind (scan_frac s2) (\<lambda>(fp, s3).
          Option.bind (scan_exp s3) (\<lambda>(ep, s4).
            Some (sg @ ip @ fp @ ep, s4)))))"

section \<open>Reading a value\<close>

text \<open>
  The readers take a bound on the number of their calls; twice the length of the text is enough, as
  shown below.
\<close>

fun json_value :: "nat \<Rightarrow> string \<Rightarrow> (json \<times> string) option"
  and json_elements :: "nat \<Rightarrow> string \<Rightarrow> (json list \<times> string) option"
  and json_members :: "nat \<Rightarrow> string \<Rightarrow> ((string \<times> json) list \<times> string) option" where
  "json_value 0 s = None"
| "json_value (Suc n) s =
     (case json_skip s of
        [] \<Rightarrow> None
      | c # r \<Rightarrow>
          if c = CHR ''{'' then
            (case json_skip r of
               [] \<Rightarrow> None
             | d # r' \<Rightarrow> if d = CHR ''}'' then Some (JObj [], r')
                       else map_option (\<lambda>(kvs, t). (JObj kvs, t)) (json_members n (d # r')))
          else if c = CHR ''['' then
            (case json_skip r of
               [] \<Rightarrow> None
             | d # r' \<Rightarrow> if d = CHR '']'' then Some (JArr [], r')
                       else map_option (\<lambda>(vs, t). (JArr vs, t)) (json_elements n (d # r')))
          else if c = dquote then map_option (\<lambda>(raw, t). (JStr raw, t)) (scan_chars r)
          else if has_prefix (c # r) ''true'' then Some (JBool True, drop 4 (c # r))
          else if has_prefix (c # r) ''false'' then Some (JBool False, drop 5 (c # r))
          else if has_prefix (c # r) ''null'' then Some (JNull, drop 4 (c # r))
          else map_option (\<lambda>(num, t). (JNum num, t)) (scan_number (c # r)))"
| "json_elements 0 s = None"
| "json_elements (Suc n) s =
     Option.bind (json_value n s) (\<lambda>(v, r).
       (case json_skip r of
          [] \<Rightarrow> None
        | c # t \<Rightarrow>
            if c = CHR '','' then map_option (\<lambda>(vs, t'). (v # vs, t')) (json_elements n t)
            else if c = CHR '']'' then Some ([v], t) else None))"
| "json_members 0 s = None"
| "json_members (Suc n) s =
     (case json_skip s of
        [] \<Rightarrow> None
      | c # r \<Rightarrow>
          if c \<noteq> dquote then None
          else
            Option.bind (scan_chars r) (\<lambda>(k, r1).
              (case json_skip r1 of
                 [] \<Rightarrow> None
               | c1 # r2 \<Rightarrow>
                   if c1 \<noteq> CHR '':'' then None
                   else
                     Option.bind (json_value n r2) (\<lambda>(v, r3).
                       (case json_skip r3 of
                          [] \<Rightarrow> None
                        | c2 # r4 \<Rightarrow>
                            if c2 = CHR '','' then map_option (\<lambda>(kvs, t). ((k, v) # kvs, t)) (json_members n r4)
                            else if c2 = CHR ''}'' then Some ([(k, v)], r4) else None)))))"

text \<open>The scanner refuses texts nested more than 10000 deep.\<close>

fun json_depth :: "json \<Rightarrow> nat" where
  "json_depth (JArr vs) = Suc (fold max (map json_depth vs) 0)"
| "json_depth (JObj kvs) = Suc (fold max (map (\<lambda>(k, v). json_depth v) kvs) 0)"
| "json_depth _ = 0"

definition max_nesting :: nat where
  "max_nesting = 10000"

definition parse_json :: "string \<Rightarrow> json option" where
  "parse_json s =
     (case json_value (2 * length s + 2) s of
        None \<Rightarrow> None
      | Some (j, r) \<Rightarrow> if json_skip r = [] \<and> json_depth j \<le> max_nesting then Some j else None)"

section \<open>Writing a tree\<close>

text \<open>
  The layout of a text: what separates the lines of an array or object at a depth, and what follows
  the name of a member. An empty array or object is not broken into lines.
\<close>

fun json_text :: "(nat \<Rightarrow> string) \<Rightarrow> string \<Rightarrow> nat \<Rightarrow> json \<Rightarrow> string" where
  "json_text nl colon d JNull = ''null''"
| "json_text nl colon d (JBool b) = (if b then ''true'' else ''false'')"
| "json_text nl colon d (JNum num) = num"
| "json_text nl colon d (JStr raw) = dquote # raw @ [dquote]"
| "json_text nl colon d (JArr vs) =
     (if vs = [] then ''[]''
      else ''['' @ join '','' (map (\<lambda>v. nl (Suc d) @ json_text nl colon (Suc d) v) vs) @ nl d @ '']'')"
| "json_text nl colon d (JObj kvs) =
     (if kvs = [] then ''{}''
      else ''{'' @ join '','' (map (\<lambda>(k, v). nl (Suc d) @ dquote # k @ dquote # colon @ json_text nl colon (Suc d) v) kvs)
             @ nl d @ ''}'')"

definition compact_text :: "json \<Rightarrow> string" where
  "compact_text = json_text (\<lambda>d. []) '':'' 0"

definition indented_text :: "json \<Rightarrow> string" where
  "indented_text = json_text (\<lambda>d. CHR 0x0A # replicate (2 * d) (CHR '' '')) '': '' 0"

text \<open>Trees as the scanner builds them.\<close>

definition raw_ok :: "string \<Rightarrow> bool" where
  "raw_ok raw \<longleftrightarrow> scan_chars (raw @ [dquote]) = Some (raw, [])"

definition number_ok :: "string \<Rightarrow> bool" where
  "number_ok num \<longleftrightarrow> scan_number num = Some (num, [])"

fun json_ok :: "json \<Rightarrow> bool" where
  "json_ok (JNum num) = number_ok num"
| "json_ok (JStr raw) = raw_ok raw"
| "json_ok (JArr vs) = (\<forall>v\<in>set vs. json_ok v)"
| "json_ok (JObj kvs) = (\<forall>(k, v)\<in>set kvs. raw_ok k \<and> json_ok v)"
| "json_ok _ = True"

section \<open>Lemmas: strings and numbers\<close>

lemma hex4_long: "hex4 s \<noteq> None \<Longrightarrow> 4 \<le> length s"
  by (auto simp: hex4_def split: list.splits option.splits dest!: arg_cong [where f = length])

lemma char_len_le: "char_len s \<le> length s"
  using hex4_long [of "tl (tl s)"] by (auto simp: char_len_def split: list.splits)

lemma hex4_take: "4 \<le> length s \<Longrightarrow> hex4 (take 4 s @ r) = hex4 s"
  by (simp add: hex4_def)

lemma char_len_prefix: "char_len s = Suc n \<Longrightarrow> char_len (take (Suc n) s @ r) = Suc n"
  using hex4_take [of "tl (tl s)" r] hex4_long [of "tl (tl s)"]
  by (auto simp: char_len_def split: list.splits if_splits)

lemma scan_chars_close: "scan_chars (dquote # r) = Some ([], r)"
  by (subst scan_chars.simps) (simp add: char_len_def)

lemma scan_chars_step:
  "char_len s = Suc n \<Longrightarrow> scan_chars s = map_option (\<lambda>(raw, r). (take (Suc n) s @ raw, r)) (scan_chars (drop (Suc n) s))"
  by (subst scan_chars.simps) simp

text \<open>What was read is the text up to the quotation mark, and it is read again before any other text.\<close>

lemma scan_chars_Some:
  "scan_chars s = Some (raw, t) \<Longrightarrow> s = raw @ dquote # t \<and> scan_chars (raw @ dquote # r) = Some (raw, r)"
proof (induction s arbitrary: raw rule: scan_chars.induct)
  case (1 s)
  show ?case
  proof (cases "char_len s")
    case 0
    with "1.prems" show ?thesis
      by (subst (asm) scan_chars.simps) (auto simp: scan_chars_close split: list.splits if_splits)
  next
    case (Suc n)
    with "1.prems" obtain raw' where rest: "scan_chars (drop (Suc n) s) = Some (raw', t)" and raw: "raw = take (Suc n) s @ raw'"
      by (auto simp: scan_chars_step)
    from "1.IH" [OF Suc rest] have ih: "drop (Suc n) s = raw' @ dquote # t" "scan_chars (raw' @ dquote # r) = Some (raw', r)"
      by simp_all
    have len: "length (take (Suc n) s) = Suc n" using char_len_le [of s] Suc by simp
    have "scan_chars (take (Suc n) s @ raw' @ dquote # r) = Some (take (Suc n) s @ raw', r)"
      using scan_chars_step [OF char_len_prefix [OF Suc, of "raw' @ dquote # r"]] ih(2) len by simp
    with ih(1) show ?thesis unfolding raw by (metis append_assoc append_take_drop_id)
  qed
qed

lemma raw_okD: "raw_ok raw \<Longrightarrow> scan_chars (raw @ dquote # r) = Some (raw, r)"
  unfolding raw_ok_def using scan_chars_Some by blast

lemma scan_chars_ok: "scan_chars s = Some (raw, t) \<Longrightarrow> raw_ok raw"
  unfolding raw_ok_def using scan_chars_Some [of s raw t "[]"] by simp

text \<open>The text after a number does not go on with it.\<close>

definition number_char :: "char \<Rightarrow> bool" where
  "number_char c \<longleftrightarrow> is_digit c \<or> c = CHR ''.'' \<or> c = CHR ''e'' \<or> c = CHR ''E''"

definition delimited :: "string \<Rightarrow> bool" where
  "delimited r \<longleftrightarrow> r = [] \<or> \<not> number_char (hd r)"

definition no_digit :: "string \<Rightarrow> bool" where
  "no_digit r \<longleftrightarrow> r = [] \<or> \<not> is_digit (hd r)"

lemma digits_of_append:
  "no_digit r \<Longrightarrow> digits_of (digits_of s @ r) = digits_of s \<and> dropWhile is_digit (digits_of s @ r) = r"
proof -
  assume "no_digit r"
  then have r: "takeWhile is_digit r = []" "dropWhile is_digit r = r"
    by (cases r; simp add: no_digit_def)+
  have "\<forall>c\<in>set (takeWhile is_digit s). is_digit c" by (auto dest: set_takeWhileD)
  with r show ?thesis
    by (simp add: digits_of_def takeWhile_append2 dropWhile_append2)
qed

lemma digits_split: "digits_of s @ dropWhile is_digit s = s"
  by (simp add: digits_of_def)

lemma no_digit_drop: "no_digit (dropWhile is_digit s)"
  using hd_dropWhile [of is_digit s] by (auto simp: no_digit_def)

lemma scan_int_Some:
  assumes "scan_int s = Some (ip, t)"
  shows "s = ip @ t \<and> ip \<noteq> [] \<and> (no_digit r \<longrightarrow> scan_int (ip @ r) = Some (ip, r))"
proof -
  obtain c s' where s: "s = c # s'" using assms by (cases s) (simp_all add: scan_int_def)
  show ?thesis
  proof (cases "c = CHR ''0''")
    case True
    with assms s show ?thesis by (auto simp: scan_int_def)
  next
    case False
    with assms s have d: "is_digit c" and ip: "ip = digits_of s" and t: "t = dropWhile is_digit s"
      by (auto simp: scan_int_def split: if_splits)
    from d s have hd: "ip = c # digits_of s'" by (simp add: ip digits_of_def)
    have "no_digit r \<Longrightarrow> digits_of (ip @ r) = ip \<and> dropWhile is_digit (ip @ r) = r"
      unfolding ip by (rule digits_of_append)
    with False d hd have "no_digit r \<Longrightarrow> scan_int (ip @ r) = Some (ip, r)"
      by (simp add: scan_int_def)
    with hd digits_split [of s] show ?thesis by (simp add: ip t)
  qed
qed

lemma scan_frac_Some:
  assumes "scan_frac s = Some (fp, t)"
  shows "s = fp @ t \<and> (fp = [] \<or> hd fp = CHR ''.'')
    \<and> (no_digit r \<and> (fp = [] \<longrightarrow> r = [] \<or> hd r \<noteq> CHR ''.'') \<longrightarrow> scan_frac (fp @ r) = Some (fp, r))"
proof (cases "fp = []")
  case True
  with assms have "t = s" by (auto simp: scan_frac_def split: list.splits if_splits)
  with True show ?thesis by (cases r) (auto simp: scan_frac_def)
next
  case False
  with assms obtain s' where s: "s = CHR ''.'' # s'" "fp = CHR ''.'' # digits_of s'" "digits_of s' \<noteq> []"
      "t = dropWhile is_digit s'"
    by (auto simp: scan_frac_def split: list.splits if_splits)
  have "no_digit r \<Longrightarrow> scan_frac (fp @ r) = Some (fp, r)"
    using digits_of_append [of r s'] s(3) by (simp add: scan_frac_def s(2))
  with False digits_split [of s'] show ?thesis by (simp add: s(1,2,4))
qed

lemma scan_exp_Some:
  assumes "scan_exp s = Some (ep, t)"
  shows "s = ep @ t \<and> (ep = [] \<or> hd ep = CHR ''e'' \<or> hd ep = CHR ''E'')
    \<and> (no_digit r \<and> (ep = [] \<longrightarrow> r = [] \<or> hd r \<noteq> CHR ''e'' \<and> hd r \<noteq> CHR ''E'') \<longrightarrow> scan_exp (ep @ r) = Some (ep, r))"
proof (cases "ep = []")
  case True
  with assms have "t = s" by (auto simp: scan_exp_def split: list.splits if_splits prod.splits)
  with True show ?thesis by (cases r) (auto simp: scan_exp_def)
next
  case False
  with assms obtain c s' sg s2 where s: "s = c # s'" "c = CHR ''e'' \<or> c = CHR ''E''" "scan_sign s' = (sg, s2)"
      "ep = c # sg @ digits_of s2" "digits_of s2 \<noteq> []" "t = dropWhile is_digit s2"
    by (auto simp: scan_exp_def split: list.splits if_splits prod.splits)
  obtain d ds where dg: "digits_of s2 = d # ds" "is_digit d"
    using s(5) by (cases s2) (auto simp: digits_of_def split: if_splits)
  have sign: "s' = sg @ s2" "scan_sign (sg @ digits_of s2 @ r) = (sg, digits_of s2 @ r)"
    using s(3) dg by (auto simp: scan_sign_def is_digit_def split: list.splits if_splits)
  have "no_digit r \<Longrightarrow> scan_exp (ep @ r) = Some (ep, r)"
    using s(2,5) sign(2) digits_of_append [of r s2] by (auto simp: scan_exp_def s(4))
  with False digits_split [of s2] s(2) show ?thesis by (simp add: s(1,4,6) sign(1))
qed

lemma scan_number_Some:
  assumes "scan_number s = Some (num, t)"
  shows "s = num @ t \<and> num \<noteq> [] \<and> (delimited r \<longrightarrow> scan_number (num @ r) = Some (num, r))"
proof -
  define sign where "sign s = (case s of c # r \<Rightarrow> if c = CHR ''-'' then ([c], r) else ([], s) | [] \<Rightarrow> ([], s))"
    for s :: string
  obtain sg s1 where sg: "sign s = (sg, s1)" by (metis prod.exhaust)
  from assms sg obtain ip s2 fp s3 ep where
    p: "scan_int s1 = Some (ip, s2)" "scan_frac s2 = Some (fp, s3)" "scan_exp s3 = Some (ep, t)" "num = sg @ ip @ fp @ ep"
    unfolding scan_number_def sign_def [symmetric] by (auto simp: Option.bind_eq_Some_conv)
  have s: "s = sg @ s1" using sg by (auto simp: sign_def split: list.splits if_splits)
  obtain c ip' where ip: "ip = c # ip'" using scan_int_Some [OF p(1)] by (cases ip) auto
  have "c \<noteq> CHR ''-''" using p(1) ip by (auto simp: scan_int_def digits_of_def is_digit_def split: list.splits if_splits)
  with sg ip have sign: "sign (sg @ ip @ x) = (sg, ip @ x)" for x
    by (auto simp: sign_def split: list.splits if_splits)
  have "scan_number (num @ r) = Some (num, r)" if d: "delimited r"
  proof -
    have dot: "\<not> is_digit CHR ''.''" "\<not> is_digit CHR ''e''" "\<not> is_digit CHR ''E''" by (simp_all add: is_digit_def)
    have e: "scan_exp (ep @ r) = Some (ep, r)"
      using scan_exp_Some [OF p(3), of r] d by (auto simp: delimited_def no_digit_def number_char_def)
    have n3: "no_digit (ep @ r)" "ep @ r = [] \<or> hd (ep @ r) \<noteq> CHR ''.''"
      using scan_exp_Some [OF p(3), of r] d dot
      by (cases ep; auto simp: delimited_def no_digit_def number_char_def)+
    have f: "scan_frac (fp @ ep @ r) = Some (fp, ep @ r)"
      using scan_frac_Some [OF p(2), of "ep @ r"] n3 by auto
    have n2: "no_digit (fp @ ep @ r)"
      using scan_frac_Some [OF p(2), of "ep @ r"] n3 dot by (cases fp) (auto simp: no_digit_def)
    have i: "scan_int (ip @ fp @ ep @ r) = Some (ip, fp @ ep @ r)"
      using scan_int_Some [OF p(1), of "fp @ ep @ r"] n2 by blast
    show ?thesis
      unfolding scan_number_def sign_def [symmetric] p(4) using sign [of "fp @ ep @ r"] i f e by simp
  qed
  moreover have "s = num @ t"
    using s scan_int_Some [OF p(1)] scan_frac_Some [OF p(2)] scan_exp_Some [OF p(3)] by (simp add: p(4))
  ultimately show ?thesis using ip p(4) by simp
qed

lemma number_okD: "number_ok num \<Longrightarrow> delimited r \<Longrightarrow> scan_number (num @ r) = Some (num, r)"
  unfolding number_ok_def using scan_number_Some by blast

lemma scan_number_ok: "scan_number s = Some (num, t) \<Longrightarrow> number_ok num"
  unfolding number_ok_def using scan_number_Some [of s num t "[]"] by (simp add: delimited_def)

section \<open>Lemmas: reading what was written\<close>

abbreviation spaces :: "string \<Rightarrow> bool" where
  "spaces ws \<equiv> list_all json_space ws"

lemma json_skip_spaces: "spaces ws \<Longrightarrow> json_skip (ws @ s) = json_skip s"
  by (induction ws) auto

lemma json_skip_idem [simp]: "json_skip (json_skip s) = json_skip s"
  by (induction s) auto

lemma json_value_skip: "json_value n (json_skip s) = json_value n s"
  by (cases n) simp_all

lemma json_members_skip: "json_members n (json_skip s) = json_members n s"
  by (cases n) simp_all

lemma json_elements_skip: "json_elements n (json_skip s) = json_elements n s"
  by (cases n) (simp_all add: json_value_skip)

lemma json_value_spaces: "spaces ws \<Longrightarrow> json_value n (ws @ s) = json_value n s"
  by (metis json_value_skip json_skip_spaces)

lemma json_members_spaces: "spaces ws \<Longrightarrow> json_members n (ws @ s) = json_members n s"
  by (metis json_members_skip json_skip_spaces)

lemma json_elements_spaces: "spaces ws \<Longrightarrow> json_elements n (ws @ s) = json_elements n s"
  by (metis json_elements_skip json_skip_spaces)

text \<open>The number of calls a tree takes to read.\<close>

fun json_calls :: "json \<Rightarrow> nat" where
  "json_calls (JArr vs) = Suc (sum_list (map (\<lambda>v. Suc (json_calls v)) vs))"
| "json_calls (JObj kvs) = Suc (sum_list (map (\<lambda>(k, v). Suc (json_calls v)) kvs))"
| "json_calls _ = 1"

lemma number_head:
  assumes "number_ok num"
  shows "\<exists>c t. num = c # t \<and> (c = CHR ''-'' \<or> is_digit c)"
proof -
  from assms obtain c t where n: "num = c # t" using scan_number_Some [of num num "[]"]
    by (cases num) (auto simp: number_ok_def)
  have "c = CHR ''-'' \<or> is_digit c"
  proof (rule ccontr)
    assume a: "\<not> ?thesis"
    moreover from a have "c \<noteq> CHR ''0''" by (auto simp: is_digit_def)
    ultimately have "scan_number num = None" by (simp add: scan_number_def scan_int_def n)
    with assms show False by (simp add: number_ok_def)
  qed
  with n show ?thesis by blast
qed

lemma number_start:
  "c = CHR ''-'' \<or> is_digit c \<Longrightarrow>
   \<not> json_space c \<and> c \<noteq> CHR ''{'' \<and> c \<noteq> CHR ''['' \<and> c \<noteq> dquote \<and> c \<noteq> CHR ''t'' \<and> c \<noteq> CHR ''f'' \<and> c \<noteq> CHR ''n''
   \<and> c \<noteq> CHR '']'' \<and> c \<noteq> CHR ''}''"
  by (auto simp: json_space_def is_digit_def)

lemma sum_list_le: "(\<And>x. x \<in> set xs \<Longrightarrow> f x \<le> k * g x) \<Longrightarrow> sum_list (map f xs) \<le> k * sum_list (map g xs)"
  for k :: nat
  by (induction xs) (auto simp: add_mult_distrib2 intro: add_mono)

lemma length_join: "xs \<noteq> [] \<Longrightarrow> Suc (length (join '','' (map f xs))) = sum_list (map (\<lambda>x. Suc (length (f x))) xs)"
proof (induction xs)
  case (Cons x xs)
  then show ?case by (cases "xs = []") (simp_all add: join_Cons)
qed simp

locale json_layout =
  fixes nl :: "nat \<Rightarrow> string" and colon :: string
  assumes nl_spaces: "spaces (nl d)"
    and colon_shape: "\<exists>ws. colon = CHR '':'' # ws \<and> spaces ws"
begin

lemma text_head:
  assumes "json_ok j"
  shows "\<exists>c t. json_text nl colon d j = c # t \<and> \<not> json_space c \<and> c \<noteq> CHR '']'' \<and> c \<noteq> CHR ''}''"
proof (cases j)
  case (JNum num)
  with assms have "number_ok num" by simp
  from number_head [OF this] obtain c t where n: "num = c # t" "c = CHR ''-'' \<or> is_digit c" by (elim exE conjE)
  from number_start [OF n(2)] n(1) JNum show ?thesis by simp
qed (simp_all add: json_space_def)

lemma close_delimits: "delimited (nl d @ CHR '']'' # r)" "delimited (nl d @ CHR ''}'' # r)"
  using nl_spaces [of d] by (cases "nl d"; auto simp: delimited_def number_char_def is_digit_def json_space_def)+

lemma comma_delimits: "delimited (CHR '','' # r)"
  by (simp add: delimited_def number_char_def is_digit_def)

lemma read_elements:
  assumes "\<And>v n r. v \<in> set vs \<Longrightarrow> json_calls v \<le> n \<Longrightarrow> delimited r \<Longrightarrow>
      json_value n (json_text nl colon (Suc d) v @ r) = Some (v, r)"
    and "vs \<noteq> []" and "sum_list (map (\<lambda>v. Suc (json_calls v)) vs) \<le> n"
  shows "json_elements n (join '','' (map (\<lambda>v. nl (Suc d) @ json_text nl colon (Suc d) v) vs) @ nl d @ CHR '']'' # r)
    = Some (vs, r)"
  using assms
proof (induction vs arbitrary: n)
  case (Cons v vs)
  from Cons.prems(3) obtain m where n: "n = Suc m" "json_calls v \<le> m" "sum_list (map (\<lambda>v. Suc (json_calls v)) vs) \<le> m"
    by (cases n) auto
  have v: "delimited x \<Longrightarrow> json_value m (nl (Suc d) @ json_text nl colon (Suc d) v @ x) = Some (v, x)" for x
    using Cons.prems(1) [of v m x] n(2) by (simp add: json_value_spaces [OF nl_spaces])
  show ?case
  proof (cases "vs = []")
    case True
    then show ?thesis
      using v [OF close_delimits(1) [of d r]]
      by (simp add: n(1) json_skip_spaces [OF nl_spaces] json_space_def)
  next
    case False
    let ?rest = "join '','' (map (\<lambda>v. nl (Suc d) @ json_text nl colon (Suc d) v) vs) @ nl d @ CHR '']'' # r"
    have "json_elements m ?rest = Some (vs, r)"
      using Cons.IH [of m] Cons.prems(1) False n(3) by simp
    with v [OF comma_delimits, of ?rest] False show ?thesis
      by (simp add: n(1) join_Cons json_space_def)
  qed
qed simp

lemma read_members:
  assumes "\<And>k v n r. (k, v) \<in> set kvs \<Longrightarrow> json_calls v \<le> n \<Longrightarrow> delimited r \<Longrightarrow>
      json_value n (json_text nl colon (Suc d) v @ r) = Some (v, r)"
    and "\<And>k v. (k, v) \<in> set kvs \<Longrightarrow> raw_ok k"
    and "kvs \<noteq> []" and "sum_list (map (\<lambda>(k, v). Suc (json_calls v)) kvs) \<le> n"
  shows "json_members n (join '','' (map (\<lambda>(k, v). nl (Suc d) @ dquote # k @ dquote # colon @ json_text nl colon (Suc d) v) kvs)
      @ nl d @ CHR ''}'' # r) = Some (kvs, r)"
  using assms
proof (induction kvs arbitrary: n)
  case (Cons kv kvs)
  obtain k v where kv: "kv = (k, v)" by (cases kv)
  from Cons.prems(4) kv obtain m where n: "n = Suc m" "json_calls v \<le> m" "sum_list (map (\<lambda>(k, v). Suc (json_calls v)) kvs) \<le> m"
    by (cases n) auto
  obtain ws where colon: "colon = CHR '':'' # ws" "spaces ws" using colon_shape by blast
  have k: "scan_chars (k @ dquote # x) = Some (k, x)" for x
    by (rule raw_okD) (use Cons.prems(2) kv in auto)
  have v: "delimited x \<Longrightarrow> json_value m (ws @ json_text nl colon (Suc d) v @ x) = Some (v, x)" for x
    using Cons.prems(1) [of k v m x] n(2) by (simp add: kv json_value_spaces [OF colon(2)])
  have sp: "\<not> json_space dquote" "\<not> json_space CHR '':''" "\<not> json_space CHR '',''" "\<not> json_space CHR ''}''"
    by (simp_all add: json_space_def)
  show ?case
  proof (cases "kvs = []")
    case True
    have "json_members (Suc m) (dquote # k @ dquote # colon @ json_text nl colon (Suc d) v @ nl d @ CHR ''}'' # r) = Some ([(k, v)], r)"
      using v [OF close_delimits(2) [of d r]] k sp by (simp add: colon(1) json_skip_spaces [OF nl_spaces])
    with True show ?thesis by (simp add: n(1) kv json_members_spaces [OF nl_spaces] del: json_members.simps)
  next
    case False
    let ?rest = "join '','' (map (\<lambda>(k, v). nl (Suc d) @ dquote # k @ dquote # colon @ json_text nl colon (Suc d) v) kvs)
      @ nl d @ CHR ''}'' # r"
    have "json_members m ?rest = Some (kvs, r)"
      using Cons.IH [of m] Cons.prems(1,2) False n(3) by fastforce
    then have "json_members (Suc m) (dquote # k @ dquote # colon @ json_text nl colon (Suc d) v @ CHR '','' # ?rest) = Some ((k, v) # kvs, r)"
      using v [OF comma_delimits, of ?rest] k sp by (simp add: colon(1))
    with False show ?thesis
      by (simp add: n(1) kv join_Cons json_members_spaces [OF nl_spaces] del: json_members.simps)
  qed
qed simp

lemma read_text:
  "json_ok j \<Longrightarrow> json_calls j \<le> n \<Longrightarrow> delimited r \<Longrightarrow> json_value n (json_text nl colon d j @ r) = Some (j, r)"
proof (induction j arbitrary: d n r)
  case JNull
  then show ?case by (cases n) (simp_all add: json_space_def has_prefix_def)
next
  case (JBool b)
  then show ?case by (cases n; cases b) (simp_all add: json_space_def has_prefix_def)
next
  case (JNum num)
  from JNum.prems(1) have "number_ok num" by simp
  from number_head [OF this] obtain c t where c: "num = c # t" "c = CHR ''-'' \<or> is_digit c" by (elim exE conjE)
  have "scan_number (num @ r) = Some (num, r)" by (rule number_okD) (use JNum.prems in simp_all)
  then have num: "scan_number (c # t @ r) = Some (num, r)" by (simp add: c(1))
  from number_start [OF c(2)] JNum.prems(2) num show ?case
    by (cases n) (simp_all add: c(1) has_prefix_def)
next
  case (JStr raw)
  then show ?case by (cases n) (simp_all add: json_space_def raw_okD)
next
  case (JArr vs)
  then obtain m where m: "n = Suc m" by (cases n) auto
  show ?case
  proof (cases "vs = []")
    case True
    with m show ?thesis by (simp add: json_space_def)
  next
    case False
    let ?body = "join '','' (map (\<lambda>v. nl (Suc d) @ json_text nl colon (Suc d) v) vs) @ nl d @ CHR '']'' # r"
    have els: "json_elements m ?body = Some (vs, r)"
      using JArr False m by (intro read_elements) auto
    obtain v vs' where vs: "vs = v # vs'" using False by (cases vs) auto
    have "json_ok v" using JArr.prems(1) vs by simp
    from text_head [OF this, of "Suc d"] obtain c t where
      c: "json_text nl colon (Suc d) v = c # t" "\<not> json_space c" "c \<noteq> CHR '']''" by blast
    have "\<exists>x. json_skip ?body = c # x"
      using c by (cases "vs' = []") (simp_all add: vs join_Cons json_skip_spaces [OF nl_spaces])
    then obtain x where x: "json_skip ?body = c # x" by blast
    with els have "json_elements m (c # x) = Some (vs, r)" by (metis json_elements_skip)
    with x c(3) False m show ?thesis by (simp add: json_space_def)
  qed
next
  case (JObj kvs)
  then obtain m where m: "n = Suc m" by (cases n) auto
  show ?case
  proof (cases "kvs = []")
    case True
    with m show ?thesis by (simp add: json_space_def)
  next
    case False
    let ?body = "join '','' (map (\<lambda>(k, v). nl (Suc d) @ dquote # k @ dquote # colon @ json_text nl colon (Suc d) v) kvs)
      @ nl d @ CHR ''}'' # r"
    have mem: "json_members m ?body = Some (kvs, r)"
      using JObj False m by (intro read_members) auto
    obtain k v kvs' where kvs: "kvs = (k, v) # kvs'" using False by (cases kvs) auto
    have "\<exists>x. json_skip ?body = dquote # x"
      by (cases "kvs' = []") (simp_all add: kvs join_Cons json_skip_spaces [OF nl_spaces] json_space_def)
    then obtain x where x: "json_skip ?body = dquote # x" by blast
    with mem have "json_members m (dquote # x) = Some (kvs, r)" by (metis json_members_skip)
    with x False m show ?thesis by (simp add: json_space_def)
  qed
qed

text \<open>A tree takes at most two calls per character to read.\<close>

lemma calls_length: "json_ok j \<Longrightarrow> json_calls j \<le> 2 * length (json_text nl colon d j)"
proof (induction j arbitrary: d)
  case (JNum num)
  then have "number_ok num" by simp
  from number_head [OF this] show ?case by auto
next
  case (JArr vs)
  let ?f = "\<lambda>v. nl (Suc d) @ json_text nl colon (Suc d) v"
  have "Suc (json_calls v) \<le> 2 * Suc (length (?f v))" if "v \<in> set vs" for v
    using JArr.IH [OF that, of "Suc d"] JArr.prems that by simp
  then have sum: "sum_list (map (\<lambda>v. Suc (json_calls v)) vs) \<le> 2 * sum_list (map (\<lambda>v. Suc (length (?f v))) vs)"
    by (rule sum_list_le)
  show ?case
  proof (cases "vs = []")
    case False
    with sum length_join [of vs ?f] show ?thesis by simp
  qed simp
next
  case (JObj kvs)
  let ?f = "\<lambda>(k, v). nl (Suc d) @ dquote # k @ dquote # colon @ json_text nl colon (Suc d) v"
  have "(case kv of (k, v) \<Rightarrow> Suc (json_calls v)) \<le> 2 * Suc (length (?f kv))" if "kv \<in> set kvs" for kv
  proof -
    obtain k v where kv: "kv = (k, v)" by (cases kv)
    with JObj.IH [of kv v "Suc d"] JObj.prems that show ?thesis by auto
  qed
  then have sum: "sum_list (map (\<lambda>(k, v). Suc (json_calls v)) kvs) \<le> 2 * sum_list (map (\<lambda>kv. Suc (length (?f kv))) kvs)"
    by (rule sum_list_le)
  show ?case
  proof (cases "kvs = []")
    case False
    with sum length_join [of kvs ?f] show ?thesis by simp
  qed simp
qed simp_all

lemma parse_text:
  assumes "json_ok j" and "json_depth j \<le> max_nesting"
  shows "parse_json (json_text nl colon d j) = Some j"
proof -
  have "json_value (2 * length (json_text nl colon d j) + 2) (json_text nl colon d j @ []) = Some (j, [])"
    using calls_length [OF assms(1), of d] assms(1) by (intro read_text) (simp_all add: delimited_def)
  with assms(2) show ?thesis by (simp add: parse_json_def)
qed

end

interpretation compact: json_layout "\<lambda>d. []" "'':''"
  by unfold_locales simp_all

interpretation indented: json_layout "\<lambda>d. CHR 0x0A # replicate (2 * d) (CHR '' '')" "'': ''"
  by unfold_locales (simp_all add: json_space_def list_all_iff)

lemma parse_compact: "json_ok j \<Longrightarrow> json_depth j \<le> max_nesting \<Longrightarrow> parse_json (compact_text j) = Some j"
  by (simp add: compact_text_def compact.parse_text)

lemma parse_indented: "json_ok j \<Longrightarrow> json_depth j \<le> max_nesting \<Longrightarrow> parse_json (indented_text j) = Some j"
  by (simp add: indented_text_def indented.parse_text)

section \<open>Lemmas: the bound on the calls\<close>

lemma length_json_skip: "length (json_skip s) \<le> length s"
  by (induction s) auto

lemma json_skip_Cons: "json_skip s = c # r \<Longrightarrow> Suc (length r) \<le> length s"
  using length_json_skip [of s] by simp

text \<open>
  Reading a value uses up text, gives a tree as the scanner builds it, and does not need more calls
  than twice the characters used up.
\<close>

definition reads :: "(nat \<Rightarrow> string \<Rightarrow> ('a \<times> string) option) \<Rightarrow> ('a \<Rightarrow> bool) \<Rightarrow> nat \<Rightarrow> string \<Rightarrow> bool" where
  "reads rd ok n s \<longleftrightarrow>
     (\<forall>x r. rd n s = Some (x, r) \<longrightarrow>
        ok x \<and> length r < length s \<and> (\<forall>m. 2 * (length s - length r) \<le> m \<longrightarrow> rd m s = Some (x, r)))"

lemma scan_lengths:
  "scan_chars s = Some (raw, t) \<Longrightarrow> length t < length s"
  "scan_number s = Some (num, t) \<Longrightarrow> length t < length s"
  using scan_chars_Some [of s raw t] scan_number_Some [of s num t] by (auto simp: length_greater_0_conv)

lemma json_value_cases:
  assumes "json_value (Suc n) s = Some (j, r)"
  obtains (direct) "json_ok j" "length r < length s" "\<And>m. json_value (Suc m) s = Some (j, r)"
  | (array) s0 t vs where "json_skip s = CHR ''['' # s0" "json_skip s0 = t" "t \<noteq> []" "hd t \<noteq> CHR '']''"
      "json_elements n t = Some (vs, r)" "j = JArr vs"
  | (object) s0 t kvs where "json_skip s = CHR ''{'' # s0" "json_skip s0 = t" "t \<noteq> []" "hd t \<noteq> CHR ''}''"
      "json_members n t = Some (kvs, r)" "j = JObj kvs"
proof -
  obtain c s0 where s: "json_skip s = c # s0" using assms by (cases "json_skip s") auto
  note len = json_skip_Cons [OF s]
  consider "c = CHR ''{''" | "c = CHR ''[''" | "c = dquote" | "c \<noteq> CHR ''{''" "c \<noteq> CHR ''[''" "c \<noteq> dquote" by blast
  then show thesis
  proof cases
    case 1
    with assms s obtain d s1 where s0: "json_skip s0 = d # s1" by (cases "json_skip s0") auto
    show ?thesis
    proof (cases "d = CHR ''}''")
      case True
      with assms s 1 s0 json_skip_Cons [OF s0] len show ?thesis by (intro direct) auto
    next
      case False
      with assms s 1 s0 show ?thesis by (auto intro!: object)
    qed
  next
    case 2
    with assms s obtain d s1 where s0: "json_skip s0 = d # s1" by (cases "json_skip s0") auto
    show ?thesis
    proof (cases "d = CHR '']''")
      case True
      with assms s 2 s0 json_skip_Cons [OF s0] len show ?thesis by (intro direct) auto
    next
      case False
      with assms s 2 s0 show ?thesis by (auto intro!: array)
    qed
  next
    case 3
    with assms s obtain raw where "scan_chars s0 = Some (raw, r)" "j = JStr raw" by auto
    with assms s 3 len scan_lengths(1) scan_chars_ok show ?thesis by (intro direct) fastforce+
  next
    case 4
    show ?thesis
    proof (rule direct)
      show "json_value (Suc m) s = Some (j, r)" for m using assms s 4 by simp
      show "json_ok j" using assms s 4 by (auto split: if_splits dest: scan_number_ok)
      show "length r < length s" using assms s 4 len by (auto split: if_splits dest: scan_lengths(2))
    qed
  qed
qed

abbreviation members_ok :: "(string \<times> json) list \<Rightarrow> bool" where
  "members_ok kvs \<equiv> \<forall>(k, v)\<in>set kvs. raw_ok k \<and> json_ok v"

lemma readsD:
  assumes "reads rd ok n s" and "rd n s = Some (x, r)"
  shows "ok x" "length r < length s" "2 * (length s - length r) \<le> m \<Longrightarrow> rd m s = Some (x, r)"
  using assms unfolding reads_def by auto

lemma value_reads:
  assumes els: "\<And>s. reads json_elements (\<lambda>vs. \<forall>v\<in>set vs. json_ok v) n s"
    and mem: "\<And>s. reads json_members members_ok n s"
  shows "reads json_value json_ok (Suc n) s"
  unfolding reads_def
proof (intro allI impI)
  fix j r
  assume v: "json_value (Suc n) s = Some (j, r)"
  have enough: "\<exists>m'. m = Suc m' \<and> 2 * (length t - length r) \<le> m'"
    if "2 * (length s - length r) \<le> m" "length t < length s" "length r < length t" for m and t :: string
    using that by (intro exI [of _ "m - 1"]) auto
  show "json_ok j \<and> length r < length s \<and> (\<forall>m. 2 * (length s - length r) \<le> m \<longrightarrow> json_value m s = Some (j, r))"
    using v
  proof (cases rule: json_value_cases)
    case direct
    moreover have "\<exists>m'. m = Suc m'" if "2 * (length s - length r) \<le> m" for m
      using that direct(2) by (cases m) auto
    ultimately show ?thesis by blast
  next
    case (array s0 t vs)
    note rd = readsD [OF els array(5)]
    have len: "length t < length s" using json_skip_Cons [OF array(1)] length_json_skip [of s0] array(2) by simp
    have "json_value m s = Some (j, r)" if m: "2 * (length s - length r) \<le> m" for m
    proof -
      from enough [OF m len rd(2)] obtain m' where m': "m = Suc m'" "2 * (length t - length r) \<le> m'" by blast
      from rd(3) [OF m'(2)] array show ?thesis by (cases t) (simp_all add: m'(1))
    qed
    with rd(1,2) len array(6) show ?thesis by auto
  next
    case (object s0 t kvs)
    note rd = readsD [OF mem object(5)]
    have len: "length t < length s" using json_skip_Cons [OF object(1)] length_json_skip [of s0] object(2) by simp
    have "json_value m s = Some (j, r)" if m: "2 * (length s - length r) \<le> m" for m
    proof -
      from enough [OF m len rd(2)] obtain m' where m': "m = Suc m'" "2 * (length t - length r) \<le> m'" by blast
      from rd(3) [OF m'(2)] object show ?thesis by (cases t) (simp_all add: m'(1))
    qed
    with rd(1,2) len object(6) show ?thesis by auto
  qed
qed

declare json_value.simps(2) [simp del] json_elements.simps(2) [simp del] json_members.simps(2) [simp del]

lemma json_elements_cases:
  assumes "json_elements (Suc n) s = Some (vs, r)"
  obtains (last) v r1 where "json_value n s = Some (v, r1)" "json_skip r1 = CHR '']'' # r" "vs = [v]"
  | (more) v r1 t vs' where "json_value n s = Some (v, r1)" "json_skip r1 = CHR '','' # t"
      "json_elements n t = Some (vs', r)" "vs = v # vs'"
proof -
  note e = assms [unfolded json_elements.simps(2)]
  from e obtain v r1 where v: "json_value n s = Some (v, r1)" by (cases "json_value n s") auto
  from e v obtain c t where t: "json_skip r1 = c # t" by (cases "json_skip r1") auto
  from e v t have
    "(if c = CHR '','' then map_option (\<lambda>(vs, t). (v # vs, t)) (json_elements n t)
      else if c = CHR '']'' then Some ([v], t) else None) = Some (vs, r)" by simp
  then consider "c = CHR '',''" "\<exists>vs'. json_elements n t = Some (vs', r) \<and> vs = v # vs'"
    | "c = CHR '']''" "t = r" "vs = [v]"
    by (auto split: if_splits)
  then show thesis
  proof cases
    case 1
    with v t more show ?thesis by blast
  next
    case 2
    with v t last show ?thesis by blast
  qed
qed

lemma elements_reads:
  assumes val: "\<And>s. reads json_value json_ok n s"
    and els: "\<And>s. reads json_elements (\<lambda>vs. \<forall>v\<in>set vs. json_ok v) n s"
  shows "reads json_elements (\<lambda>vs. \<forall>v\<in>set vs. json_ok v) (Suc n) s"
  unfolding reads_def
proof (intro allI impI)
  fix vs r
  assume "json_elements (Suc n) s = Some (vs, r)"
  then show "(\<forall>v\<in>set vs. json_ok v) \<and> length r < length s
    \<and> (\<forall>m. 2 * (length s - length r) \<le> m \<longrightarrow> json_elements m s = Some (vs, r))"
  proof (cases rule: json_elements_cases)
    case (last v r1)
    note v = readsD [OF val last(1)] and len = json_skip_Cons [OF last(2)]
    have "json_elements m s = Some (vs, r)" if m: "2 * (length s - length r) \<le> m" for m
    proof -
      from m v(2) len obtain m' where m': "m = Suc m'" "2 * (length s - length r1) \<le> m'" by (cases m) auto
      from v(3) [OF m'(2)] last(2,3) show ?thesis by (simp add: m'(1) json_elements.simps(2))
    qed
    with v(1,2) len last(3) show ?thesis by auto
  next
    case (more v r1 t vs')
    note v = readsD [OF val more(1)] and len = json_skip_Cons [OF more(2)] and vs = readsD [OF els more(3)]
    have "json_elements m s = Some (vs, r)" if m: "2 * (length s - length r) \<le> m" for m
    proof -
      from m v(2) len vs(2) obtain m' where m': "m = Suc m'" "2 * (length s - length r1) \<le> m'" "2 * (length t - length r) \<le> m'"
        by (cases m) auto
      from v(3) [OF m'(2)] vs(3) [OF m'(3)] more(2,4) show ?thesis by (simp add: m'(1) json_elements.simps(2))
    qed
    with v(1,2) len vs(1,2) more(4) show ?thesis by auto
  qed
qed

lemma json_members_cases:
  assumes "json_members (Suc n) s = Some (kvs, r)"
  obtains (last) s1 k r1 r2 v r3 where "json_skip s = dquote # s1" "scan_chars s1 = Some (k, r1)"
      "json_skip r1 = CHR '':'' # r2" "json_value n r2 = Some (v, r3)" "json_skip r3 = CHR ''}'' # r" "kvs = [(k, v)]"
  | (more) s1 k r1 r2 v r3 t kvs' where "json_skip s = dquote # s1" "scan_chars s1 = Some (k, r1)"
      "json_skip r1 = CHR '':'' # r2" "json_value n r2 = Some (v, r3)" "json_skip r3 = CHR '','' # t"
      "json_members n t = Some (kvs', r)" "kvs = (k, v) # kvs'"
proof -
  note m = assms [unfolded json_members.simps(2)]
  from m obtain s1 where s1: "json_skip s = dquote # s1" by (cases "json_skip s") (auto split: if_splits)
  from m s1 obtain k r1 where k: "scan_chars s1 = Some (k, r1)" by (cases "scan_chars s1") auto
  from m s1 k obtain r2 where r2: "json_skip r1 = CHR '':'' # r2" by (cases "json_skip r1") (auto split: if_splits)
  from m s1 k r2 obtain v r3 where v: "json_value n r2 = Some (v, r3)" by (cases "json_value n r2") auto
  from m s1 k r2 v obtain c t where t: "json_skip r3 = c # t" by (cases "json_skip r3") auto
  from m s1 k r2 v t have
    "(if c = CHR '','' then map_option (\<lambda>(kvs, t). ((k, v) # kvs, t)) (json_members n t)
      else if c = CHR ''}'' then Some ([(k, v)], t) else None) = Some (kvs, r)" by simp
  then consider "c = CHR '',''" "\<exists>kvs'. json_members n t = Some (kvs', r) \<and> kvs = (k, v) # kvs'"
    | "c = CHR ''}''" "t = r" "kvs = [(k, v)]"
    by (auto split: if_splits)
  then show thesis
  proof cases
    case 1
    with s1 k r2 v t more show ?thesis by blast
  next
    case 2
    with s1 k r2 v t last show ?thesis by blast
  qed
qed

lemma members_reads:
  assumes val: "\<And>s. reads json_value json_ok n s"
    and mem: "\<And>s. reads json_members members_ok n s"
  shows "reads json_members members_ok (Suc n) s"
  unfolding reads_def
proof (intro allI impI)
  fix kvs r
  assume "json_members (Suc n) s = Some (kvs, r)"
  then show "members_ok kvs \<and> length r < length s
    \<and> (\<forall>m. 2 * (length s - length r) \<le> m \<longrightarrow> json_members m s = Some (kvs, r))"
  proof (cases rule: json_members_cases)
    case (last s1 k r1 r2 v r3)
    note v = readsD [OF val last(4)] and k = scan_chars_ok [OF last(2)]
      and len = json_skip_Cons [OF last(1)] scan_lengths(1) [OF last(2)] json_skip_Cons [OF last(3)] json_skip_Cons [OF last(5)]
    have "json_members m s = Some (kvs, r)" if m: "2 * (length s - length r) \<le> m" for m
    proof -
      from m v(2) len obtain m' where m': "m = Suc m'" "2 * (length r2 - length r3) \<le> m'" by (cases m) auto
      from v(3) [OF m'(2)] last(1-3,5,6) show ?thesis by (simp add: m'(1) json_members.simps(2))
    qed
    with v(1,2) k len last(6) show ?thesis by auto
  next
    case (more s1 k r1 r2 v r3 t kvs')
    note v = readsD [OF val more(4)] and k = scan_chars_ok [OF more(2)] and kvs = readsD [OF mem more(6)]
      and len = json_skip_Cons [OF more(1)] scan_lengths(1) [OF more(2)] json_skip_Cons [OF more(3)] json_skip_Cons [OF more(5)]
    have "json_members m s = Some (kvs, r)" if m: "2 * (length s - length r) \<le> m" for m
    proof -
      from m v(2) kvs(2) len obtain m' where m': "m = Suc m'" "2 * (length r2 - length r3) \<le> m'" "2 * (length t - length r) \<le> m'"
        by (cases m) auto
      from v(3) [OF m'(2)] kvs(3) [OF m'(3)] more(1-3,5,7) show ?thesis by (simp add: m'(1) json_members.simps(2))
    qed
    with v(1,2) k len kvs(1,2) more(7) show ?thesis by auto
  qed
qed

lemma json_reads:
  "(\<forall>s. reads json_value json_ok n s) \<and> (\<forall>s. reads json_elements (\<lambda>vs. \<forall>v\<in>set vs. json_ok v) n s)
   \<and> (\<forall>s. reads json_members members_ok n s)"
proof (induction n)
  case 0
  show ?case by (simp add: reads_def)
next
  case (Suc n)
  then have "reads json_value json_ok n s" "reads json_elements (\<lambda>vs. \<forall>v\<in>set vs. json_ok v) n s"
    "reads json_members members_ok n s" for s by blast+
  then show ?case by (intro conjI allI value_reads elements_reads members_reads)
qed

text \<open>So \<open>parse_json\<close> finds what any number of calls would find.\<close>

lemma parse_json_iff:
  "parse_json s = Some j \<longleftrightarrow> (\<exists>n r. json_value n s = Some (j, r) \<and> json_skip r = []) \<and> json_depth j \<le> max_nesting"
proof -
  have "json_value n s = Some (j, r) \<Longrightarrow> json_value (2 * length s + 2) s = Some (j, r)" for n r
    using json_reads [of n] readsD(3) [of json_value json_ok n s j r "2 * length s + 2"] by simp
  then show ?thesis by (auto simp: parse_json_def split: option.splits prod.splits)
qed

lemma parse_json_ok: "parse_json s = Some j \<Longrightarrow> json_ok j"
  unfolding parse_json_iff using json_reads readsD(1) by metis

end
