(* ===== verification/Go_Json_Values.thy ===== *)
theory Go_Json_Values
  imports Go_Json
begin

text \<open>
  The values in a JSON text: the quoting of strings with its treatment of UTF-8, numbers as
  \<open>float64\<close>, and \<open>json.Marshal\<close>, \<open>json.MarshalIndent\<close> and \<open>json.Unmarshal\<close> on dynamic values.
\<close>

section \<open>UTF-8\<close>

definition cont_byte :: "nat \<Rightarrow> bool" where
  "cont_byte b \<longleftrightarrow> 128 \<le> b \<and> b \<le> 191"

text \<open>The length of the multi-byte character at the start of a text, 0 where there is none.\<close>

definition utf8_two :: "nat \<Rightarrow> nat \<Rightarrow> bool" where
  "utf8_two a b \<longleftrightarrow> 194 \<le> a \<and> a \<le> 223 \<and> cont_byte b"

definition utf8_three :: "nat \<Rightarrow> nat \<Rightarrow> nat \<Rightarrow> bool" where
  "utf8_three a b c \<longleftrightarrow> cont_byte c
     \<and> (a = 224 \<and> 160 \<le> b \<and> b \<le> 191 \<or> (225 \<le> a \<and> a \<le> 236 \<or> a = 238 \<or> a = 239) \<and> cont_byte b
        \<or> a = 237 \<and> 128 \<le> b \<and> b \<le> 159)"

definition utf8_four :: "nat \<Rightarrow> nat \<Rightarrow> nat \<Rightarrow> nat \<Rightarrow> bool" where
  "utf8_four a b c d \<longleftrightarrow> cont_byte c \<and> cont_byte d
     \<and> (a = 240 \<and> 144 \<le> b \<and> b \<le> 191 \<or> 241 \<le> a \<and> a \<le> 243 \<and> cont_byte b \<or> a = 244 \<and> 128 \<le> b \<and> b \<le> 143)"

definition utf8_len :: "string \<Rightarrow> nat" where
  "utf8_len s =
     (case map of_char (take 4 s) of
        a # b # bs \<Rightarrow>
          if utf8_two a b then 2
          else (case bs of
                  [] \<Rightarrow> 0
                | c # cs \<Rightarrow>
                    if utf8_three a b c then 3
                    else (case cs of [] \<Rightarrow> 0 | d # _ \<Rightarrow> if utf8_four a b c d then 4 else 0))
      | _ \<Rightarrow> 0)"

definition utf8_encode :: "nat \<Rightarrow> string" where
  "utf8_encode r = map char_of
     (if r < 128 then [r]
      else if r < 2048 then [192 + r div 64, 128 + r mod 64]
      else if r < 65536 then [224 + r div 4096, 128 + r div 64 mod 64, 128 + r mod 64]
      else [240 + r div 262144, 128 + r div 4096 mod 64, 128 + r div 64 mod 64, 128 + r mod 64])"

definition replacement :: string where
  "replacement = utf8_encode 65533"

function valid_utf8 :: "string \<Rightarrow> bool" where
  "valid_utf8 s =
     (case s of
        [] \<Rightarrow> True
      | c # r \<Rightarrow>
          if (of_char c :: nat) < 128 then valid_utf8 r
          else (case utf8_len s of 0 \<Rightarrow> False | Suc n \<Rightarrow> valid_utf8 (drop (Suc n) s)))"
  by pat_completeness auto
termination
  by (relation "measure length") auto

declare valid_utf8.simps [simp del]

section \<open>Quoting\<close>

definition hex_digit :: "nat \<Rightarrow> char" where
  "hex_digit n = ''0123456789abcdef'' ! n"

text \<open>A byte below 128, with the characters that HTML treats specially escaped too.\<close>

definition quote_byte :: "char \<Rightarrow> string" where
  "quote_byte c =
     (let n = of_char c in
      if c = dquote \<or> c = backslash then [backslash, c]
      else if n = 8 then [backslash, CHR ''b'']
      else if n = 12 then [backslash, CHR ''f'']
      else if n = 10 then [backslash, CHR ''n'']
      else if n = 13 then [backslash, CHR ''r'']
      else if n = 9 then [backslash, CHR ''t'']
      else if n < 32 \<or> c = CHR ''<'' \<or> c = CHR ''>'' \<or> c = CHR ''&''
      then [backslash, CHR ''u'', CHR ''0'', CHR ''0'', hex_digit (n div 16), hex_digit (n mod 16)]
      else [c])"

text \<open>A multi-byte character: only the two line separators of Unicode are escaped.\<close>

definition quote_rune :: "string \<Rightarrow> string" where
  "quote_rune w =
     (if w = utf8_encode 8232 then backslash # ''u2028''
      else if w = utf8_encode 8233 then backslash # ''u2029''
      else w)"

function json_quote :: "string \<Rightarrow> string" where
  "json_quote s =
     (case s of
        [] \<Rightarrow> []
      | c # r \<Rightarrow>
          if (of_char c :: nat) < 128 then quote_byte c @ json_quote r
          else (case utf8_len s of
                  0 \<Rightarrow> (backslash # ''ufffd'') @ json_quote r
                | Suc n \<Rightarrow> quote_rune (take (Suc n) s) @ json_quote (drop (Suc n) s)))"
  by pat_completeness auto
termination
  by (relation "measure length") auto

declare json_quote.simps [simp del]

definition unescape :: "char \<Rightarrow> char" where
  "unescape d =
     (if d = CHR ''b'' then CHR 0x08
      else if d = CHR ''f'' then CHR 0x0C
      else if d = CHR ''n'' then CHR 0x0A
      else if d = CHR ''r'' then CHR 0x0D
      else if d = CHR ''t'' then CHR 0x09
      else d)"

text \<open>
  The bytes that the text of a string starts with stand for, and how many of its bytes they take. Two
  escapes can form a surrogate pair; a surrogate alone, or a byte that is not UTF-8, is replaced.
\<close>

definition next_rune :: "string \<Rightarrow> string \<times> nat" where
  "next_rune s =
     (case s of
        [] \<Rightarrow> ([], 1)
      | c # r \<Rightarrow>
          if c = backslash then
            (case r of
               [] \<Rightarrow> ([], 1)
             | d # t \<Rightarrow>
                 if d = CHR ''u'' then
                   (case hex4 t of
                      None \<Rightarrow> ([], 1)
                    | Some x \<Rightarrow>
                        if 55296 \<le> x \<and> x < 57344 then
                          (case (if take 2 (drop 4 t) = [backslash, CHR ''u''] then hex4 (drop 6 t) else None) of
                             None \<Rightarrow> (replacement, 6)
                           | Some y \<Rightarrow>
                               if x < 56320 \<and> 56320 \<le> y \<and> y < 57344
                               then (utf8_encode ((x - 55296) * 1024 + (y - 56320) + 65536), 12)
                               else (replacement, 6))
                        else (utf8_encode x, 6))
                 else if d \<in> set escape_letters then ([unescape d], 2) else ([], 1))
          else if (of_char c :: nat) < 128 then ([c], 1)
          else (case utf8_len s of 0 \<Rightarrow> (replacement, 1) | Suc n \<Rightarrow> (take (Suc n) s, Suc n)))"

lemma next_rune_pos: "0 < snd (next_rune s)"
  by (auto simp: next_rune_def split: list.splits option.splits nat.splits)

function json_unquote :: "string \<Rightarrow> string" where
  "json_unquote s = (if s = [] then [] else fst (next_rune s) @ json_unquote (drop (snd (next_rune s)) s))"
  by pat_completeness auto
termination
proof (relation "measure length")
  fix s :: string
  assume "s \<noteq> []"
  with next_rune_pos [of s] show "(drop (snd (next_rune s)) s, s) \<in> measure length"
    by (cases s) auto
qed simp

declare json_unquote.simps [simp del]

section \<open>Lemmas: strings\<close>

lemma utf8_len_le: "utf8_len s \<le> length s"
  by (auto simp: utf8_len_def split: list.splits dest!: arg_cong [where f = length])

lemma hex_val_digit: "k < 16 \<Longrightarrow> hex_val (hex_digit k) = Some k"
proof -
  assume "k < 16"
  then have "k \<in> set [0..<16]" by simp
  moreover have "list_all (\<lambda>k. hex_val (hex_digit k) = Some k) [0..<16]" by code_simp
  ultimately show ?thesis by (simp only: list_all_iff)
qed

lemma hex4_byte: "a < 16 \<Longrightarrow> b < 16 \<Longrightarrow> hex4 (CHR ''0'' # CHR ''0'' # hex_digit a # hex_digit b # r) = Some (a * 16 + b)"
proof -
  assume "a < 16" "b < 16"
  moreover have "hex_val CHR ''0'' = Some 0" by code_simp
  ultimately show ?thesis by (simp add: hex4_def hex_val_digit)
qed

lemma ascii_encode: "(of_char c :: nat) < 128 \<Longrightarrow> utf8_encode (of_char c) = [c]"
  by (simp add: utf8_encode_def)

lemma quote_byte_read:
  assumes "(of_char c :: nat) < 128"
  shows "next_rune (quote_byte c @ r) = ([c], length (quote_byte c))"
    and "char_len (quote_byte c @ r) = length (quote_byte c)"
proof -
  define n :: nat where "n = of_char c"
  have c: "c = char_of n" by (simp add: n_def)
  have lt: "n div 16 < 16" "n mod 16 < 16" using assms by (auto simp: n_def)
  have u: "hex4 (CHR ''0'' # CHR ''0'' # hex_digit (n div 16) # hex_digit (n mod 16) # r) = Some n"
    using hex4_byte [OF lt, of r] by simp
  have enc: "utf8_encode n = [c]" using ascii_encode [OF assms] by (simp add: n_def)
  have ctrl: "n = 8 \<Longrightarrow> c = CHR 0x08" "n = 12 \<Longrightarrow> c = CHR 0x0C" "n = 10 \<Longrightarrow> c = CHR 0x0A" "n = 13 \<Longrightarrow> c = CHR 0x0D"
    "n = 9 \<Longrightarrow> c = CHR 0x09" unfolding c by (simp_all only:) code_simp+
  have small: "n < 128" using assms by (simp add: n_def)
  show "next_rune (quote_byte c @ r) = ([c], length (quote_byte c))"
    using u enc small ctrl
    by (auto simp: quote_byte_def Let_def n_def [symmetric] next_rune_def unescape_def escape_letters_def)
  show "char_len (quote_byte c @ r) = length (quote_byte c)"
    using u small
    by (auto simp: quote_byte_def Let_def n_def [symmetric] char_len_def escape_letters_def)
qed

text \<open>The shapes of a multi-byte character.\<close>

lemma utf8_len_cases:
  assumes "utf8_len s = Suc n"
  obtains (two) c0 c1 r where "s = c0 # c1 # r" "n = 1" "utf8_two (of_char c0) (of_char c1)"
  | (three) c0 c1 c2 r where "s = c0 # c1 # c2 # r" "n = 2" "\<not> utf8_two (of_char c0) (of_char c1)"
      "utf8_three (of_char c0) (of_char c1) (of_char c2)"
  | (four) c0 c1 c2 c3 r where "s = c0 # c1 # c2 # c3 # r" "n = 3" "\<not> utf8_two (of_char c0) (of_char c1)"
      "\<not> utf8_three (of_char c0) (of_char c1) (of_char c2)"
      "utf8_four (of_char c0) (of_char c1) (of_char c2) (of_char c3)"
proof -
  obtain c0 c1 r where s: "s = c0 # c1 # r"
    using assms by (cases s; cases "tl s") (auto simp: utf8_len_def)
  show thesis
  proof (cases "utf8_two (of_char c0) (of_char c1)")
    case True
    with assms s show ?thesis by (intro two [OF s]) (simp_all add: utf8_len_def)
  next
    case no2: False
    with assms s obtain c2 r2 where r: "r = c2 # r2" by (cases r) (auto simp: utf8_len_def)
    show ?thesis
    proof (cases "utf8_three (of_char c0) (of_char c1) (of_char c2)")
      case True
      with assms no2 s r show ?thesis by (intro three [of c0 c1 c2 r2]) (simp_all add: utf8_len_def)
    next
      case no3: False
      with assms s r no2 obtain c3 r3 where r2: "r2 = c3 # r3" by (cases r2) (auto simp: utf8_len_def)
      with assms s r no2 no3 have "utf8_four (of_char c0) (of_char c1) (of_char c2) (of_char c3)" "n = 3"
        by (auto simp: utf8_len_def split: if_splits)
      with no2 no3 s r r2 show ?thesis by (intro four [of c0 c1 c2 c3 r3]) simp_all
    qed
  qed
qed

lemma utf8_len_prefix: "utf8_len s = Suc n \<Longrightarrow> utf8_len (take (Suc n) s @ r) = Suc n"
  by (erule utf8_len_cases) (simp_all add: utf8_len_def)

lemma utf8_len_high: "utf8_len s = Suc n \<Longrightarrow> \<forall>c\<in>set (take (Suc n) s). 128 \<le> (of_char c :: nat)"
  by (erule utf8_len_cases) (auto simp: utf8_two_def utf8_three_def utf8_four_def cont_byte_def)

lemma scan_high:
  "\<forall>c\<in>set w. 128 \<le> (of_char c :: nat) \<Longrightarrow> scan_chars (w @ s) = map_option (\<lambda>(raw, r). (w @ raw, r)) (scan_chars s)"
proof (induction w)
  case Nil
  then show ?case by (cases "scan_chars s") auto
next
  case (Cons c w)
  then have "char_len (c # w @ s) = Suc 0" by (auto simp: char_len_def)
  from scan_chars_step [OF this] Cons show ?case by (cases "scan_chars s") auto
qed

lemma scan_u_escape:
  "hex4 (h1 # h2 # h3 # h4 # r) \<noteq> None \<Longrightarrow>
   scan_chars (backslash # CHR ''u'' # h1 # h2 # h3 # h4 # r) =
     map_option (\<lambda>(raw, t). (backslash # CHR ''u'' # h1 # h2 # h3 # h4 # raw, t)) (scan_chars r)"
  using scan_chars_step [of "backslash # CHR ''u'' # h1 # h2 # h3 # h4 # r" 5]
  by (simp add: char_len_def escape_letters_def)

lemma hex4_codes:
  "hex4 (CHR ''2'' # CHR ''0'' # CHR ''2'' # CHR ''8'' # r) = Some 8232"
  "hex4 (CHR ''2'' # CHR ''0'' # CHR ''2'' # CHR ''9'' # r) = Some 8233"
  "hex4 (CHR ''f'' # CHR ''f'' # CHR ''f'' # CHR ''d'' # r) = Some 65533"
  by (simp_all add: hex4_def hex_val.simps)

text \<open>One character of a quoted text.\<close>

lemma quote_rune_read:
  assumes "utf8_len s = Suc n"
  shows "next_rune (quote_rune (take (Suc n) s) @ r) = (take (Suc n) s, length (quote_rune (take (Suc n) s)))"
    and "scan_chars (quote_rune (take (Suc n) s) @ r) =
      map_option (\<lambda>(raw, t). (quote_rune (take (Suc n) s) @ raw, t)) (scan_chars r)"
proof -
  let ?w = "take (Suc n) s"
  have len: "length ?w = Suc n" using utf8_len_le [of s] assms by simp
  obtain c t where w: "?w = c # t" using len by (cases ?w) auto
  have high: "128 \<le> (of_char c :: nat)" using utf8_len_high [OF assms] w by simp
  have plain: "next_rune (?w @ r) = (?w, Suc n)"
    using utf8_len_prefix [OF assms, of r] high len by (auto simp: w next_rune_def)
  show "next_rune (quote_rune ?w @ r) = (?w, length (quote_rune ?w))"
    using plain len by (auto simp: quote_rune_def next_rune_def hex4_codes)
  show "scan_chars (quote_rune ?w @ r) = map_option (\<lambda>(raw, t). (quote_rune ?w @ raw, t)) (scan_chars r)"
    using scan_high [OF utf8_len_high [OF assms], of r] by (simp add: quote_rune_def scan_u_escape hex4_codes)
qed

lemma scan_quote_byte:
  assumes "(of_char c :: nat) < 128"
  shows "scan_chars (quote_byte c @ r) = map_option (\<lambda>(raw, t). (quote_byte c @ raw, t)) (scan_chars r)"
proof -
  obtain n where n: "length (quote_byte c) = Suc n"
    by (cases "length (quote_byte c)") (auto simp: quote_byte_def Let_def split: if_splits)
  from quote_byte_read(2) [OF assms, of r] scan_chars_step [of "quote_byte c @ r" n] n show ?thesis by simp
qed

lemma scan_quoted: "scan_chars (json_quote s @ r) = map_option (\<lambda>(raw, t). (json_quote s @ raw, t)) (scan_chars r)"
proof (induction s rule: json_quote.induct)
  case (1 s)
  show ?case
  proof (cases s)
    case Nil
    then show ?thesis by (subst (1 2) json_quote.simps) (cases "scan_chars r"; auto)
  next
    case (Cons c t)
    show ?thesis
    proof (cases "(of_char c :: nat) < 128")
      case True
      from "1.IH"(1) [OF Cons True] scan_quote_byte [OF True] Cons True show ?thesis
        by (subst (1 2) json_quote.simps) (cases "scan_chars r"; auto)
    next
      case high: False
      show ?thesis
      proof (cases "utf8_len s")
        case 0
        from "1.IH"(2) [OF Cons high 0] Cons high 0 show ?thesis
          by (subst (1 2) json_quote.simps) (cases "scan_chars r"; auto simp: scan_u_escape hex4_codes)
      next
        case (Suc n)
        from "1.IH"(3) [OF Cons high Suc] quote_rune_read(2) [OF Suc] Cons high Suc show ?thesis
          by (subst (1 2) json_quote.simps) (cases "scan_chars r"; auto)
      qed
    qed
  qed
qed

lemma raw_ok_quote: "raw_ok (json_quote s)"
  unfolding raw_ok_def scan_quoted scan_chars_close by simp

lemma unquote_step:
  "next_rune (q @ r) = (w, length q) \<Longrightarrow> q \<noteq> [] \<Longrightarrow> json_unquote (q @ r) = w @ json_unquote r"
  by (subst json_unquote.simps) simp

lemma quote_nonempty: "quote_byte c \<noteq> []" "w \<noteq> [] \<Longrightarrow> quote_rune w \<noteq> []"
  by (auto simp: quote_byte_def Let_def quote_rune_def)

text \<open>A quoted string is read back, if it was UTF-8.\<close>

lemma unquote_quote: "valid_utf8 s \<Longrightarrow> json_unquote (json_quote s) = s"
proof (induction s rule: json_quote.induct)
  case (1 s)
  show ?case
  proof (cases s)
    case Nil
    then show ?thesis by (simp add: json_quote.simps json_unquote.simps)
  next
    case (Cons c t)
    show ?thesis
    proof (cases "(of_char c :: nat) < 128")
      case True
      with "1.prems" Cons have "valid_utf8 t" by (subst (asm) valid_utf8.simps) simp
      with "1.IH"(1) [OF Cons True] Cons True unquote_step [OF quote_byte_read(1) [OF True] quote_nonempty(1)] show ?thesis
        by (subst json_quote.simps) simp
    next
      case high: False
      with "1.prems" Cons obtain n where n: "utf8_len s = Suc n" "valid_utf8 (drop (Suc n) s)"
        by (subst (asm) valid_utf8.simps) (auto split: nat.splits)
      have "take (Suc n) s \<noteq> []" using Cons by simp
      with "1.IH"(3) [OF Cons high n(1)] n Cons high unquote_step [OF quote_rune_read(1) [OF n(1)] quote_nonempty(2)] show ?thesis
        by (subst json_quote.simps) simp
    qed
  qed
qed

section \<open>Numbers\<close>

definition digits_val :: "string \<Rightarrow> nat" where
  "digits_val ds = fold (\<lambda>c n. n * 10 + (of_char c - 48)) ds 0"

text \<open>The \<open>float64\<close> nearest to \<open>m * 10 ^ x\<close>; there is none from half a unit above the largest on.\<close>

definition decimal_f64 :: "int \<Rightarrow> int \<Rightarrow> f64 option" where
  "decimal_f64 m x =
     (let p = (if 0 \<le> x then m * 10 ^ nat x else m);
          q = (if 0 \<le> x then 1 else 10 ^ nat (- x))
      in if (2 ^ 1024 - 2 ^ 970) * q \<le> \<bar>p\<bar> then None
         else if q dvd p then Some (f64_of_int (p div q))
         else if \<bar>p\<bar> * 2 ^ 1022 < q then Some (Fin (round_even (p * 2 ^ 1074) q) (- 1074))
         else Some (f64_ratio p q))"

text \<open>\<open>strconv.ParseFloat\<close> on the text of a number.\<close>

definition parse_f64 :: "string \<Rightarrow> f64 option" where
  "parse_f64 num =
     (let neg = has_prefix num ''-'';
          s = trim_prefix num ''-'';
          rest = dropWhile is_digit s;
          frac = (if has_prefix rest ''.'' then digits_of (drop 1 rest) else []);
          ex = (if has_prefix rest ''.'' then dropWhile is_digit (drop 1 rest) else rest);
          e = (if ex = [] then 0
               else (case scan_sign (drop 1 ex) of
                       (sg, ds) \<Rightarrow> (if sg = ''-'' then - int (digits_val ds) else int (digits_val ds))));
          m = int (digits_val (digits_of s @ frac))
      in decimal_f64 (if neg then - m else m) (e - int (length frac)))"

lemma digits_val_snoc: "digits_val (ds @ [c]) = digits_val ds * 10 + (of_char c - 48)"
  by (simp add: digits_val_def)

lemma digits_val_show: "digits_val (show_nat n) = n"
proof (induction n rule: show_nat.induct)
  case (1 n)
  show ?case
  proof (cases "n < 10")
    case True
    then show ?thesis by (subst show_nat.simps) (simp add: digits_val_def)
  next
    case False
    have "48 + n mod 10 < 256" by (simp add: less_le_trans [of _ 58])
    with 1 False show ?thesis by (subst show_nat.simps) (simp add: digits_val_snoc)
  qed
qed

lemma show_nat_span: "digits_of (show_nat n) = show_nat n" "dropWhile is_digit (show_nat n) = []"
  using show_nat_digits [of n] by (auto simp: digits_of_def takeWhile_eq_all_conv dropWhile_eq_Nil_conv)

lemma minus_not_digit: "\<not> is_digit CHR ''-''"
  by (simp add: is_digit_def)

lemma show_nat_head: "\<not> has_prefix (show_nat n) ''-''"
  using show_nat_digits [of n] minus_not_digit by (auto simp: has_prefix_iff)

text \<open>Integers are read back as the nearest \<open>float64\<close>.\<close>

lemma parse_show_int:
  assumes "\<bar>i\<bar> < 2 ^ 1024 - 2 ^ 970"
  shows "parse_f64 (show_int i) = Some (f64_of_int i)"
proof -
  have "\<not> 2 ^ 1024 - 2 ^ 970 \<le> \<bar>i\<bar>" using assms by (simp only: not_le)
  then have d: "decimal_f64 i 0 = Some (f64_of_int i)" by (simp only: decimal_f64_def Let_def) simp
  show ?thesis
  proof (cases "i < 0")
    case True
    have "trim_prefix (''-'' @ show_nat (nat (- i))) ''-'' = show_nat (nat (- i))" by (rule trim_prefix_append)
    with True d show ?thesis
      by (simp add: parse_f64_def show_int_def show_nat_span digits_val_show has_prefix_def)
  next
    case False
    have "trim_prefix (show_nat (nat i)) ''-'' = show_nat (nat i)"
      using show_nat_head by (simp add: trim_prefix_def)
    with False d show ?thesis
      by (simp add: parse_f64_def show_int_def show_nat_span digits_val_show show_nat_head) (simp add: has_prefix_def)
  qed
qed

lemma show_nat_leading: "0 < n \<Longrightarrow> hd (show_nat n) \<noteq> CHR ''0''"
proof (induction n rule: show_nat.induct)
  case (1 n)
  have "n < 10 \<Longrightarrow> (char_of (48 + n) :: char) = CHR ''0'' \<Longrightarrow> n = 0"
  proof -
    assume n: "n < 10" and "(char_of (48 + n) :: char) = CHR ''0''"
    then have "of_char (char_of (48 + n) :: char) = (48 :: nat)" by simp
    with n show "n = 0" by simp
  qed
  with 1 show ?case
    using show_nat_nonempty [of "n div 10"] by (subst show_nat.simps) (auto simp: hd_append)
qed

lemma scan_show_nat: "scan_int (show_nat n) = Some (show_nat n, [])"
proof (cases "n = 0")
  case True
  have "show_nat 0 = ''0''" by code_simp
  with True show ?thesis by (simp add: scan_int_def)
next
  case False
  obtain c t where n: "show_nat n = c # t" using show_nat_nonempty [of n] by (cases "show_nat n") auto
  then have "is_digit c" "c \<noteq> CHR ''0''" using show_nat_digits [of n] show_nat_leading [of n] False by simp_all
  then show ?thesis using show_nat_span [of n] by (simp add: scan_int_def n)
qed

lemma number_ok_int: "number_ok (show_int i)"
proof -
  obtain c t where n: "show_nat (nat i) = c # t" using show_nat_nonempty [of "nat i"] by (cases "show_nat (nat i)") auto
  have "c \<noteq> CHR ''-''" using show_nat_digits [of "nat i"] minus_not_digit n by auto
  with n scan_show_nat [of "nat i"] scan_show_nat [of "nat (- i)"] show ?thesis
    by (auto simp: number_ok_def scan_number_def show_int_def scan_frac_def scan_exp_def)
qed

section \<open>Marshal\<close>

text \<open>The tree a value is written as; the members of a map in the order of their names.\<close>

fun value_json :: "go_runtime \<Rightarrow> go_value \<Rightarrow> json" where
  "value_json rt GNil = JNull"
| "value_json rt (GBool b) = JBool b"
| "value_json rt (GStr s) = JStr (json_quote s)"
| "value_json rt (GF64 f) = JNum (rt_json_f64 rt f)"
| "value_json rt (GI64 i) = JNum (show_int i)"
| "value_json rt (GInt i) = JNum (show_int i)"
| "value_json rt (GUint i) = JNum (show_int i)"
| "value_json rt (GArr vs) = JArr (map (value_json rt) vs)"
| "value_json rt (GStrs ss) = JArr (map (\<lambda>s. JStr (json_quote s)) ss)"
| "value_json rt (GMap m) =
     JObj (map (\<lambda>(k, j). (json_quote k, j)) (sort_keys (map (\<lambda>(k, v). (k, value_json rt v)) m)))"
| "value_json rt (GStrMap m) = JObj (map (\<lambda>(k, s). (json_quote k, JStr (json_quote s))) (sort_keys m))"

definition Marshal :: "go_runtime \<Rightarrow> go_value \<Rightarrow> string result" where
  "Marshal rt v = (if json_marshals v then Ok (compact_text (value_json rt v)) else Err JsonUnsupportedValue)"

text \<open>\<open>MarshalIndent\<close> reads the marshalled text once more to lay it out in lines.\<close>

definition MarshalIndent :: "go_runtime \<Rightarrow> go_value \<Rightarrow> string result" where
  "MarshalIndent rt v =
     (case Marshal rt v of
        Inl e \<Rightarrow> Err e
      | Inr b \<Rightarrow> (case parse_json b of None \<Rightarrow> Err JsonSyntaxError | Some j \<Rightarrow> Ok (indented_text j)))"

text \<open>
  On a raw message, which is a text: its strings are kept as they are written but for the characters
  that are escaped for HTML.
\<close>

function html_escape :: "string \<Rightarrow> string" where
  "html_escape s =
     (case s of
        [] \<Rightarrow> []
      | c # r \<Rightarrow>
          if c = CHR ''<'' \<or> c = CHR ''>'' \<or> c = CHR ''&'' then quote_byte c @ html_escape r
          else if has_prefix s (utf8_encode 8232) \<or> has_prefix s (utf8_encode 8233)
          then quote_rune (take 3 s) @ html_escape (drop 3 s)
          else c # html_escape r)"
  by pat_completeness auto
termination
  by (relation "measure length") auto

declare html_escape.simps [simp del]

fun escape_tree :: "json \<Rightarrow> json" where
  "escape_tree (JStr raw) = JStr (html_escape raw)"
| "escape_tree (JArr vs) = JArr (map escape_tree vs)"
| "escape_tree (JObj kvs) = JObj (map (\<lambda>(k, v). (html_escape k, escape_tree v)) kvs)"
| "escape_tree j = j"

definition MarshalIndent_raw :: "string \<Rightarrow> string result" where
  "MarshalIndent_raw raw =
     (case parse_json raw of
        None \<Rightarrow> Err JsonSyntaxError
      | Some j \<Rightarrow> Ok (indented_text (escape_tree j)))"

section \<open>Unmarshal\<close>

text \<open>Into an \<open>interface{}\<close>: only a number that no \<open>float64\<close> is near to fails.\<close>

fun json_go_value :: "json \<Rightarrow> go_value option" where
  "json_go_value JNull = Some GNil"
| "json_go_value (JBool b) = Some (GBool b)"
| "json_go_value (JNum num) = map_option GF64 (parse_f64 num)"
| "json_go_value (JStr raw) = Some (GStr (json_unquote raw))"
| "json_go_value (JArr vs) = map_option GArr (those (map json_go_value vs))"
| "json_go_value (JObj kvs) =
     map_option (\<lambda>vs. GMap (overlay [] (zip (map (\<lambda>(k, v). json_unquote k) kvs) vs)))
       (those (map (\<lambda>(k, v). json_go_value v) kvs))"

text \<open>Into a map, which \<open>null\<close> leaves nil.\<close>

definition Unmarshal_map :: "string \<Rightarrow> go_map option result" where
  "Unmarshal_map text =
     (case parse_json text of
        None \<Rightarrow> Err JsonSyntaxError
      | Some j \<Rightarrow>
          (case j of
             JNull \<Rightarrow> Ok None
           | JObj kvs \<Rightarrow> (case json_go_value j of Some (GMap m) \<Rightarrow> Ok (Some m) | _ \<Rightarrow> Err JsonTypeError)
           | _ \<Rightarrow> Err JsonTypeError))"

end
