(* ===== verification/Go_Json_Roundtrip.thy ===== *)
theory Go_Json_Roundtrip
  imports Go_Json_Values
begin

text \<open>
  What \<open>json.Unmarshal\<close> makes of a text that \<open>json.Marshal\<close> wrote, and the other way round.
\<close>

section \<open>Strings that were read are UTF-8\<close>

lemma valid_utf8_Nil [simp]: "valid_utf8 []"
  by (simp add: valid_utf8.simps)

lemma valid_utf8_ascii: "(of_char c :: nat) < 128 \<Longrightarrow> valid_utf8 (c # s) = valid_utf8 s"
  by (subst valid_utf8.simps) simp

lemma valid_utf8_rune:
  assumes "utf8_len s = Suc n"
  shows "valid_utf8 (take (Suc n) s @ r) = valid_utf8 r"
proof -
  have len: "length (take (Suc n) s) = Suc n" using utf8_len_le [of s] assms by simp
  obtain c t where w: "take (Suc n) s = c # t" using len by (cases "take (Suc n) s") auto
  have high: "\<not> (of_char c :: nat) < 128" using utf8_len_high [OF assms] w by simp
  have "utf8_len (c # t @ r) = Suc n" using utf8_len_prefix [OF assms, of r] w by simp
  with high len w show ?thesis by (subst w, subst append_Cons, subst valid_utf8.simps) simp
qed

lemma of_char_of_small: "k < 256 \<Longrightarrow> of_char (char_of k :: char) = (k :: nat)"
  by simp

lemma base64_split: "x = x div 4096 * 4096 + x div 64 mod 64 * 64 + x mod 64" for x :: nat
proof -
  have "x div 4096 = x div 64 div 64" by (simp add: div_mult2_eq [symmetric])
  then show ?thesis using div_mult_mod_eq [of x 64] div_mult_mod_eq [of "x div 64" 64] by linarith
qed

lemma utf8_three_bytes:
  assumes "a < 16" "b < 64" "c < 64" "a = 0 \<longrightarrow> 32 \<le> b" "a = 13 \<longrightarrow> b < 32"
  shows "utf8_three (224 + a) (128 + b) (128 + c)"
proof -
  have "a = 0 \<or> 1 \<le> a \<and> a \<le> 12 \<or> a = 13 \<or> a = 14 \<or> a = 15" using assms(1) by linarith
  with assms show ?thesis unfolding utf8_three_def cont_byte_def by auto
qed

lemma utf8_four_bytes:
  assumes "a \<le> 4" "b < 64" "c < 64" "d < 64" "a = 0 \<longrightarrow> 16 \<le> b" "a = 4 \<longrightarrow> b < 16"
  shows "utf8_four (240 + a) (128 + b) (128 + c) (128 + d)"
proof -
  have "a = 0 \<or> 1 \<le> a \<and> a \<le> 3 \<or> a = 4" using assms(1) by linarith
  with assms show ?thesis unfolding utf8_four_def cont_byte_def by auto
qed

lemma utf8_encode_len:
  assumes "128 \<le> x" "x < 1114112" "x < 55296 \<or> 57344 \<le> x"
  shows "\<exists>n. length (utf8_encode x) = Suc n \<and> utf8_len (utf8_encode x) = Suc n"
proof -
  consider "x < 2048" | "2048 \<le> x" "x < 65536" | "65536 \<le> x" by linarith
  then show ?thesis
  proof cases
    case 1
    with assms have b: "192 + x div 64 < 256" "128 + x mod 64 < 256" "194 \<le> 192 + x div 64" "192 + x div 64 \<le> 223" "x mod 64 < 64"
      by auto
    with 1 assms show ?thesis
      by (simp add: utf8_encode_def utf8_len_def utf8_two_def cont_byte_def)
  next
    case 2
    define a where "a = x div 4096"
    define b where "b = x div 64 mod 64"
    define c where "c = x mod 64"
    have x: "x = a * 4096 + b * 64 + c" "b < 64" "c < 64"
      using base64_split [of x] by (simp_all add: a_def b_def c_def)
    with 2 assms have r: "a < 16" "a = 0 \<longrightarrow> 32 \<le> b" "a = 13 \<longrightarrow> b < 32" by linarith+
    have e: "utf8_encode x = map char_of [224 + a, 128 + b, 128 + c]" using 2 by (simp add: utf8_encode_def a_def b_def c_def)
    have "\<not> utf8_two (224 + a) (128 + b)" by (simp add: utf8_two_def)
    moreover have "224 + a < 256" "128 + b < 256" "128 + c < 256" using x r by simp_all
    ultimately show ?thesis using utf8_three_bytes [OF r(1) x(2,3) r(2,3)] unfolding e by (simp add: utf8_len_def)
  next
    case 3
    define a where "a = x div 262144"
    define b where "b = x div 4096 mod 64"
    define c where "c = x div 64 mod 64"
    define d where "d = x mod 64"
    have "x div 4096 = a * 64 + b"
      using div_mult_mod_eq [of "x div 4096" 64] div_mult2_eq [of x 4096 64] by (simp add: a_def b_def)
    then have x: "x = a * 262144 + b * 4096 + c * 64 + d" "b < 64" "c < 64" "d < 64"
      using base64_split [of x] by (simp_all add: b_def c_def d_def)
    with 3 assms have r: "a \<le> 4" "a = 0 \<longrightarrow> 16 \<le> b" "a = 4 \<longrightarrow> b < 16" by linarith+
    have e: "utf8_encode x = map char_of [240 + a, 128 + b, 128 + c, 128 + d]" using 3 by (simp add: utf8_encode_def a_def b_def c_def d_def)
    have "\<not> utf8_two (240 + a) (128 + b)" "\<not> utf8_three (240 + a) (128 + b) (128 + c)"
      by (simp_all add: utf8_two_def utf8_three_def)
    moreover have "240 + a < 256" "128 + b < 256" "128 + c < 256" "128 + d < 256" using x r by simp_all
    ultimately show ?thesis using utf8_four_bytes [OF r(1) x(2,3,4) r(2,3)] unfolding e by (simp add: utf8_len_def)
  qed
qed

lemma valid_utf8_encode:
  assumes "x < 1114112" "x < 55296 \<or> 57344 \<le> x"
  shows "valid_utf8 (utf8_encode x @ r) = valid_utf8 r"
proof (cases "x < 128")
  case True
  then show ?thesis by (simp add: utf8_encode_def valid_utf8_ascii)
next
  case False
  with assms obtain n where n: "length (utf8_encode x) = Suc n" "utf8_len (utf8_encode x) = Suc n"
    using utf8_encode_len [of x] by auto
  from valid_utf8_rune [OF n(2), of r] n(1) show ?thesis by simp
qed

lemma hex_val_less: "hex_val c = Some k \<Longrightarrow> k < 16"
  by (auto simp: hex_val.simps Let_def split: if_splits)

lemma hex4_less: "hex4 s = Some x \<Longrightarrow> x < 65536"
  by (auto simp: hex4_def split: list.splits option.splits dest!: hex_val_less) 

lemma unescape_ascii: "(of_char d :: nat) < 128 \<Longrightarrow> (of_char (unescape d) :: nat) < 128"
  by (simp add: unescape_def)

text \<open>A read character is UTF-8, whatever the text.\<close>

lemma valid_replacement: "valid_utf8 (replacement @ r) = valid_utf8 r"
  unfolding replacement_def by (rule valid_utf8_encode) simp_all

lemma valid_unescape: "d \<in> set escape_letters \<Longrightarrow> valid_utf8 (unescape d # r) = valid_utf8 r"
  by (intro valid_utf8_ascii unescape_ascii) (auto simp: escape_letters_def)

lemma valid_u_escape:
  assumes "hex4 t = Some x"
  shows "valid_utf8 (fst (next_rune (backslash # CHR ''u'' # t)) @ r) = valid_utf8 r"
proof (cases "55296 \<le> x \<and> x < 57344")
  case True
  with assms show ?thesis
    by (auto simp: next_rune_def valid_replacement valid_utf8_encode split: option.split)
next
  case False
  then have "x < 55296 \<or> 57344 \<le> x" by linarith
  moreover have "x < 1114112" using hex4_less [OF assms] by simp
  ultimately have "valid_utf8 (utf8_encode x @ r) = valid_utf8 r" by (rule valid_utf8_encode [rotated])
  with assms False show ?thesis by (auto simp: next_rune_def)
qed

lemma valid_escape: "valid_utf8 (fst (next_rune (backslash # t)) @ r) = valid_utf8 r"
proof (cases t)
  case (Cons d t')
  show ?thesis
  proof (cases "d = CHR ''u''")
    case True
    show ?thesis
    proof (cases "hex4 t'")
      case None
      with Cons True show ?thesis by (simp add: next_rune_def)
    next
      case (Some x)
      with valid_u_escape [OF this] Cons True show ?thesis by simp
    qed
  next
    case False
    with Cons show ?thesis by (simp add: next_rune_def valid_unescape)
  qed
qed (simp add: next_rune_def)

lemma next_rune_valid: "valid_utf8 (fst (next_rune s) @ r) = valid_utf8 r"
proof (cases s)
  case (Cons c t)
  show ?thesis
  proof (cases "c = backslash")
    case True
    with Cons valid_escape show ?thesis by simp
  next
    case other: False
    show ?thesis
    proof (cases "utf8_len (c # t)")
      case 0
      with Cons other show ?thesis by (simp add: next_rune_def valid_utf8_ascii valid_replacement)
    next
      case (Suc n)
      from valid_utf8_rune [OF Suc, of r] Suc Cons other show ?thesis
        by (simp add: next_rune_def valid_utf8_ascii)
    qed
  qed
qed (simp add: next_rune_def)

lemma unquote_valid: "valid_utf8 (json_unquote s)"
proof (induction s rule: json_unquote.induct)
  case (1 s)
  then show ?case by (subst json_unquote.simps) (simp add: next_rune_valid)
qed

section \<open>Values that pass through a text\<close>

text \<open>
  Strings are UTF-8, the entries of a map have names of their own, integers have at most 64 bits, and
  the text of a \<open>float64\<close> is a number that reads back as it, which is what the shortest decimal form
  is for.
\<close>

definition f64_reads_back :: "go_runtime \<Rightarrow> f64 \<Rightarrow> bool" where
  "f64_reads_back rt f \<longleftrightarrow> number_ok (rt_json_f64 rt f) \<and> parse_f64 (rt_json_f64 rt f) = Some f"

fun json_faithful :: "go_runtime \<Rightarrow> go_value \<Rightarrow> bool" where
  "json_faithful rt GNil = True"
| "json_faithful rt (GBool b) = True"
| "json_faithful rt (GStr s) = valid_utf8 s"
| "json_faithful rt (GF64 f) = f64_reads_back rt f"
| "json_faithful rt (GI64 i) = (\<bar>i\<bar> < 2 ^ 64)"
| "json_faithful rt (GInt i) = (\<bar>i\<bar> < 2 ^ 64)"
| "json_faithful rt (GUint i) = (\<bar>i\<bar> < 2 ^ 64)"
| "json_faithful rt (GArr vs) = (\<forall>v\<in>set vs. json_faithful rt v)"
| "json_faithful rt (GStrs ss) = list_all valid_utf8 ss"
| "json_faithful rt (GMap m) = (wf_map m \<and> (\<forall>(k, v)\<in>set m. valid_utf8 k \<and> json_faithful rt v))"
| "json_faithful rt (GStrMap m) = (wf_map m \<and> (\<forall>(k, s)\<in>set m. valid_utf8 k \<and> valid_utf8 s))"

lemma f64_of_int_Fin: "\<exists>m e. f64_of_int i = Fin m e"
  by (simp add: f64_of_int_def f64_ratio_def Let_def)

lemma decimal_f64_Fin: "decimal_f64 m x \<noteq> Some (NonFin s)"
proof -
  have "f64_of_int i \<noteq> NonFin s" for i using f64_of_int_Fin [of i] by auto
  moreover have "f64_ratio p q \<noteq> NonFin s" for p q by (simp add: f64_ratio_def Let_def)
  ultimately show ?thesis by (simp only: decimal_f64_def Let_def) (simp split: if_split)
qed

lemma parse_f64_Fin: "parse_f64 num \<noteq> Some (NonFin s)"
  unfolding parse_f64_def Let_def by (rule decimal_f64_Fin)

lemma faithful_marshals: "json_faithful rt v \<Longrightarrow> json_marshals v"
proof (induction v rule: json_marshals.induct)
  case (1 s)
  then show ?case by (simp add: f64_reads_back_def parse_f64_Fin)
qed auto

lemma int64_parse: "\<bar>i\<bar> < 2 ^ 64 \<Longrightarrow> parse_f64 (show_int i) = Some (f64_of_int i)"
proof -
  assume "\<bar>i\<bar> < 2 ^ 64"
  moreover have "(2 :: int) ^ 64 \<le> 2 ^ 1024 - 2 ^ 970" by simp
  ultimately show ?thesis by (intro parse_show_int) linarith
qed

lemma those_map_Some: "(\<And>x. x \<in> set xs \<Longrightarrow> f x = Some (g x)) \<Longrightarrow> those (map f xs) = Some (map g xs)"
  by (induction xs) auto

text \<open>The members of an object with names of their own are read in the order they are written.\<close>

lemma read_quoted_members:
  assumes "wf_map m" and "\<And>k v. (k, v) \<in> set m \<Longrightarrow> valid_utf8 k \<and> json_go_value (f v) = Some (g v)"
  shows "json_go_value (JObj (map (\<lambda>(k, v). (json_quote k, f v)) m)) = Some (GMap (map (\<lambda>(k, v). (k, g v)) m))"
proof -
  have "those (map (\<lambda>(k, v). json_go_value (f v)) m) = Some (map (\<lambda>(k, v). g v) m)"
    using assms(2) by (intro those_map_Some) auto
  moreover have "map (\<lambda>(k, v). json_unquote (json_quote k)) m = map fst m"
    using assms(2) by (intro map_cong) (auto simp: unquote_quote)
  moreover have "zip (map fst m) (map (\<lambda>(k, v). g v) m) = map (\<lambda>(k, v). (k, g v)) m"
    by (induction m) auto
  moreover have "overlay [] (map (\<lambda>(k, v). (k, g v)) m) = map (\<lambda>(k, v). (k, g v)) m"
    using assms(1) by (subst overlay_disjoint) (simp_all add: wf_map_def o_def case_prod_beta)
  ultimately show ?thesis by (simp add: o_def case_prod_unfold cong: map_cong)
qed

lemma read_members_back:
  assumes "wf_map m" and "\<And>k v. (k, v) \<in> set m \<Longrightarrow> valid_utf8 k \<and> json_go_value (f v) = Some (g v)"
  shows "json_go_value (JObj (map (\<lambda>(k, j). (json_quote k, j)) (sort_keys (map (\<lambda>(k, v). (k, f v)) m)))) =
    Some (GMap (sort_keys (map (\<lambda>(k, v). (k, g v)) m)))"
proof -
  have "map (\<lambda>(k, j). (json_quote k, j)) (sort_keys (map (\<lambda>(k, v). (k, f v)) m)) =
      map (\<lambda>(k, v). (json_quote k, f v)) (sort_keys m)"
    unfolding sort_keys_map by auto
  then show ?thesis
    unfolding sort_keys_map using assms by (simp only:) (rule read_quoted_members; simp)
qed

lemma read_strings_back:
  "list_all valid_utf8 ss \<Longrightarrow> json_go_value (JArr (map (\<lambda>s. JStr (json_quote s)) ss)) = Some (GArr (map GStr ss))"
  by (simp add: o_def list_all_iff unquote_quote those_map_Some)

lemma read_back: "json_faithful rt v \<Longrightarrow> json_go_value (value_json rt v) = Some (json_normal v)"
proof (induction v)
  case (GStrs ss)
  then show ?case using read_strings_back [of ss] by simp
next
  case (GArr vs)
  then have "those (map (json_go_value \<circ> value_json rt) vs) = Some (map json_normal vs)"
    by (intro those_map_Some) simp
  then show ?case by simp
next
  case (GMap m)
  then show ?case
    unfolding value_json.simps json_normal.simps by (intro read_members_back) auto
next
  case (GStrMap m)
  then show ?case
    unfolding value_json.simps json_normal.simps sort_keys_map
    by (intro read_quoted_members) (auto simp: unquote_quote)
qed (simp_all add: unquote_quote f64_reads_back_def int64_parse)

lemma value_json_ok: "json_faithful rt v \<Longrightarrow> json_ok (value_json rt v)"
proof (induction v)
  case (GMap m)
  then show ?case by (auto simp: raw_ok_quote)
qed (auto simp: raw_ok_quote number_ok_int f64_reads_back_def)

text \<open>A value that was marshalled, compact or in lines, is unmarshalled to its normal form.\<close>

definition nests :: "go_runtime \<Rightarrow> go_value \<Rightarrow> bool" where
  "nests rt v \<longleftrightarrow> json_depth (value_json rt v) \<le> max_nesting"

lemma marshal_faithful: "json_faithful rt v \<Longrightarrow> Marshal rt v = Ok (compact_text (value_json rt v))"
  by (simp add: Marshal_def faithful_marshals)

lemma marshal_indent_faithful:
  "json_faithful rt v \<Longrightarrow> nests rt v \<Longrightarrow> MarshalIndent rt v = Ok (indented_text (value_json rt v))"
  by (simp add: MarshalIndent_def marshal_faithful parse_compact value_json_ok nests_def)

definition normal_map :: "go_map \<Rightarrow> go_map" where
  "normal_map m = sort_keys (map (\<lambda>(k, v). (k, json_normal v)) m)"

lemma unmarshal_members:
  assumes "parse_json text = Some (JObj kvs)" and "json_go_value (JObj kvs) = Some (GMap m)"
  shows "Unmarshal_map text = Ok (Some m)"
  using assms by (simp only: Unmarshal_map_def option.case json.case go_value.case)

lemma unmarshal_value_map:
  assumes "json_faithful rt (GMap m)" and "parse_json text = Some (value_json rt (GMap m))"
  shows "Unmarshal_map text = Ok (Some (normal_map m))"
  using assms(2) read_back [OF assms(1)]
  unfolding value_json.simps(10) json_normal.simps(6) normal_map_def by (rule unmarshal_members)

lemma unmarshal_marshal:
  assumes "json_faithful rt (GMap m)" and "nests rt (GMap m)" and "Marshal rt (GMap m) = Ok text"
  shows "Unmarshal_map text = Ok (Some (normal_map m))"
proof -
  have "text = compact_text (value_json rt (GMap m))" using marshal_faithful [OF assms(1)] assms(3) by simp
  then have "parse_json text = Some (value_json rt (GMap m))"
    using value_json_ok [OF assms(1)] assms(2) by (simp only: parse_compact nests_def)
  with assms(1) show ?thesis by (rule unmarshal_value_map)
qed

lemma unmarshal_marshal_indent:
  assumes "json_faithful rt (GMap m)" and "nests rt (GMap m)" and "MarshalIndent rt (GMap m) = Ok text"
  shows "Unmarshal_map text = Ok (Some (normal_map m))"
proof -
  have "text = indented_text (value_json rt (GMap m))"
    using marshal_indent_faithful [OF assms(1,2)] assms(3) by simp
  then have "parse_json text = Some (value_json rt (GMap m))"
    using value_json_ok [OF assms(1)] assms(2) by (simp only: parse_indented nests_def)
  with assms(1) show ?thesis by (rule unmarshal_value_map)
qed

section \<open>Values that come from a text\<close>

text \<open>The \<open>float64\<close> numbers in a value.\<close>

fun json_floats :: "go_value \<Rightarrow> f64 list" where
  "json_floats (GF64 f) = [f]"
| "json_floats (GArr vs) = concat (map json_floats vs)"
| "json_floats (GMap m) = concat (map (\<lambda>(k, v). json_floats v) m)"
| "json_floats v = []"

lemma set_mput: "set (mput k v m) \<subseteq> insert (k, v) (set m)"
  unfolding mput_def by (induction m) auto

lemma set_overlay: "set (overlay dst src) \<subseteq> set dst \<union> set src"
proof (induction src arbitrary: dst)
  case (Cons p src)
  obtain k v where p: "p = (k, v)" by (cases p)
  show ?case using Cons [of "mput k v dst"] set_mput [of k v dst] by (auto simp: overlay_def p)
qed (simp add: overlay_def)

lemma those_mem: "those (map f xs) = Some ys \<Longrightarrow> y \<in> set ys \<Longrightarrow> \<exists>x\<in>set xs. f x = Some y"
  by (induction xs arbitrary: ys) (auto split: option.splits)

text \<open>Each entry of a decoded object was a member of it.\<close>

lemma decoded_entry:
  assumes "json_go_value (JObj kvs) = Some (GMap m)" and "(k, v) \<in> set m"
  shows "valid_utf8 k \<and> (\<exists>raw j. (raw, j) \<in> set kvs \<and> json_go_value j = Some v)"
proof -
  from assms(1) obtain vs where vs: "those (map (\<lambda>(k, v). json_go_value v) kvs) = Some vs"
    and m: "m = overlay [] (zip (map (\<lambda>(k, v). json_unquote k) kvs) vs)" by auto
  have "(k, v) \<in> set (zip (map (\<lambda>(k, v). json_unquote k) kvs) vs)"
    using assms(2) set_overlay [of "[]"] unfolding m by auto
  then have "k \<in> set (map (\<lambda>(k, v). json_unquote k) kvs)" "v \<in> set vs"
    by (rule set_zip_leftD, rule set_zip_rightD)
  with those_mem [OF vs] unquote_valid show ?thesis by fastforce
qed

lemma read_faithful:
  "json_go_value j = Some v \<Longrightarrow> \<forall>f\<in>set (json_floats v). f64_reads_back rt f \<Longrightarrow> json_faithful rt v"
proof (induction j arbitrary: v)
  case (JArr js)
  then obtain vs where v: "v = GArr vs" and vs: "those (map json_go_value js) = Some vs" by auto
  have "json_faithful rt u" if u: "u \<in> set vs" for u
  proof -
    from those_mem [OF vs u] obtain j where "j \<in> set js" "json_go_value j = Some u" by blast
    with JArr.IH JArr.prems(2) u show ?thesis by (auto simp: v)
  qed
  then show ?case by (simp add: v)
next
  case (JObj kvs)
  then obtain m where v: "v = GMap m" and wf: "wf_map m" by auto
  have "valid_utf8 k \<and> json_faithful rt u" if u: "(k, u) \<in> set m" for k u
  proof -
    from decoded_entry [OF JObj.prems(1) [unfolded v] u] obtain raw j
      where "valid_utf8 k" "(raw, j) \<in> set kvs" "json_go_value j = Some u" by blast
    with JObj.IH JObj.prems(2) u show ?thesis by (fastforce simp: v)
  qed
  with wf show ?case by (auto simp: v)
qed (auto simp: unquote_valid)

section \<open>Nesting\<close>

lemma fold_max_le: "fold max xs (a :: nat) \<le> n \<longleftrightarrow> a \<le> n \<and> (\<forall>x\<in>set xs. x \<le> n)"
  by (induction xs arbitrary: a) auto

lemma depth_le:
  "json_depth (JArr vs) \<le> n \<longleftrightarrow> (\<exists>k. n = Suc k \<and> (\<forall>v\<in>set vs. json_depth v \<le> k))"
  "json_depth (JObj kvs) \<le> n \<longleftrightarrow> (\<exists>k. n = Suc k \<and> (\<forall>(r, v)\<in>set kvs. json_depth v \<le> k))"
  by (cases n; auto simp: fold_max_le)+

lemma read_depth: "json_go_value j = Some v \<Longrightarrow> json_depth j \<le> n \<Longrightarrow> json_depth (value_json rt v) \<le> n"
proof (induction j arbitrary: v n)
  case (JArr js)
  then obtain vs k where v: "v = GArr vs" "those (map json_go_value js) = Some vs" and n: "n = Suc k"
    "\<forall>j\<in>set js. json_depth j \<le> k" by (auto simp: depth_le simp del: json_depth.simps)
  have "json_depth (value_json rt u) \<le> k" if "u \<in> set vs" for u
    using those_mem [OF v(2) that] JArr.IH n(2) by blast
  then show ?case by (simp add: v(1) n(1) depth_le del: json_depth.simps)
next
  case (JObj kvs)
  then obtain m k where v: "v = GMap m" and n: "n = Suc k" "\<forall>(r, j)\<in>set kvs. json_depth j \<le> k" by (auto simp: depth_le simp del: json_depth.simps)
  have "json_depth (value_json rt u) \<le> k" if u: "(x, u) \<in> set m" for x u
    using decoded_entry [OF JObj.prems(1) [unfolded v] u] JObj.IH n(2) by fastforce
  then show ?case by (auto simp: v n(1) depth_le simp del: json_depth.simps)
qed auto

text \<open>\<open>json.Encoder\<close> ends a value with a line feed.\<close>

definition encoded_line :: "json \<Rightarrow> string" where
  "encoded_line j = compact_text j @ [CHR 0x0A]"

lemma parse_encoded_line:
  assumes "json_ok j" and "json_depth j \<le> max_nesting"
  shows "parse_json (encoded_line j) = Some j"
proof -
  have "delimited [CHR 0x0A]" by (simp add: delimited_def number_char_def is_digit_def)
  then have "json_value (json_calls j) (encoded_line j) = Some (j, [CHR 0x0A])"
    unfolding encoded_line_def compact_text_def by (intro compact.read_text assms(1) order_refl)
  moreover have "json_skip [CHR 0x0A] = []" by (simp add: json_space_def)
  ultimately show ?thesis using assms(2) unfolding parse_json_iff by blast
qed

section \<open>A text laid out in lines\<close>

text \<open>A map that came from a text, or the \<open>nil\<close> that \<open>null\<close> leaves.\<close>

definition map_value :: "go_map option \<Rightarrow> go_value" where
  "map_value h = (case h of None \<Rightarrow> GNil | Some m \<Rightarrow> GMap m)"

lemma unmarshal_map_cases:
  assumes "Unmarshal_map text = Ok h"
  obtains (null) "h = None" "parse_json text = Some JNull"
  | (object) kvs m where "h = Some m" "parse_json text = Some (JObj kvs)" "json_go_value (JObj kvs) = Some (GMap m)"
  using assms by (auto simp: Unmarshal_map_def split: option.splits json.splits go_value.splits)

lemma parse_json_depth: "parse_json s = Some j \<Longrightarrow> json_depth j \<le> max_nesting"
  by (simp add: parse_json_iff)

lemma unmarshal_null: "parse_json text = Some JNull \<Longrightarrow> Unmarshal_map text = Ok None"
  by (simp add: Unmarshal_map_def)

lemma indented_reads_back:
  assumes "Unmarshal_map text = Ok h" and "\<forall>f\<in>set (json_floats (map_value h)). f64_reads_back rt f"
  shows "\<exists>t. MarshalIndent rt (map_value h) = Ok t \<and> Unmarshal_map t = Ok (map_option normal_map h)"
  using assms(1)
proof (cases rule: unmarshal_map_cases)
  case null
  have d: "json_ok JNull" "json_depth JNull \<le> max_nesting" by simp_all
  have "MarshalIndent rt GNil = Ok (indented_text JNull)"
    using parse_compact [OF d] by (simp add: MarshalIndent_def Marshal_def)
  moreover have "Unmarshal_map (indented_text JNull) = Ok None"
    by (rule unmarshal_null [OF parse_indented [OF d]])
  ultimately show ?thesis by (simp add: null(1) map_value_def)
next
  case (object kvs m)
  have f: "json_faithful rt (GMap m)"
    using read_faithful [OF object(3)] assms(2) by (simp add: object(1) map_value_def)
  have n: "nests rt (GMap m)"
    unfolding nests_def by (rule read_depth [OF object(3) parse_json_depth [OF object(2)]])
  from marshal_indent_faithful [OF f n] unmarshal_marshal_indent [OF f n] show ?thesis
    by (simp add: object(1) map_value_def)
qed

end
