(* ===== verification/Metrics_Health.thy ===== *)
theory Metrics_Health
  imports Go_Json_Roundtrip
begin

text \<open>
  \<open>internal/metrics\<close>: the Prometheus counters of the broker as counts per label values
  (\<open>metrics.go\<close>; of a histogram, the number of observations), the health checker and its HTTP
  handlers (\<open>health.go\<close>), and the routes of the metrics server.
\<close>

section \<open>Counters\<close>

type_synonym counter_vec = "string list \<Rightarrow> nat"

record metrics =
  AuthRequestsTotal :: counter_vec
  AuthRequestDuration :: counter_vec
  AuthRequestsInFlight :: int
  TokensMinted :: counter_vec
  IDPVerifyTotal :: counter_vec
  IDPVerifyDuration :: counter_vec
  RequestErrors :: counter_vec
  ResponseErrors :: counter_vec

definition no_counts :: counter_vec where
  "no_counts = (\<lambda>labels. 0)"

definition inc :: "string list \<Rightarrow> counter_vec \<Rightarrow> counter_vec" where
  "inc labels c = c(labels := c labels + 1)"

definition StatusSuccess :: string where "StatusSuccess = ''success''"
definition StatusError :: string where "StatusError = ''error''"
definition StatusDenied :: string where "StatusDenied = ''denied''"
definition StageDecrypt :: string where "StageDecrypt = ''decrypt''"
definition StageDecode :: string where "StageDecode = ''decode''"
definition StageSign :: string where "StageSign = ''sign''"
definition StageEncrypt :: string where "StageEncrypt = ''encrypt''"

lemmas status_defs = StatusSuccess_def StatusError_def StatusDenied_def
lemmas stage_defs = StageDecrypt_def StageDecode_def StageSign_def StageEncrypt_def

definition new_metrics :: metrics where
  "new_metrics = \<lparr>AuthRequestsTotal = no_counts, AuthRequestDuration = no_counts, AuthRequestsInFlight = 0,
     TokensMinted = no_counts, IDPVerifyTotal = no_counts, IDPVerifyDuration = no_counts,
     RequestErrors = no_counts, ResponseErrors = no_counts\<rparr>"

text \<open>The names and labels registered, in this order; registering a name twice panics.\<close>

definition metric_descs :: "(string \<times> string list) list" where
  "metric_descs =
    [(''auth_requests_total'', [''status'']),
     (''auth_request_duration_seconds'', [''status'']),
     (''auth_requests_in_flight'', []),
     (''tokens_minted_total'', [''account'', ''idp'']),
     (''idp_verify_total'', [''idp'', ''status'']),
     (''idp_verify_duration_seconds'', [''idp'']),
     (''request_errors_total'', [''stage'']),
     (''response_errors_total'', [''stage''])]"

lemma metric_names_distinct: "distinct (map fst metric_descs)"
  by (simp add: metric_descs_def)

lemma inc_same [simp]: "inc l c l = Suc (c l)"
  by (simp add: inc_def)

lemma inc_other [simp]: "l \<noteq> l' \<Longrightarrow> inc l c l' = c l'"
  by (simp add: inc_def)

section \<open>The health checker\<close>

text \<open>\<open>hc_nc\<close> says whether a connection is stored.\<close>

record health_checker =
  hc_nc :: bool
  hc_natsConnected :: bool
  hc_idpVerifiersReady :: bool
  hc_serviceRegistered :: bool

definition NewHealthChecker :: health_checker where
  "NewHealthChecker = \<lparr>hc_nc = False, hc_natsConnected = False, hc_idpVerifiersReady = False,
     hc_serviceRegistered = False\<rparr>"

text \<open>The argument is \<open>None\<close> for a nil connection, else what its \<open>IsConnected\<close> answers.\<close>

definition SetNATSConn :: "bool option \<Rightarrow> health_checker \<Rightarrow> health_checker" where
  "SetNATSConn nc h = h\<lparr>hc_nc := (nc \<noteq> None), hc_natsConnected := (nc = Some True)\<rparr>"

definition SetNATSConnected :: "bool \<Rightarrow> health_checker \<Rightarrow> health_checker" where
  "SetNATSConnected b h = h\<lparr>hc_natsConnected := b\<rparr>"

definition SetIDPVerifiersReady :: "bool \<Rightarrow> health_checker \<Rightarrow> health_checker" where
  "SetIDPVerifiersReady b h = h\<lparr>hc_idpVerifiersReady := b\<rparr>"

definition SetServiceRegistered :: "bool \<Rightarrow> health_checker \<Rightarrow> health_checker" where
  "SetServiceRegistered b h = h\<lparr>hc_serviceRegistered := b\<rparr>"

definition IsAlive :: "health_checker \<Rightarrow> bool" where
  "IsAlive h = (if \<not> hc_nc h then True else hc_natsConnected h)"

definition IsReady :: "health_checker \<Rightarrow> bool \<times> (string \<times> string) list" where
  "IsReady h =
     (hc_natsConnected h \<and> hc_idpVerifiersReady h \<and> hc_serviceRegistered h,
      [(''nats'', if hc_natsConnected h then ''connected'' else ''disconnected''),
       (''idp_verifiers'', if hc_idpVerifiersReady h then ''ready'' else ''not_ready''),
       (''service'', if hc_serviceRegistered h then ''registered'' else ''not_registered'')])"

section \<open>HTTP\<close>

text \<open>
  The health endpoints answer with a JSON object, whose \<open>checks\<close> are left out where there are none;
  a map is written with its names in order.
\<close>

record health_status =
  hs_Status :: string
  hs_Checks :: "(string \<times> string) list"

definition strings_json :: "(string \<times> string) list \<Rightarrow> json" where
  "strings_json m = JObj (map (\<lambda>(k, s). (json_quote k, JStr (json_quote s))) (sort_keys m))"

definition health_status_json :: "health_status \<Rightarrow> json" where
  "health_status_json h =
     JObj ((''status'', JStr (json_quote (hs_Status h)))
       # (if hs_Checks h = [] then [] else [(''checks'', strings_json (hs_Checks h))]))"

text \<open>A response: its status, the headers the handler sets, and its body.\<close>

datatype body =
    Body string
  | Exposition

record response =
  rs_code :: nat
  rs_headers :: "(string \<times> string) list"
  rs_body :: body

definition json_response :: "nat \<Rightarrow> health_status \<Rightarrow> response" where
  "json_response code h =
     \<lparr>rs_code = code, rs_headers = [(''Content-Type'', ''application/json'')],
      rs_body = Body (encoded_line (health_status_json h))\<rparr>"

definition LivenessHandler :: "health_checker \<Rightarrow> response" where
  "LivenessHandler h =
     (if IsAlive h then json_response 200 \<lparr>hs_Status = ''ok'', hs_Checks = []\<rparr>
      else json_response 503 \<lparr>hs_Status = ''unavailable'', hs_Checks = []\<rparr>)"

definition ReadinessHandler :: "health_checker \<Rightarrow> response" where
  "ReadinessHandler h =
     (case IsReady h of (ready, checks) \<Rightarrow>
        if ready then json_response 200 \<lparr>hs_Status = ''ok'', hs_Checks = checks\<rparr>
        else json_response 503 \<lparr>hs_Status = ''unavailable'', hs_Checks = checks\<rparr>)"

definition not_found :: response where
  "not_found = \<lparr>rs_code = 404, rs_headers = [], rs_body = Body ''404 page not found''\<rparr>"

text \<open>The routes of \<open>NewServer\<close>; the library's mux answers 404 on other paths.\<close>

definition server_route :: "health_checker option \<Rightarrow> string \<Rightarrow> response" where
  "server_route health path =
     (if path = ''/metrics'' then \<lparr>rs_code = 200, rs_headers = [], rs_body = Exposition\<rparr>
      else case health of
          Some h \<Rightarrow>
            if path = ''/healthz'' then LivenessHandler h
            else if path = ''/readyz'' then ReadinessHandler h
            else not_found
        | None \<Rightarrow>
            if path = ''/healthz'' then \<lparr>rs_code = 200, rs_headers = [], rs_body = Body ''ok''\<rparr>
            else not_found)"

text \<open>The server: its address, its handler and the time it waits for a request's headers.\<close>

record metrics_server =
  ms_Addr :: string
  ms_Handler :: "string \<Rightarrow> response"
  ms_ReadHeaderTimeout :: int

definition readHeaderTimeout :: int where
  "readHeaderTimeout = 5 * second"

definition NewServer :: "int \<Rightarrow> health_checker option \<Rightarrow> metrics_server" where
  "NewServer port health =
     \<lparr>ms_Addr = CHR '':'' # show_int port, ms_Handler = server_route health, ms_ReadHeaderTimeout = readHeaderTimeout\<rparr>"

text \<open>
  The life of the server. \<open>Start\<close> leaves the listening to a goroutine, which may be scheduled at any
  time, also after \<open>Stop\<close>: then \<open>ListenAndServe\<close> returns at once. An error ends up in the log and
  nowhere else.
\<close>

record server_life =
  sl_starting :: nat
  sl_listening :: bool
  sl_shutdown :: bool
  sl_logged :: "go_error list"

definition new_server_life :: server_life where
  "new_server_life = \<lparr>sl_starting = 0, sl_listening = False, sl_shutdown = False, sl_logged = []\<rparr>"

definition shutdownTimeout :: int where
  "shutdownTimeout = 5 * second"

definition Server_Start :: "server_life \<Rightarrow> server_life" where
  "Server_Start l = l\<lparr>sl_starting := Suc (sl_starting l)\<rparr>"

text \<open>The goroutine runs; the argument is the outcome of listening on the address.\<close>

definition ListenAndServe :: "unit result \<Rightarrow> server_life \<Rightarrow> server_life" where
  "ListenAndServe bound l =
     (if sl_starting l = 0 then l
      else let l' = l\<lparr>sl_starting := sl_starting l - 1\<rparr> in
        if sl_shutdown l then l'
        else (case bound of
                Inl e \<Rightarrow> l'\<lparr>sl_logged := sl_logged l @ [Wrapped ''metrics server error'' e]\<rparr>
              | Inr _ \<Rightarrow> l'\<lparr>sl_listening := True\<rparr>))"

text \<open>The argument of \<open>Stop\<close> is the outcome of \<open>Shutdown\<close> within the timeout; the listener is closed in any case.\<close>

definition Server_Stop :: "unit result \<Rightarrow> server_life \<Rightarrow> server_life" where
  "Server_Stop ended l =
     l\<lparr>sl_shutdown := True, sl_listening := False,
       sl_logged := sl_logged l @ (case ended of Inl e \<Rightarrow> [Wrapped ''metrics server shutdown error'' e] | Inr _ \<Rightarrow> [])\<rparr>"

inductive server_step :: "server_life \<Rightarrow> server_life \<Rightarrow> bool" where
  Starts: "server_step l (Server_Start l)"
| Listens: "server_step l (ListenAndServe bound l)"
| Stops: "server_step l (Server_Stop ended l)"

text \<open>A server that was stopped does not listen again, whenever its goroutines run.\<close>

lemma stopped_for_good:
  assumes "server_step\<^sup>*\<^sup>* (Server_Stop ended l) l'"
  shows "sl_shutdown l' \<and> \<not> sl_listening l'"
  using assms
proof (induction rule: rtranclp_induct)
  case base
  show ?case by (simp add: Server_Stop_def)
next
  case (step y z)
  from step(2,3) show ?case
    by (cases rule: server_step.cases) (simp_all add: Server_Start_def ListenAndServe_def Server_Stop_def Let_def)
qed

section \<open>Histories\<close>

text \<open>The calls that change the checker, from start-up and from the connection's handlers.\<close>

datatype health_event =
    ConnSet "bool option"
  | Connected bool
  | VerifiersReady bool
  | Registered bool

primrec health_apply :: "health_event \<Rightarrow> health_checker \<Rightarrow> health_checker" where
  "health_apply (ConnSet nc) h = SetNATSConn nc h"
| "health_apply (Connected b) h = SetNATSConnected b h"
| "health_apply (VerifiersReady b) h = SetIDPVerifiersReady b h"
| "health_apply (Registered b) h = SetServiceRegistered b h"

lemmas setter_defs = SetNATSConn_def SetNATSConnected_def SetIDPVerifiersReady_def SetServiceRegistered_def

definition after :: "health_event list \<Rightarrow> health_checker" where
  "after es = fold health_apply es NewHealthChecker"

text \<open>The latest value a history gives to one fact.\<close>

definition latest :: "(health_event \<Rightarrow> bool option) \<Rightarrow> health_event list \<Rightarrow> bool" where
  "latest f es = fold (\<lambda>e b. case f e of Some v \<Rightarrow> v | None \<Rightarrow> b) es False"

fun conn_known :: "health_event \<Rightarrow> bool option" where
  "conn_known (ConnSet nc) = Some (nc \<noteq> None)"
| "conn_known _ = None"

fun conn_up :: "health_event \<Rightarrow> bool option" where
  "conn_up (ConnSet nc) = Some (nc = Some True)"
| "conn_up (Connected b) = Some b"
| "conn_up _ = None"

fun idps_up :: "health_event \<Rightarrow> bool option" where
  "idps_up (VerifiersReady b) = Some b"
| "idps_up _ = None"

fun service_up :: "health_event \<Rightarrow> bool option" where
  "service_up (Registered b) = Some b"
| "service_up _ = None"

lemma after_fields:
  "hc_nc (after es) = latest conn_known es \<and> hc_natsConnected (after es) = latest conn_up es
   \<and> hc_idpVerifiersReady (after es) = latest idps_up es \<and> hc_serviceRegistered (after es) = latest service_up es"
proof (induction es rule: rev_induct)
  case (snoc e es)
  have a: "after (es @ [x]) = health_apply x (after es)" for x by (simp add: after_def)
  have l: "latest f (es @ [x]) = (case f x of Some v \<Rightarrow> v | None \<Rightarrow> latest f es)" for f x
    by (simp add: latest_def split: option.split)
  from snoc show ?case by (cases e) (simp_all add: a l setter_defs)
qed (simp add: after_def latest_def NewHealthChecker_def)

text \<open>
  After any history of updates, \<open>/readyz\<close> answers 200 exactly when the latest news
  are that the connection is up, a verifier is available and the service is registered; \<open>/healthz\<close>
  answers 200 exactly when no connection has been stored yet or the latest news are that it is up.
  So a broker that is ready is alive.
\<close>

lemma health_answers_latest_news:
  "(rs_code (server_route (Some (after es)) ''/readyz'') = 200 \<longleftrightarrow>
      latest conn_up es \<and> latest idps_up es \<and> latest service_up es)
   \<and> (rs_code (server_route (Some (after es)) ''/healthz'') = 200 \<longleftrightarrow>
      \<not> latest conn_known es \<or> latest conn_up es)
   \<and> \<not> (rs_code (server_route (Some (after es)) ''/readyz'') = 200
        \<and> rs_code (server_route (Some (after es)) ''/healthz'') = 503)"
  using after_fields [of es]
  by (simp add: server_route_def LivenessHandler_def ReadinessHandler_def json_response_def IsReady_def IsAlive_def)

text \<open>What a probe reads: the body of an answer is a JSON object with the status and the checks.\<close>

lemma health_body_reads:
  assumes "wf_map (hs_Checks h)" and "valid_utf8 (hs_Status h)"
    and "\<forall>(k, s)\<in>set (hs_Checks h). valid_utf8 k \<and> valid_utf8 s"
  shows "Unmarshal_map (encoded_line (health_status_json h)) =
    Ok (Some ((''status'', GStr (hs_Status h))
      # (if hs_Checks h = [] then [] else [(''checks'', GMap (map (\<lambda>(k, s). (k, GStr s)) (sort_keys (hs_Checks h))))])))"
proof -
  have names: "json_quote ''status'' = ''status''" "json_quote ''checks'' = ''checks''"
    "valid_utf8 ''status''" "valid_utf8 ''checks''" by code_simp+
  have checks: "json_go_value (strings_json (hs_Checks h)) = Some (GMap (map (\<lambda>(k, s). (k, GStr s)) (sort_keys (hs_Checks h))))"
    unfolding strings_json_def by (rule read_quoted_members) (use assms in \<open>auto simp: unquote_quote\<close>)
  have d: "json_depth (strings_json (hs_Checks h)) \<le> 1" by (auto simp: strings_json_def depth_le simp del: json_depth.simps(1,2))
  have r: "raw_ok ''status''" "raw_ok ''checks''" using raw_ok_quote [of "''status''"] raw_ok_quote [of "''checks''"] names by simp_all
  have ok: "json_ok (health_status_json h)" by (auto simp: health_status_json_def strings_json_def raw_ok_quote r)
  have depth: "json_depth (health_status_json h) \<le> max_nesting" using d by (simp add: health_status_json_def max_nesting_def)
  obtain kvs where kvs: "health_status_json h = JObj kvs" by (simp add: health_status_json_def)
  have u: "json_unquote ''status'' = ''status''" "json_unquote ''checks'' = ''checks''"
    using unquote_quote [OF names(3)] unquote_quote [OF names(4)] names by simp_all
  have "json_go_value (JObj kvs) = Some (GMap ((''status'', GStr (hs_Status h))
      # (if hs_Checks h = [] then [] else [(''checks'', GMap (map (\<lambda>(k, s). (k, GStr s)) (sort_keys (hs_Checks h))))])))"
    unfolding kvs [symmetric] health_status_json_def using assms(2) checks
    by (simp add: u unquote_quote overlay_def mput_def)
  from unmarshal_members [OF parse_encoded_line [OF ok depth, unfolded kvs] this] show ?thesis by (simp add: kvs)
qed

lemma readiness_text:
  assumes "list_all valid_utf8 [st, a, b, c]"
  shows "Unmarshal_map (encoded_line (health_status_json
        \<lparr>hs_Status = st, hs_Checks = [(''nats'', a), (''idp_verifiers'', b), (''service'', c)]\<rparr>)) =
    Ok (Some [(''status'', GStr st),
      (''checks'', GMap [(''idp_verifiers'', GStr b), (''nats'', GStr a), (''service'', GStr c)])])"
proof -
  have "valid_utf8 ''nats''" "valid_utf8 ''idp_verifiers''" "valid_utf8 ''service''" by code_simp+
  moreover have "sort_keys [(''nats'', a), (''idp_verifiers'', b), (''service'', c)] =
      [(''idp_verifiers'', b), (''nats'', a), (''service'', c)]" by (simp add: sort_keys_def)
  ultimately show ?thesis
    using assms health_body_reads [of "\<lparr>hs_Status = st, hs_Checks = [(''nats'', a), (''idp_verifiers'', b), (''service'', c)]\<rparr>"]
    by (simp add: wf_map_def)
qed

text \<open>\<open>/readyz\<close> says of each of the three conditions whether it holds, by the latest news.\<close>

lemma readiness_body:
  "\<exists>text. rs_body (server_route (Some (after es)) ''/readyz'') = Body text
    \<and> Unmarshal_map text = Ok (Some
        [(''status'', GStr (if latest conn_up es \<and> latest idps_up es \<and> latest service_up es then ''ok'' else ''unavailable'')),
         (''checks'', GMap
           [(''idp_verifiers'', GStr (if latest idps_up es then ''ready'' else ''not_ready'')),
            (''nats'', GStr (if latest conn_up es then ''connected'' else ''disconnected'')),
            (''service'', GStr (if latest service_up es then ''registered'' else ''not_registered''))])])"
proof -
  let ?a = "if latest conn_up es then ''connected'' else ''disconnected''"
  let ?b = "if latest idps_up es then ''ready'' else ''not_ready''"
  let ?c = "if latest service_up es then ''registered'' else ''not_registered''"
  let ?st = "if latest conn_up es \<and> latest idps_up es \<and> latest service_up es then ''ok'' else ''unavailable''"
  have "rs_body (server_route (Some (after es)) ''/readyz'') = Body (encoded_line (health_status_json
      \<lparr>hs_Status = ?st, hs_Checks = [(''nats'', ?a), (''idp_verifiers'', ?b), (''service'', ?c)]\<rparr>))"
    using after_fields [of es]
    by (simp add: server_route_def ReadinessHandler_def IsReady_def json_response_def)
  moreover have "list_all valid_utf8 [''ok'', ''unavailable'', ''connected'', ''disconnected'', ''ready'', ''not_ready'',
      ''registered'', ''not_registered'']" by code_simp
  then have "list_all valid_utf8 [?st, ?a, ?b, ?c]" by simp
  ultimately show ?thesis using readiness_text [of ?st ?a ?b ?c] by blast
qed

lemma health_answers_latest_news_witness:
  "rs_code (server_route (Some (after [ConnSet (Some True), VerifiersReady True, Registered True, Connected False])) ''/healthz'') \<noteq> 200
   \<and> rs_code (server_route (Some (after [ConnSet (Some True), VerifiersReady True, Registered True])) ''/readyz'') = 200"
  using health_answers_latest_news [of "[ConnSet (Some True), VerifiersReady True, Registered True, Connected False]"]
    health_answers_latest_news [of "[ConnSet (Some True), VerifiersReady True, Registered True]"]
  by (simp add: latest_def)

end
