(* ===== verification/Rbac_Selection.thy ===== *)
theory Rbac_Selection
  imports Rbac
begin

text \<open>
  What \<open>lookupUserAccount\<close> promises. The reference selections \<open>strict_pick\<close> and \<open>best_pick\<close>
  say which binding a strategy chooses, as functions of the criteria that hold; the loops of the
  code are shown to compute them, whatever the expression cache holds at the start. The contract
  the two strategies share is the locale \<open>binding_selector\<close>.
\<close>

section \<open>The expression cache\<close>

text \<open>The program an expression is run with, given the cache at the start of the request.\<close>

definition program_for :: "'p expr_engine \<Rightarrow> go_map \<Rightarrow> 'p expr_cache \<Rightarrow> string \<Rightarrow> 'p result" where
  "program_for eng ctx cache e = fst (loadOrCompileExpr eng e ctx cache)"

definition same_programs :: "'p expr_engine \<Rightarrow> go_map \<Rightarrow> 'p expr_cache \<Rightarrow> 'p expr_cache \<Rightarrow> bool" where
  "same_programs eng ctx c c' \<longleftrightarrow> (\<forall>e. program_for eng ctx c e = program_for eng ctx c' e)"

lemma same_programs_refl [simp]: "same_programs eng ctx c c"
  by (simp add: same_programs_def)

lemma same_programs_trans:
  "same_programs eng ctx a b \<Longrightarrow> same_programs eng ctx b c \<Longrightarrow> same_programs eng ctx a c"
  by (simp add: same_programs_def)

lemma load_same_programs: "same_programs eng ctx cache (snd (loadOrCompileExpr eng e ctx cache))"
  by (cases cache)
    (auto simp: same_programs_def program_for_def loadOrCompileExpr_def
      split: option.splits sum.splits Option.bind_splits if_splits)

definition criterion_holds :: "'p expr_engine \<Rightarrow> go_map \<Rightarrow> 'p expr_cache \<Rightarrow> match_criterion \<Rightarrow> bool" where
  "criterion_holds eng ctx cache m = fst (fst (evaluateMatchCriterion eng m ctx cache))"

lemma criterion_holds_expr:
  "mc_Expr m \<noteq> [] \<Longrightarrow> criterion_holds eng ctx cache m \<longleftrightarrow>
     (\<exists>p. program_for eng ctx cache (mc_Expr m) = Inr p \<and> ex_run eng p ctx = Inr (GBool True))"
  by (auto simp: criterion_holds_def evaluateMatchCriterion_def program_for_def
      split: prod.splits sum.splits go_value.splits bool.splits)

lemma criterion_holds_other:
  "mc_Expr m = [] \<Longrightarrow> criterion_holds eng ctx cache m \<longleftrightarrow>
     (if mc_Permission m \<noteq> [] then permission_matched ctx (mc_Permission m)
      else (\<exists>v. mget ctx (mc_Claim m) = Some v \<and> claim_matched v (mc_Value m)))"
  by (auto simp: criterion_holds_def evaluateMatchCriterion_def split: option.splits)

lemma criterion_holds_cong:
  "same_programs eng ctx c c' \<Longrightarrow> criterion_holds eng ctx c' m = criterion_holds eng ctx c m"
  by (cases "mc_Expr m = []") (simp_all add: criterion_holds_expr criterion_holds_other same_programs_def)

lemma evaluate_same_programs: "same_programs eng ctx c (snd (evaluateMatchCriterion eng m ctx c))"
  using load_same_programs [of eng ctx c "mc_Expr m"]
  by (auto simp: evaluateMatchCriterion_def split: prod.splits sum.splits option.splits go_value.splits bool.splits)

lemma evaluate_cases:
  obtains d c' where "evaluateMatchCriterion eng m ctx c = ((criterion_holds eng ctx c m, d), c')"
    and "same_programs eng ctx c c'"
proof -
  obtain b d c' where e: "evaluateMatchCriterion eng m ctx c = ((b, d), c')" by (metis prod.exhaust)
  with evaluate_same_programs [of eng ctx c m] that show ?thesis
    by (simp add: criterion_holds_def)
qed

section \<open>The loop over the criteria\<close>

definition hits :: "(match_criterion \<Rightarrow> bool) \<Rightarrow> match_criterion list \<Rightarrow> nat" where
  "hits hit ms = length (filter hit ms)"

lemma hits_le: "hits hit ms \<le> length ms"
  by (simp add: hits_def)

lemma hits_all_iff: "hits hit ms = length ms \<longleftrightarrow> (\<forall>m\<in>set ms. hit m)"
  by (simp add: hits_def) (metis filter_True filter_cong length_filter_less less_irrefl)

lemma hits_pos_iff: "0 < hits hit ms \<longleftrightarrow> (\<exists>m\<in>set ms. hit m)"
  by (auto simp: hits_def filter_empty_conv)

lemma match_loop_best:
  assumes "st \<noteq> StrategyStrict" and "same_programs eng ctx c0 c"
  shows "\<exists>on' c'. match_loop eng st ms ctx n on fl c
      = (n + int (hits (criterion_holds eng ctx c0) ms), on', fl \<and> (\<forall>m\<in>set ms. criterion_holds eng ctx c0 m), c')
    \<and> same_programs eng ctx c0 c'"
  using assms(2)
proof (induction ms arbitrary: n on fl c)
  case (Cons m ms)
  obtain d c' where e: "evaluateMatchCriterion eng m ctx c = ((criterion_holds eng ctx c m, d), c')"
    and s: "same_programs eng ctx c c'" by (rule evaluate_cases)
  from same_programs_trans [OF Cons.prems s] have s0: "same_programs eng ctx c0 c'" .
  have h: "criterion_holds eng ctx c m = criterion_holds eng ctx c0 m"
    using criterion_holds_cong [OF Cons.prems] .
  show ?case
    using Cons.IH [OF s0, of "n + 1" "on @ [d]" fl] Cons.IH [OF s0, of n on False] assms(1)
    by (auto simp: e h hits_def)
qed (simp add: hits_def)

lemma match_loop_strict:
  assumes "same_programs eng ctx c0 c" and "0 \<le> n"
  shows "\<exists>k on' c'. match_loop eng StrategyStrict ms ctx n on fl c
      = (k, on', fl \<and> (\<forall>m\<in>set ms. criterion_holds eng ctx c0 m), c')
    \<and> same_programs eng ctx c0 c'
    \<and> ((\<forall>m\<in>set ms. criterion_holds eng ctx c0 m) \<longrightarrow> k = n + int (length ms))"
  using assms
proof (induction ms arbitrary: n on c)
  case (Cons m ms)
  obtain d c' where e: "evaluateMatchCriterion eng m ctx c = ((criterion_holds eng ctx c m, d), c')"
    and s: "same_programs eng ctx c c'" by (rule evaluate_cases)
  from same_programs_trans [OF Cons.prems(1) s] have s0: "same_programs eng ctx c0 c'" .
  have h: "criterion_holds eng ctx c m = criterion_holds eng ctx c0 m"
    using criterion_holds_cong [OF Cons.prems(1)] .
  show ?case
    using Cons.IH [OF s0, of "n + 1" "on @ [d]"] Cons.prems(2) s0 by (auto simp: e h)
qed simp

section \<open>Scores\<close>

text \<open>How well a binding matches: criteria met, then criteria asked for.\<close>

datatype match_score = Score (met: nat) (asked: nat)

instantiation match_score :: linorder
begin

definition less_eq_match_score :: "match_score \<Rightarrow> match_score \<Rightarrow> bool" where
  "less_eq_match_score a b \<longleftrightarrow> met a < met b \<or> (met a = met b \<and> asked a \<le> asked b)"

definition less_match_score :: "match_score \<Rightarrow> match_score \<Rightarrow> bool" where
  "less_match_score a b \<longleftrightarrow> met a < met b \<or> (met a = met b \<and> asked a < asked b)"

instance
proof
  fix a b :: match_score
  show "a \<le> b \<Longrightarrow> b \<le> a \<Longrightarrow> a = b"
    by (cases a; cases b) (auto simp: less_eq_match_score_def)
qed (auto simp: less_eq_match_score_def less_match_score_def)

end

definition score :: "(match_criterion \<Rightarrow> bool) \<Rightarrow> role_binding \<Rightarrow> match_score" where
  "score hit b = Score (hits hit (rb_Match b)) (length (rb_Match b))"

definition eligible :: "(match_criterion \<Rightarrow> bool) \<Rightarrow> role_binding \<Rightarrow> bool" where
  "eligible hit b \<longleftrightarrow> (\<exists>m\<in>set (rb_Match b). hit m)"

definition full_match :: "(match_criterion \<Rightarrow> bool) \<Rightarrow> role_binding \<Rightarrow> bool" where
  "full_match hit b \<longleftrightarrow> rb_Match b \<noteq> [] \<and> (\<forall>m\<in>set (rb_Match b). hit m)"

definition is_fallback :: "role_binding \<Rightarrow> bool" where
  "is_fallback b \<longleftrightarrow> rb_Match b = []"

lemma full_match_eligible: "full_match hit b \<Longrightarrow> eligible hit b"
  by (cases "rb_Match b") (auto simp: full_match_def eligible_def)

section \<open>The contract of a strategy\<close>

locale binding_selector =
  fixes pick :: "(match_criterion \<Rightarrow> bool) \<Rightarrow> role_binding list \<Rightarrow> role_binding option"
  assumes pick_sound: "pick hit bs = Some b \<Longrightarrow> b \<in> set bs \<and> eligible hit b"
    and pick_complete: "b \<in> set bs \<Longrightarrow> full_match hit b \<Longrightarrow> pick hit bs \<noteq> None"
begin

text \<open>The binding used: the strategy's pick, else the first fallback.\<close>

definition chosen :: "(match_criterion \<Rightarrow> bool) \<Rightarrow> role_binding list \<Rightarrow> role_binding option" where
  "chosen hit bs = (case pick hit bs of Some b \<Rightarrow> Some b | None \<Rightarrow> find is_fallback bs)"

lemma chosen_sound:
  "chosen hit bs = Some b \<Longrightarrow> b \<in> set bs \<and> (eligible hit b \<or> is_fallback b)"
  by (auto simp: chosen_def dest: pick_sound find_SomeD split: option.splits)

lemma fallback_last:
  assumes "chosen hit bs = Some b" and "is_fallback b" and "b' \<in> set bs"
  shows "\<not> full_match hit b'"
proof
  assume full: "full_match hit b'"
  from pick_complete [OF assms(3) full] obtain d where d: "pick hit bs = Some d" by auto
  with assms(1) have "eligible hit b" by (auto simp: chosen_def dest: pick_sound)
  with assms(2) show False by (simp add: eligible_def is_fallback_def)
qed

lemma refused:
  assumes "chosen hit bs = None" and "b \<in> set bs"
  shows "\<not> full_match hit b \<and> \<not> is_fallback b"
  using assms pick_complete [of b bs hit]
  by (auto simp: chosen_def find_None_iff split: option.splits)

end

definition strict_pick :: "(match_criterion \<Rightarrow> bool) \<Rightarrow> role_binding list \<Rightarrow> role_binding option" where
  "strict_pick hit bs = find (full_match hit) bs"

text \<open>The best binding so far, replaced by a strictly better one only.\<close>

definition better :: "(match_criterion \<Rightarrow> bool) \<Rightarrow> role_binding option \<Rightarrow> role_binding \<Rightarrow> bool" where
  "better hit acc b \<longleftrightarrow>
     eligible hit b \<and> (case acc of None \<Rightarrow> True | Some a \<Rightarrow> score hit a < score hit b)"

fun best_from ::
  "(match_criterion \<Rightarrow> bool) \<Rightarrow> role_binding option \<Rightarrow> role_binding list \<Rightarrow> role_binding option" where
  "best_from hit acc [] = acc"
| "best_from hit acc (b # bs) = best_from hit (if better hit acc b then Some b else acc) bs"

definition best_pick :: "(match_criterion \<Rightarrow> bool) \<Rightarrow> role_binding list \<Rightarrow> role_binding option" where
  "best_pick hit bs = best_from hit None bs"

text \<open>The first of the bindings with the highest score.\<close>

definition first_best :: "(match_criterion \<Rightarrow> bool) \<Rightarrow> role_binding list \<Rightarrow> role_binding \<Rightarrow> bool" where
  "first_best hit bs b \<longleftrightarrow>
     (\<exists>xs ys. bs = xs @ b # ys \<and> eligible hit b
       \<and> (\<forall>x\<in>set xs. eligible hit x \<longrightarrow> score hit x < score hit b)
       \<and> (\<forall>y\<in>set ys. eligible hit y \<longrightarrow> score hit y \<le> score hit b))"

lemma best_from_snoc:
  "best_from hit acc (bs @ [b]) =
     (if better hit (best_from hit acc bs) b then Some b else best_from hit acc bs)"
  by (induction hit acc bs rule: best_from.induct) auto

lemma best_pick_spec:
  "case best_pick hit bs of
     None \<Rightarrow> \<forall>b\<in>set bs. \<not> eligible hit b
   | Some b \<Rightarrow> first_best hit bs b"
proof (induction bs rule: rev_induct)
  case (snoc b bs)
  show ?case
  proof (cases "best_pick hit bs")
    case None
    with snoc have none: "\<forall>x\<in>set bs. \<not> eligible hit x" by simp
    show ?thesis
    proof (cases "eligible hit b")
      case True
      then have "first_best hit (bs @ [b]) b"
        using none unfolding first_best_def by (intro exI [of _ bs] exI [of _ "[]"]) auto
      with True None show ?thesis by (simp add: best_pick_def best_from_snoc better_def)
    next
      case False
      with none None show ?thesis by (auto simp: best_pick_def best_from_snoc better_def)
    qed
  next
    case (Some a)
    with snoc obtain xs ys where bs: "bs = xs @ a # ys" and a: "eligible hit a"
      and xs: "\<forall>x\<in>set xs. eligible hit x \<longrightarrow> score hit x < score hit a"
      and ys: "\<forall>y\<in>set ys. eligible hit y \<longrightarrow> score hit y \<le> score hit a"
      by (auto simp: first_best_def)
    show ?thesis
    proof (cases "better hit (Some a) b")
      case True
      then have "first_best hit (bs @ [b]) b"
        using xs ys unfolding first_best_def bs
        by (intro exI [of _ "xs @ a # ys"] exI [of _ "[]"]) (fastforce simp: better_def)
      with True Some show ?thesis by (simp add: best_pick_def best_from_snoc)
    next
      case False
      then have "first_best hit (bs @ [b]) a"
        using xs ys a unfolding first_best_def bs
        by (intro exI [of _ xs] exI [of _ "ys @ [b]"]) (auto simp: better_def not_less)
      with False Some show ?thesis by (simp add: best_pick_def best_from_snoc)
    qed
  qed
qed (simp add: best_pick_def)

lemma best_pick_SomeD: "best_pick hit bs = Some b \<Longrightarrow> first_best hit bs b"
  using best_pick_spec [where hit = hit and bs = bs] by simp

lemma best_pick_NoneD: "best_pick hit bs = None \<Longrightarrow> b \<in> set bs \<Longrightarrow> \<not> eligible hit b"
  using best_pick_spec [where hit = hit and bs = bs] by simp

interpretation strict: binding_selector strict_pick
  by unfold_locales
    (auto simp: strict_pick_def find_None_iff dest!: find_SomeD intro: full_match_eligible)

interpretation best: binding_selector best_pick
proof (unfold_locales, goal_cases)
  case (1 hit bs b)
  then show ?case by (auto dest!: best_pick_SomeD simp: first_best_def)
next
  case (2 b bs hit)
  then have "eligible hit b" by (simp add: full_match_eligible)
  with 2 show ?case by (meson best_pick_NoneD)
qed

section \<open>The loop over the bindings\<close>

lemma binding_loop_strict:
  assumes "rbac_Strategy (cfg_Rbac c) = StrategyStrict" and "same_programs eng ctx c0 cache"
  shows "\<exists>cache'. binding_loop eng jl c ctx bs best fb cache =
     (case strict_pick (criterion_holds eng ctx c0) bs of
        Some b \<Rightarrow> Returned (grant jl c b) cache'
      | None \<Rightarrow> Finished best (if fb = None then find is_fallback bs else fb) cache')"
  using assms(2)
proof (induction bs arbitrary: fb cache)
  case (Cons b bs)
  show ?case
  proof (cases "rb_Match b = []")
    case True
    then have b: "\<not> full_match (criterion_holds eng ctx c0) b" "is_fallback b"
      by (simp_all add: full_match_def is_fallback_def)
    show ?thesis
      using Cons.IH [OF Cons.prems, of "if fb = None then Some b else fb"] True
      by (cases fb; cases "find (full_match (criterion_holds eng ctx c0)) bs")
        (simp_all add: strict_pick_def b)
  next
    case False
    obtain k on' c' where m: "match_loop eng StrategyStrict (rb_Match b) ctx 0 [] True cache =
        (k, on', \<forall>m\<in>set (rb_Match b). criterion_holds eng ctx c0 m, c')"
      and s: "same_programs eng ctx c0 c'"
      and k: "(\<forall>m\<in>set (rb_Match b). criterion_holds eng ctx c0 m) \<longrightarrow> k = int (length (rb_Match b))"
      using match_loop_strict [OF Cons.prems, of 0 "rb_Match b" "[]" True] by auto
    have nofb: "find is_fallback (b # bs) = find is_fallback bs"
      using False by (simp add: is_fallback_def)
    show ?thesis
    proof (cases "full_match (criterion_holds eng ctx c0) b")
      case True
      with k m assms(1) show ?thesis by (auto simp: strict_pick_def full_match_def)
    next
      case no: False
      then have "strict_pick (criterion_holds eng ctx c0) (b # bs) = strict_pick (criterion_holds eng ctx c0) bs"
        by (simp add: strict_pick_def)
      moreover have "binding_loop eng jl c ctx (b # bs) best fb cache = binding_loop eng jl c ctx bs best fb c'"
        using no False m assms(1) by (auto simp: full_match_def)
      ultimately show ?thesis using Cons.IH [OF s, of fb] nofb by (simp only:)
    qed
  qed
qed (simp add: strict_pick_def)

definition result_of :: "jwt_lists \<Rightarrow> config \<Rightarrow> go_error \<Rightarrow> role_binding option \<Rightarrow> account_choice result" where
  "result_of jl c none b = (case b of Some b' \<Rightarrow> grant jl c b' | None \<Rightarrow> Err none)"

lemma lookup_strict:
  assumes "rbac_Strategy (cfg_Rbac c) = StrategyStrict"
  shows "fst (lookupUserAccount eng jl c ctx cache) =
    result_of jl c NoStrictMatch
      (strict.chosen (criterion_holds eng ctx cache) (rbac_RoleBinding (cfg_Rbac c)))"
  using binding_loop_strict [OF assms, of eng ctx cache cache jl "rbac_RoleBinding (cfg_Rbac c)" zero_match None]
    assms
  by (auto simp: lookupUserAccount_def result_of_def strict.chosen_def split: option.splits)

text \<open>In the best-match loop, the record kept for the best binding so far.\<close>

definition records :: "jwt_lists \<Rightarrow> config \<Rightarrow> (match_criterion \<Rightarrow> bool) \<Rightarrow> match_result \<Rightarrow> role_binding option \<Rightarrow> bool" where
  "records jl c hit r acc \<longleftrightarrow>
     (case acc of
        None \<Rightarrow> mr_matches r = 0 \<and> mr_numMatchCriteria r = 0
      | Some b \<Rightarrow> eligible hit b
          \<and> mr_matches r = int (hits hit (rb_Match b)) \<and> mr_numMatchCriteria r = int (length (rb_Match b))
          \<and> grant jl c b = Ok (mr_account r, mr_permissions r, mr_limits r, mr_maxExpiry r))"

lemma eligible_hits: "eligible hit b \<longleftrightarrow> 0 < hits hit (rb_Match b)"
  by (simp add: eligible_def hits_pos_iff)

lemma better_iff:
  assumes "records jl c hit r acc"
  shows "better hit acc b \<longleftrightarrow>
    hits hit (rb_Match b) > 0
    \<and> (int (hits hit (rb_Match b)) > mr_matches r
       \<or> (int (hits hit (rb_Match b)) = mr_matches r \<and> int (length (rb_Match b)) > mr_numMatchCriteria r))"
  using assms
  by (cases acc) (auto simp: records_def better_def eligible_hits score_def less_match_score_def)

text \<open>The bindings whose roles the loop collates: each one that beats all before it.\<close>

fun record_setters ::
  "(match_criterion \<Rightarrow> bool) \<Rightarrow> role_binding option \<Rightarrow> role_binding list \<Rightarrow> role_binding list" where
  "record_setters hit acc [] = []"
| "record_setters hit acc (b # bs) =
     (if better hit acc b then b # record_setters hit (Some b) bs else record_setters hit acc bs)"

definition grant_error :: "jwt_lists \<Rightarrow> config \<Rightarrow> role_binding \<Rightarrow> go_error option" where
  "grant_error jl c b = (case grant jl c b of Inl e \<Rightarrow> Some e | Inr _ \<Rightarrow> None)"

definition first_error :: "jwt_lists \<Rightarrow> config \<Rightarrow> role_binding list \<Rightarrow> go_error option" where
  "first_error jl c bs = (case find (\<lambda>b. grant_error jl c b \<noteq> None) bs of
     None \<Rightarrow> None | Some b \<Rightarrow> grant_error jl c b)"

lemma first_error_Cons:
  "first_error jl c (b # bs) =
     (case grant_error jl c b of Some e \<Rightarrow> Some e | None \<Rightarrow> first_error jl c bs)"
  by (auto simp: first_error_def split: option.split)

text \<open>One binding with criteria: passed over, or recorded if its roles can be collated.\<close>

lemma binding_step_best:
  assumes "rbac_Strategy (cfg_Rbac c) \<noteq> StrategyStrict" and "same_programs eng ctx c0 cache"
    and "records jl c (criterion_holds eng ctx c0) best acc" and "rb_Match b \<noteq> []"
  obtains (passed) c' where "\<not> better (criterion_holds eng ctx c0) acc b" "same_programs eng ctx c0 c'"
      "binding_loop eng jl c ctx (b # bs) best fb cache = binding_loop eng jl c ctx bs best fb c'"
  | (error) c' e where "better (criterion_holds eng ctx c0) acc b" "grant_error jl c b = Some e"
      "binding_loop eng jl c ctx (b # bs) best fb cache = Returned (Err e) c'"
  | (recorded) c' best' where "better (criterion_holds eng ctx c0) acc b" "grant_error jl c b = None"
      "same_programs eng ctx c0 c'" "records jl c (criterion_holds eng ctx c0) best' (Some b)"
      "binding_loop eng jl c ctx (b # bs) best fb cache = binding_loop eng jl c ctx bs best' fb c'"
proof -
  let ?hit = "criterion_holds eng ctx c0"
  obtain on' c' where m: "match_loop eng (rbac_Strategy (cfg_Rbac c)) (rb_Match b) ctx 0 [] True cache =
      (int (hits ?hit (rb_Match b)), on', \<forall>m\<in>set (rb_Match b). ?hit m, c')"
    and s: "same_programs eng ctx c0 c'"
    using match_loop_best [OF assms(1,2), of "rb_Match b" 0 "[]" True] by auto
  note better = better_iff [OF assms(3), of b]
  show thesis
  proof (cases "better ?hit acc b")
    case False
    with better assms(1,4) show ?thesis by (intro passed [OF False s]) (auto simp: m)
  next
    case True
    show ?thesis
    proof (cases "collateRoles jl c (rb_Roles b)")
      case (Inl e)
      with True better assms(1,4) show ?thesis
        by (intro error [OF True, of e c']) (auto simp: m grant_error_def grant_def)
    next
      case (Inr pl)
      obtain p l where pl: "pl = (p, l)" by (cases pl)
      let ?new = "\<lparr>mr_matches = int (hits ?hit (rb_Match b)), mr_numMatchCriteria = int (length (rb_Match b)),
        mr_account = rb_Account b, mr_permissions = p, mr_limits = l,
        mr_maxExpiry = rb_TokenMaxExpiry b, mr_matchedOn = on'\<rparr>"
      have "records jl c ?hit ?new (Some b)"
        using True Inr pl by (simp add: records_def better_def grant_def)
      with True better assms(1,4) Inr pl show ?thesis
        by (intro recorded [OF True _ s, of ?new]) (auto simp: m grant_error_def grant_def)
    qed
  qed
qed

lemma binding_loop_best:
  assumes "rbac_Strategy (cfg_Rbac c) \<noteq> StrategyStrict" and "same_programs eng ctx c0 cache"
    and "records jl c (criterion_holds eng ctx c0) best acc"
  shows "\<exists>cache' best'. binding_loop eng jl c ctx bs best fb cache =
     (case first_error jl c (record_setters (criterion_holds eng ctx c0) acc bs) of
        Some e \<Rightarrow> Returned (Err e) cache'
      | None \<Rightarrow> Finished best' (if fb = None then find is_fallback bs else fb) cache')
    \<and> (first_error jl c (record_setters (criterion_holds eng ctx c0) acc bs) = None \<longrightarrow>
        records jl c (criterion_holds eng ctx c0) best' (best_from (criterion_holds eng ctx c0) acc bs))"
  using assms(2,3)
proof (induction bs arbitrary: fb cache best acc)
  case Nil
  then show ?case by (auto simp: first_error_def)
next
  case (Cons b bs)
  let ?hit = "criterion_holds eng ctx c0"
  show ?case
  proof (cases "rb_Match b = []")
    case True
    then have b: "\<not> better ?hit acc b" "is_fallback b"
      by (simp_all add: better_def eligible_def is_fallback_def)
    show ?thesis
      using Cons.IH [OF Cons.prems, of "if fb = None then Some b else fb"] True
      by (cases fb; cases "first_error jl c (record_setters ?hit acc bs)") (simp_all add: b)
  next
    case False
    then have fb: "find is_fallback (b # bs) = find is_fallback bs" by (simp add: is_fallback_def)
    from assms(1) Cons.prems False show ?thesis
    proof (cases rule: binding_step_best [where bs = bs and fb = fb])
      case (passed c')
      have "record_setters ?hit acc (b # bs) = record_setters ?hit acc bs"
        "best_from ?hit acc (b # bs) = best_from ?hit acc bs"
        using passed(1) by simp_all
      with Cons.IH [OF passed(2) Cons.prems(2), of fb] fb passed(3) show ?thesis by (simp only:)
    next
      case (error c' e)
      then have "first_error jl c (record_setters ?hit acc (b # bs)) = Some e" by (simp add: first_error_Cons)
      with error(3) show ?thesis by (simp del: binding_loop.simps)
    next
      case (recorded c' best')
      have "first_error jl c (record_setters ?hit acc (b # bs)) = first_error jl c (record_setters ?hit (Some b) bs)"
        "best_from ?hit acc (b # bs) = best_from ?hit (Some b) bs"
        using recorded(1,2) by (simp_all add: first_error_Cons)
      with Cons.IH [OF recorded(3,4), of fb] fb recorded(5) show ?thesis by (simp only:)
    qed
  qed
qed

lemma lookup_best:
  assumes "rbac_Strategy (cfg_Rbac c) \<noteq> StrategyStrict"
  shows "fst (lookupUserAccount eng jl c ctx cache) =
    (case first_error jl c (record_setters (criterion_holds eng ctx cache) None (rbac_RoleBinding (cfg_Rbac c))) of
       Some e \<Rightarrow> Err e
     | None \<Rightarrow> result_of jl c NoBestMatch
         (best.chosen (criterion_holds eng ctx cache) (rbac_RoleBinding (cfg_Rbac c))))"
proof -
  let ?hit = "criterion_holds eng ctx cache" and ?bs = "rbac_RoleBinding (cfg_Rbac c)"
  have "records jl c ?hit zero_match None" by (simp add: records_def zero_match_def)
  from binding_loop_best [OF assms same_programs_refl this, where bs = ?bs and fb = None] assms
  show ?thesis
    by (cases "best_from ?hit None ?bs")
      (auto simp: lookupUserAccount_def result_of_def best.chosen_def best_pick_def records_def eligible_hits
        split: option.splits)
qed

end
