(* ===== verification/Rbac_Properties.thy ===== *)
theory Rbac_Properties
  imports Rbac_Selection Samples
begin

text \<open>
  The properties of \<open>lookupUserAccount\<close> and \<open>collateRoles\<close>, read off the reference
  selections of \<open>Rbac_Selection\<close>: which binding each strategy uses, what a granted answer
  implies, that the expression cache does not change the answer, and what the collated
  permissions and limits are.
\<close>

section \<open>Which binding is used\<close>

text \<open>
  Property C6. The strict strategy grants the first binding in configuration order all of whose
  criteria hold; without one, the first binding that has no criteria; without that, it refuses.
\<close>

theorem strict_uses_first_full_match:
  assumes "rbac_Strategy (cfg_Rbac c) = StrategyStrict"
  shows "fst (lookupUserAccount eng jl c ctx cache) =
    (case find (full_match (criterion_holds eng ctx cache)) (rbac_RoleBinding (cfg_Rbac c)) of
       Some b \<Rightarrow> grant jl c b
     | None \<Rightarrow>
         (case find is_fallback (rbac_RoleBinding (cfg_Rbac c)) of
            Some b \<Rightarrow> grant jl c b
          | None \<Rightarrow> Err NoStrictMatch))"
  using lookup_strict [OF assms, of eng jl ctx cache]
  by (cases "find (full_match (criterion_holds eng ctx cache)) (rbac_RoleBinding (cfg_Rbac c))")
    (simp_all add: result_of_def strict.chosen_def strict_pick_def)

theorem strict_uses_first_full_match_witness:
  "fst (lookupUserAccount sample_engine sample_lists (sample_config StrategyStrict) sample_claims None)
   = grant sample_lists (sample_config StrategyStrict) sales_binding"
proof -
  have "rbac_Strategy (cfg_Rbac (sample_config StrategyStrict)) = StrategyStrict"
    by (simp add: sample_config_def)
  note strict_uses_first_full_match [OF this, of sample_engine sample_lists sample_claims None]
  moreover have "find (full_match (criterion_holds sample_engine sample_claims None))
      (rbac_RoleBinding (cfg_Rbac (sample_config StrategyStrict))) = Some sales_binding"
    by code_simp
  ultimately show ?thesis by simp
qed

text \<open>All roles that a binding names are defined.\<close>

definition roles_known :: "config \<Rightarrow> role_binding \<Rightarrow> bool" where
  "roles_known c b \<longleftrightarrow> (\<forall>r\<in>set (rb_Roles b). \<exists>ro\<in>set (rbac_Roles (cfg_Rbac c)). ro_Name ro = r)"

lemma collate_loop_known:
  "\<forall>r\<in>set rs. \<exists>ro\<in>set (rbac_Roles (cfg_Rbac c)). ro_Name ro = r \<Longrightarrow>
   \<exists>pl. collate_loop jl c rs acc = Ok pl"
proof (induction rs arbitrary: acc)
  case (Cons r rs)
  obtain p l where acc: "acc = (p, l)" by (cases acc)
  from Cons.prems have "find (\<lambda>ro. ro_Name ro = r) (rbac_Roles (cfg_Rbac c)) \<noteq> None"
    by (auto simp: find_None_iff)
  then obtain ro where "lookupRole c r = Ok ro" by (auto simp: lookupRole_def)
  with Cons show ?case by (simp add: acc)
qed simp

lemma grant_known: "roles_known c b \<Longrightarrow> \<exists>a. grant jl c b = Ok a"
  using collate_loop_known [of "rb_Roles b" c jl "(no_permissions, no_limits)"]
  by (auto simp: roles_known_def grant_def collateRoles_def)

lemma record_setters_subset: "set (record_setters hit acc bs) \<subseteq> set bs"
  by (induction hit acc bs rule: record_setters.induct) auto

lemma first_error_known:
  assumes "\<forall>b\<in>set bs. roles_known c b"
  shows "first_error jl c (record_setters hit acc bs) = None"
proof -
  have "grant_error jl c b = None" if "b \<in> set bs" for b
    using grant_known [of c b jl] assms that by (auto simp: grant_error_def)
  then have "find (\<lambda>b. grant_error jl c b \<noteq> None) (record_setters hit acc bs) = None"
    using record_setters_subset [of hit acc bs] by (auto simp: find_None_iff)
  then show ?thesis by (simp add: first_error_def)
qed

text \<open>
  Property C7. When the roles of the bindings are defined, the best-match strategy grants the
  first binding with the highest score: most criteria met, then most criteria asked for. With no
  criterion met anywhere it grants the first binding without criteria, and without that it
  refuses.
\<close>

theorem best_match_uses_first_best:
  assumes "rbac_Strategy (cfg_Rbac c) \<noteq> StrategyStrict"
    and "\<forall>b\<in>set (rbac_RoleBinding (cfg_Rbac c)). roles_known c b"
  shows "(\<exists>b. first_best (criterion_holds eng ctx cache) (rbac_RoleBinding (cfg_Rbac c)) b
            \<and> fst (lookupUserAccount eng jl c ctx cache) = grant jl c b)
    \<or> ((\<forall>b\<in>set (rbac_RoleBinding (cfg_Rbac c)). \<not> eligible (criterion_holds eng ctx cache) b)
        \<and> fst (lookupUserAccount eng jl c ctx cache) =
            (case find is_fallback (rbac_RoleBinding (cfg_Rbac c)) of
               Some b \<Rightarrow> grant jl c b
             | None \<Rightarrow> Err NoBestMatch))"
proof -
  let ?hit = "criterion_holds eng ctx cache" and ?bs = "rbac_RoleBinding (cfg_Rbac c)"
  have l: "fst (lookupUserAccount eng jl c ctx cache) = result_of jl c NoBestMatch (best.chosen ?hit ?bs)"
    using lookup_best [OF assms(1)] first_error_known [OF assms(2)] by simp
  show ?thesis
  proof (cases "best_pick ?hit ?bs")
    case None
    with l best_pick_NoneD [OF None] show ?thesis
      by (auto simp: result_of_def best.chosen_def)
  next
    case (Some b)
    with l best_pick_SomeD [OF Some] show ?thesis
      by (auto simp: result_of_def best.chosen_def)
  qed
qed

theorem best_match_uses_first_best_witness:
  "fst (lookupUserAccount sample_engine sample_lists (sample_config StrategyBestMatch) sample_claims None)
   = grant sample_lists (sample_config StrategyBestMatch) sales_binding"
proof -
  let ?c = "sample_config StrategyBestMatch" and ?hit = "criterion_holds sample_engine sample_claims None"
  have "rbac_Strategy (cfg_Rbac ?c) \<noteq> StrategyStrict" "\<forall>b\<in>set (rbac_RoleBinding (cfg_Rbac ?c)). roles_known ?c b"
    by code_simp+
  note best_match_uses_first_best [OF this, of sample_engine sample_claims None sample_lists]
  moreover have "\<not> (\<forall>b\<in>set (rbac_RoleBinding (cfg_Rbac ?c)). \<not> eligible ?hit b)"
    by code_simp
  moreover have "b = sales_binding" if "first_best ?hit (rbac_RoleBinding (cfg_Rbac ?c)) b" for b
  proof -
    have s: "score ?hit guest_binding = Score 0 0" "score ?hit sales_binding = Score 2 2"
      "score ?hit admin_binding = Score 1 2" "\<not> eligible ?hit guest_binding"
      "eligible ?hit sales_binding"
      by code_simp+
    have "rbac_RoleBinding (cfg_Rbac ?c) = [guest_binding, sales_binding, admin_binding]"
      by (simp add: sample_config_def)
    with that show ?thesis
      by (auto simp: first_best_def Cons_eq_append_conv s less_match_score_def less_eq_match_score_def)
  qed
  ultimately show ?thesis by blast
qed

section \<open>What an answer implies\<close>

lemma result_of_Ok_iff:
  "result_of jl c e ob = Ok r \<longleftrightarrow> (\<exists>b. ob = Some b \<and> grant jl c b = Ok r)"
  by (auto simp: result_of_def split: option.splits)

lemma lookup_Ok_chosen:
  assumes "fst (lookupUserAccount eng jl c ctx cache) = Ok r"
  shows "\<exists>b. grant jl c b = Ok r
    \<and> (if rbac_Strategy (cfg_Rbac c) = StrategyStrict
       then strict.chosen (criterion_holds eng ctx cache) (rbac_RoleBinding (cfg_Rbac c)) = Some b
       else best.chosen (criterion_holds eng ctx cache) (rbac_RoleBinding (cfg_Rbac c)) = Some b)"
proof (cases "rbac_Strategy (cfg_Rbac c) = StrategyStrict")
  case True
  with assms lookup_strict [OF True, of eng jl ctx cache] show ?thesis
    by (auto simp: result_of_Ok_iff)
next
  case False
  with assms lookup_best [OF False, of eng jl ctx cache] show ?thesis
    by (auto simp: result_of_Ok_iff split: option.splits)
qed

lemma strict_chosen_cases:
  "strict.chosen hit bs = Some b \<Longrightarrow> full_match hit b \<or> is_fallback b"
  by (auto simp: strict.chosen_def strict_pick_def dest: find_SomeD split: option.splits)

text \<open>
  Property C16. Every granted answer is that of one configured binding: its account, its lifetime
  and exactly its roles collated. A criterion of that binding holds for the caller's claims (under
  the strict strategy all of them do), or the binding is a fallback without criteria and then no
  binding of the configuration matches fully.
\<close>

theorem granted_account_is_bound:
  assumes "fst (lookupUserAccount eng jl c ctx cache) = Ok (account, perms, lims, maxExpiry)"
  shows "\<exists>b\<in>set (rbac_RoleBinding (cfg_Rbac c)).
    rb_Account b = account \<and> rb_TokenMaxExpiry b = maxExpiry
    \<and> collateRoles jl c (rb_Roles b) = Ok (perms, lims)
    \<and> (if rb_Match b = []
       then \<forall>b'\<in>set (rbac_RoleBinding (cfg_Rbac c)). \<not> full_match (criterion_holds eng ctx cache) b'
       else if rbac_Strategy (cfg_Rbac c) = StrategyStrict
       then \<forall>m\<in>set (rb_Match b). criterion_holds eng ctx cache m
       else \<exists>m\<in>set (rb_Match b). criterion_holds eng ctx cache m)"
proof -
  let ?hit = "criterion_holds eng ctx cache" and ?bs = "rbac_RoleBinding (cfg_Rbac c)"
  obtain b where g: "grant jl c b = Ok (account, perms, lims, maxExpiry)"
    and ch: "if rbac_Strategy (cfg_Rbac c) = StrategyStrict
       then strict.chosen ?hit ?bs = Some b else best.chosen ?hit ?bs = Some b"
    using lookup_Ok_chosen [OF assms] by auto
  from ch have b: "b \<in> set ?bs" "eligible ?hit b \<or> is_fallback b"
    and nofull: "is_fallback b \<Longrightarrow> \<forall>b'\<in>set ?bs. \<not> full_match ?hit b'"
    using strict.chosen_sound best.chosen_sound strict.fallback_last best.fallback_last
    by (auto split: if_splits)
  moreover from ch have "rbac_Strategy (cfg_Rbac c) = StrategyStrict \<Longrightarrow> full_match ?hit b \<or> is_fallback b"
    by (auto dest: strict_chosen_cases)
  ultimately show ?thesis
    using g by (intro bexI [of _ b])
      (auto simp: grant_def is_fallback_def eligible_def full_match_def split: sum.splits)
qed

theorem granted_account_is_bound_witness:
  "\<exists>b\<in>set (rbac_RoleBinding (cfg_Rbac (sample_config StrategyStrict))). rb_Account b = ''SALES''"
proof -
  have "\<exists>p l. fst (lookupUserAccount sample_engine sample_lists (sample_config StrategyStrict) sample_claims None)
      = Ok (''SALES'', p, l, 0)"
    by (intro exI) code_simp
  then show ?thesis using granted_account_is_bound by blast
qed

section \<open>The expression cache\<close>

text \<open>
  The cache holds only programs that compiling the expression for this context gives.
\<close>

definition cache_sound :: "'p expr_engine \<Rightarrow> go_map \<Rightarrow> 'p expr_cache \<Rightarrow> bool" where
  "cache_sound eng ctx cache \<longleftrightarrow>
     (case cache of None \<Rightarrow> True | Some m \<Rightarrow> \<forall>(e, p)\<in>set m. ex_compile eng e ctx = Ok p)"

lemma cache_sound_get: "cache_sound eng ctx (Some m) \<Longrightarrow> mget m e = Some p \<Longrightarrow> ex_compile eng e ctx = Ok p"
  by (auto simp: cache_sound_def mget_def dest!: map_of_SomeD)

lemma cache_sound_programs:
  assumes "cache_sound eng ctx cache"
  shows "same_programs eng ctx None cache"
proof (cases cache)
  case (Some m)
  with assms cache_sound_get [of eng ctx m] show ?thesis
    by (auto simp: same_programs_def program_for_def loadOrCompileExpr_def split: option.split sum.split)
qed simp

lemma set_update_subset: "set (AList.update k v m) \<subseteq> insert (k, v) (set m)"
  by (induction m) auto

lemma cache_sound_load:
  "cache_sound eng ctx cache \<Longrightarrow> cache_sound eng ctx (snd (loadOrCompileExpr eng e ctx cache))"
  using set_update_subset
  by (fastforce simp: cache_sound_def loadOrCompileExpr_def mput_def
      split: option.splits sum.splits Option.bind_splits)

lemma cache_sound_evaluate:
  "cache_sound eng ctx cache \<Longrightarrow> cache_sound eng ctx (snd (evaluateMatchCriterion eng m ctx cache))"
  using cache_sound_load [of eng ctx cache "mc_Expr m"]
  by (auto simp: evaluateMatchCriterion_def split: prod.splits sum.splits option.splits go_value.splits bool.splits)

lemma cache_sound_match_loop:
  "cache_sound eng ctx cache \<Longrightarrow> match_loop eng st ms ctx n on fl cache = (k, on', fl', cache') \<Longrightarrow>
   cache_sound eng ctx cache'"
proof (induction ms arbitrary: n on fl cache)
  case (Cons m ms)
  obtain h d c' where e: "evaluateMatchCriterion eng m ctx cache = ((h, d), c')" by (metis prod.exhaust)
  with cache_sound_evaluate [OF Cons.prems(1), of m] have s: "cache_sound eng ctx c'" by simp
  from Cons.prems(2) e s show ?case by (auto split: if_splits dest: Cons.IH [OF s])
qed simp

fun exit_cache :: "'p loop_exit \<Rightarrow> 'p expr_cache" where
  "exit_cache (Returned r c) = c"
| "exit_cache (Finished b f c) = c"

lemma cache_sound_binding_loop:
  "cache_sound eng ctx cache \<Longrightarrow> cache_sound eng ctx (exit_cache (binding_loop eng jl c ctx bs best fb cache))"
proof (induction bs arbitrary: best fb cache)
  case (Cons b bs)
  obtain k on' fl c' where m: "match_loop eng (rbac_Strategy (cfg_Rbac c)) (rb_Match b) ctx 0 [] True cache
      = (k, on', fl, c')" by (metis prod.exhaust)
  from cache_sound_match_loop [OF Cons.prems m] have s: "cache_sound eng ctx c'" .
  show ?case using Cons.IH [OF Cons.prems] Cons.IH [OF s] s
    by (auto simp: m Let_def split: sum.splits)
qed simp

lemma snd_lookup:
  "snd (lookupUserAccount eng jl c ctx cache) =
     exit_cache (binding_loop eng jl c ctx (rbac_RoleBinding (cfg_Rbac c)) zero_match None cache)"
  by (auto simp: lookupUserAccount_def split: loop_exit.splits option.splits)



section \<open>Collated roles\<close>

text \<open>
  \<open>Add\<close> of \<open>jwt.StringList\<close> and \<open>jwt.CIDRList\<close> adds what is not there yet; the order and the
  treatment of empty strings are the library's.
\<close>

definition adds_members :: "(string list \<Rightarrow> string list \<Rightarrow> string list) \<Rightarrow> bool" where
  "adds_members add \<longleftrightarrow> (\<forall>xs ys s. s \<noteq> [] \<longrightarrow> (s \<in> set (add xs ys) \<longleftrightarrow> s \<in> set xs \<or> s \<in> set ys))"

lemma adds_membersD:
  "adds_members add \<Longrightarrow> s \<noteq> [] \<Longrightarrow> s \<in> set (add xs ys) \<longleftrightarrow> s \<in> set xs \<or> s \<in> set ys"
  by (simp add: adds_members_def)

definition role_of :: "config \<Rightarrow> string \<Rightarrow> role option" where
  "role_of c r = find (\<lambda>ro. ro_Name ro = r) (rbac_Roles (cfg_Rbac c))"

lemma lookupRole_role_of:
  "lookupRole c r = (case role_of c r of Some ro \<Rightarrow> Ok ro | None \<Rightarrow> Err (UnknownRole r))"
  by (simp add: lookupRole_def role_of_def)

lemma collate_loop_Err_iff:
  "collate_loop jl c rs acc = Err e \<longleftrightarrow>
     (\<exists>r. find (\<lambda>r. role_of c r = None) rs = Some r \<and> e = UnknownRole r)"
proof (induction rs arbitrary: acc)
  case (Cons r rs)
  obtain p l where acc: "acc = (p, l)" by (cases acc)
  show ?case
    by (cases "role_of c r") (auto simp: acc lookupRole_role_of Cons)
qed simp

text \<open>The permission lists of a role, by selector.\<close>

definition subject_lists :: "(permissions \<Rightarrow> string list) list" where
  "subject_lists = [sp_Allow \<circ> pm_Pub, sp_Deny \<circ> pm_Pub, sp_Allow \<circ> pm_Sub, sp_Deny \<circ> pm_Sub]"

lemma collatePermissions_subject:
  "f \<in> set subject_lists \<Longrightarrow> f (collatePermissions jl p q) = jl_add jl (f p) (f q)"
  by (auto simp: subject_lists_def collatePermissions_def Let_def)

lemma collate_loop_subjects:
  assumes "adds_members (jl_add jl)" and "s \<noteq> []" and "f \<in> set subject_lists"
  shows "collate_loop jl c rs (p0, l0) = Ok (p, l) \<Longrightarrow>
    s \<in> set (f p) \<longleftrightarrow>
      s \<in> set (f p0) \<or> (\<exists>r\<in>set rs. \<exists>ro. role_of c r = Some ro \<and> s \<in> set (f (ro_Permissions ro)))"
proof (induction rs arbitrary: p0 l0)
  case (Cons r rs)
  then obtain ro where ro: "role_of c r = Some ro"
    by (cases "role_of c r") (auto simp: lookupRole_role_of)
  with Cons.prems have "collate_loop jl c rs
      (collatePermissions jl p0 (ro_Permissions ro), collateLimits jl l0 (ro_Limits ro)) = Ok (p, l)"
    by (simp add: lookupRole_role_of)
  from Cons.IH [OF this] ro show ?case
    by (auto simp: collatePermissions_subject [OF assms(3)] adds_membersD [OF assms(1,2)])
qed simp

lemma collate_loop_limits:
  "collate_loop jl c rs (p0, l0) = Ok (p, l) \<Longrightarrow> rs \<noteq> [] \<Longrightarrow>
   \<exists>ro. role_of c (last rs) = Some ro \<and> lm_Nats l = lm_Nats (ro_Limits ro)
     \<and> ul_Times (lm_User l) = ul_Times (lm_User (ro_Limits ro))
     \<and> ul_Locale (lm_User l) = ul_Locale (lm_User (ro_Limits ro))"
proof (induction rs arbitrary: p0 l0)
  case (Cons r rs)
  then obtain ro where ro: "role_of c r = Some ro"
    by (cases "role_of c r") (auto simp: lookupRole_role_of)
  with Cons.prems have l: "collate_loop jl c rs
      (collatePermissions jl p0 (ro_Permissions ro), collateLimits jl l0 (ro_Limits ro)) = Ok (p, l)"
    by (simp add: lookupRole_role_of)
  show ?case
  proof (cases rs)
    case Nil
    with l ro show ?thesis by (auto simp: collateLimits_def)
  next
    case (Cons r' rs')
    with Cons.IH [OF l] show ?thesis by simp
  qed
qed simp

lemma no_permissions_subject: "f \<in> set subject_lists \<Longrightarrow> f no_permissions = []"
  by (auto simp: subject_lists_def no_permissions_def)

text \<open>
  The collated permissions are the union of those of the roles, list by list (publish
  and subscribe, allow and deny): a subject is allowed, or denied, exactly when one of the roles
  allows, or denies, it. So no role can lift another role's denial.
\<close>

lemma collate_roles_union:
  assumes "adds_members (jl_add jl)" and "collateRoles jl c roles = Ok (p, l)"
    and "f \<in> set subject_lists" and "s \<noteq> []"
  shows "s \<in> set (f p) \<longleftrightarrow>
    (\<exists>r\<in>set roles. \<exists>ro. role_of c r = Some ro \<and> s \<in> set (f (ro_Permissions ro)))"
  using collate_loop_subjects [OF assms(1,4,3), of c roles] assms(2)
  by (simp add: collateRoles_def no_permissions_subject [OF assms(3)])

lemma adds_members_sample: "adds_members sample_add"
  by (auto simp: adds_members_def sample_add_def)

lemma collate_roles_union_witness:
  "\<exists>p l. collateRoles sample_lists (sample_config StrategyStrict) [''reader'', ''writer''] = Ok (p, l)
    \<and> ''a.secret'' \<in> set (sp_Deny (pm_Pub p)) \<and> ''c'' \<in> set (sp_Allow (pm_Sub p))"
proof -
  let ?c = "sample_config StrategyStrict" and ?rs = "[''reader'', ''writer'']"
  obtain p l where ok: "collateRoles sample_lists ?c ?rs = Ok (p, l)"
    by (cases "collateRoles sample_lists ?c ?rs")
      (auto simp: collateRoles_def lookupRole_def sample_config_def sample_role_def)
  have add: "adds_members (jl_add sample_lists)"
    by (simp add: sample_lists_def adds_members_sample)
  note union = collate_roles_union [OF add ok]
  have "sp_Deny \<circ> pm_Pub \<in> set subject_lists" "sp_Allow \<circ> pm_Sub \<in> set subject_lists"
    by (simp_all add: subject_lists_def)
  then have "''a.secret'' \<in> set ((sp_Deny \<circ> pm_Pub) p)" "''c'' \<in> set ((sp_Allow \<circ> pm_Sub) p)"
    by (subst union; simp add: role_of_def sample_config_def sample_role_def subjects_def)+
  with ok show ?thesis by auto
qed

text \<open>
  Property C32. Collation fails exactly when a named role is not defined, with the first such name.
  The limits do not add up as the permissions do: those on subscriptions, data and payload, the
  time windows and the locale are the ones of the last role in the binding's list.
\<close>

theorem collate_roles_errors_and_limits:
  "(collateRoles jl c roles = Err e \<longleftrightarrow>
      (\<exists>r. find (\<lambda>r. role_of c r = None) roles = Some r \<and> e = UnknownRole r))
   \<and> (case collateRoles jl c (roles @ [r]) of
        Inl _ \<Rightarrow> True
      | Inr (p, l) \<Rightarrow>
          (case role_of c r of
             None \<Rightarrow> False
           | Some ro \<Rightarrow> lm_Nats l = lm_Nats (ro_Limits ro)
               \<and> ul_Times (lm_User l) = ul_Times (lm_User (ro_Limits ro))
               \<and> ul_Locale (lm_User l) = ul_Locale (lm_User (ro_Limits ro))))"
proof -
  have "collate_loop jl c (roles @ [r]) (no_permissions, no_limits) = Ok (p, l) \<Longrightarrow>
      \<exists>ro. role_of c r = Some ro \<and> lm_Nats l = lm_Nats (ro_Limits ro)
        \<and> ul_Times (lm_User l) = ul_Times (lm_User (ro_Limits ro))
        \<and> ul_Locale (lm_User l) = ul_Locale (lm_User (ro_Limits ro))" for p l
    using collate_loop_limits [of jl c "roles @ [r]" no_permissions no_limits p l] by simp
  then show ?thesis
    by (auto simp: collateRoles_def collate_loop_Err_iff split: sum.splits option.splits)
qed

end
