(* ===== verification/Token_Request.thy ===== *)
theory Token_Request
  imports Broker_Config Go_Json_Roundtrip Go_Encoding
begin

text \<open>
  The token request that a client sends in place of a password, \<open>TokenRequest\<close> of
  \<open>internal/broker/config.go\<close>, and its reading with \<open>json.Unmarshal\<close> into the struct: members are
  matched with the fields' names, exactly or but for case; a value that does not fit leaves its field
  as it was, and the first such error is reported when all members have been read.
\<close>

section \<open>Unmarshalling into a struct\<close>

text \<open>
  Names are compared without case. Of the characters outside ASCII only the Kelvin sign and the long s
  have a letter of ASCII as a case variant, so only they matter for names in ASCII.
\<close>

definition upper_byte :: "char \<Rightarrow> char" where
  "upper_byte c = (let n = of_char c :: nat in if 97 \<le> n \<and> n \<le> 122 then char_of (n - 32) else c)"

definition kelvin_sign :: string where
  "kelvin_sign = [CHR 0xE2, CHR 0x84, CHR 0xAA]"

definition long_s :: string where
  "long_s = [CHR 0xC5, CHR 0xBF]"

function fold_name :: "string \<Rightarrow> string" where
  "fold_name s =
     (case s of
        [] \<Rightarrow> []
      | c # r \<Rightarrow>
          if has_prefix s kelvin_sign then CHR ''K'' # fold_name (drop 3 s)
          else if has_prefix s long_s then CHR ''S'' # fold_name (drop 2 s)
          else upper_byte c # fold_name r)"
  by pat_completeness auto
termination
  by (relation "measure length") auto

declare fold_name.simps [simp del]

type_synonym 's field_decoder = "json \<Rightarrow> 's \<Rightarrow> 's \<times> go_error option"

definition find_field :: "(string \<times> 'd) list \<Rightarrow> string \<Rightarrow> 'd option" where
  "find_field fs key =
     (case map_of fs key of
        Some d \<Rightarrow> Some d
      | None \<Rightarrow> map_of (map (\<lambda>(n, d). (fold_name n, d)) fs) (fold_name key))"

definition decode_member ::
  "(string \<times> 's field_decoder) list \<Rightarrow> string \<times> json \<Rightarrow> 's \<times> go_error option \<Rightarrow> 's \<times> go_error option" where
  "decode_member fs m st =
     (case find_field fs (json_unquote (fst m)) of
        None \<Rightarrow> st
      | Some d \<Rightarrow>
          (case d (snd m) (fst st) of
             (v, e) \<Rightarrow> (v, case snd st of None \<Rightarrow> e | Some e0 \<Rightarrow> Some e0)))"

definition decode_struct :: "(string \<times> 's field_decoder) list \<Rightarrow> json \<Rightarrow> 's \<Rightarrow> 's \<times> go_error option" where
  "decode_struct fs j v =
     (case j of
        JNull \<Rightarrow> (v, None)
      | JObj kvs \<Rightarrow> fold (decode_member fs) kvs (v, None)
      | _ \<Rightarrow> (v, Some JsonTypeError))"

definition unmarshal_struct :: "(string \<times> 's field_decoder) list \<Rightarrow> string \<Rightarrow> 's \<Rightarrow> 's \<times> go_error option" where
  "unmarshal_struct fs text v =
     (case parse_json text of
        None \<Rightarrow> (v, Some JsonSyntaxError)
      | Some j \<Rightarrow> decode_struct fs j v)"

text \<open>Fields of the types \<open>string\<close> and \<open>int\<close>.\<close>

definition decode_string :: "json \<Rightarrow> string \<Rightarrow> string \<times> go_error option" where
  "decode_string j old =
     (case j of
        JStr raw \<Rightarrow> (json_unquote raw, None)
      | JNull \<Rightarrow> (old, None)
      | _ \<Rightarrow> (old, Some JsonTypeError))"

definition parse_i64 :: "string \<Rightarrow> int option" where
  "parse_i64 num =
     (let ds = trim_prefix num ''-'';
          i = (if has_prefix num ''-'' then - int (digits_val ds) else int (digits_val ds))
      in if ds \<noteq> [] \<and> list_all is_digit ds \<and> in_i64 i then Some i else None)"

definition decode_int :: "json \<Rightarrow> int \<Rightarrow> int \<times> go_error option" where
  "decode_int j old =
     (case j of
        JNum num \<Rightarrow> (case parse_i64 num of Some i \<Rightarrow> (i, None) | None \<Rightarrow> (old, Some JsonTypeError))
      | JNull \<Rightarrow> (old, None)
      | _ \<Rightarrow> (old, Some JsonTypeError))"

definition field_of ::
  "(json \<Rightarrow> 'a \<Rightarrow> 'a \<times> go_error option) \<Rightarrow> ('s \<Rightarrow> 'a) \<Rightarrow> ('a \<Rightarrow> 's \<Rightarrow> 's) \<Rightarrow> 's field_decoder" where
  "field_of dec get put j s = (case dec j (get s) of (x, e) \<Rightarrow> (put x s, e))"

section \<open>TokenRequest\<close>

definition token_fields :: "(string \<times> token_request field_decoder) list" where
  "token_fields =
    [(''access_token'', field_of decode_string tr_AccessToken (\<lambda>x s. s\<lparr>tr_AccessToken := x\<rparr>)),
     (''expires_in'', field_of decode_int tr_ExpiresIn (\<lambda>x s. s\<lparr>tr_ExpiresIn := x\<rparr>)),
     (''id_token'', field_of decode_string tr_IDToken (\<lambda>x s. s\<lparr>tr_IDToken := x\<rparr>)),
     (''refresh_token'', field_of decode_string tr_RefreshToken (\<lambda>x s. s\<lparr>tr_RefreshToken := x\<rparr>)),
     (''token_type'', field_of decode_string tr_TokenType (\<lambda>x s. s\<lparr>tr_TokenType := x\<rparr>)),
     (''traceparent'', field_of decode_string tr_Traceparent (\<lambda>x s. s\<lparr>tr_Traceparent := x\<rparr>))]"

definition unmarshal_token_request :: "string \<Rightarrow> token_request \<times> go_error option" where
  "unmarshal_token_request text = unmarshal_struct token_fields text zero_token_request"

text \<open>What \<open>json.Marshal\<close> writes a token request as, with the tags of its fields.\<close>

definition token_request_json :: "token_request \<Rightarrow> json" where
  "token_request_json t =
     JObj [(''access_token'', JStr (json_quote (tr_AccessToken t))), (''expires_in'', JNum (show_int (tr_ExpiresIn t))),
       (''id_token'', JStr (json_quote (tr_IDToken t))), (''refresh_token'', JStr (json_quote (tr_RefreshToken t))),
       (''token_type'', JStr (json_quote (tr_TokenType t))), (''traceparent'', JStr (json_quote (tr_Traceparent t)))]"

definition token_request_text :: "token_request \<Rightarrow> bool" where
  "token_request_text t \<longleftrightarrow> in_i64 (tr_ExpiresIn t)
     \<and> list_all valid_utf8 [tr_AccessToken t, tr_IDToken t, tr_RefreshToken t, tr_TokenType t, tr_Traceparent t]"

section \<open>Lemmas\<close>

lemma parse_i64_show: "in_i64 i \<Longrightarrow> parse_i64 (show_int i) = Some i"
proof (cases "i < 0")
  case True
  moreover assume "in_i64 i"
  moreover have "list_all is_digit (show_nat n)" for n using show_nat_digits [of n] by (simp add: list_all_iff)
  moreover have "trim_prefix (''-'' @ show_nat (nat (- i))) ''-'' = show_nat (nat (- i))" by (rule trim_prefix_append)
  ultimately show ?thesis
    using show_nat_nonempty by (simp add: parse_i64_def show_int_def digits_val_show has_prefix_def)
next
  case False
  moreover assume "in_i64 i"
  moreover have "list_all is_digit (show_nat n)" for n using show_nat_digits [of n] by (simp add: list_all_iff)
  moreover have "trim_prefix (show_nat (nat i)) ''-'' = show_nat (nat i)" using show_nat_head by (simp add: trim_prefix_def)
  ultimately show ?thesis
    using show_nat_nonempty show_nat_head by (simp add: parse_i64_def show_int_def digits_val_show)
qed

lemma field_names: "list_all (\<lambda>(k, d). json_unquote k = k \<and> raw_ok k) token_fields"
  by (simp add: token_fields_def raw_ok_def) code_simp

lemma token_json_ok: "json_ok (token_request_json t)" "json_depth (token_request_json t) \<le> max_nesting"
  using field_names
  by (simp_all add: token_request_json_def token_fields_def raw_ok_quote number_ok_int max_nesting_def)

lemma decode_token_request:
  assumes "token_request_text t"
  shows "decode_struct token_fields (token_request_json t) zero_token_request = (t, None)"
proof -
  note names = field_names [unfolded token_fields_def, simplified]
  have s: "valid_utf8 s \<Longrightarrow> decode_string (JStr (json_quote s)) old = (s, None)" for s old
    by (simp add: decode_string_def unquote_quote)
  have i: "decode_int (JNum (show_int (tr_ExpiresIn t))) old = (tr_ExpiresIn t, None)" for old
    using assms by (simp add: decode_int_def parse_i64_show token_request_text_def)
  show ?thesis
    using assms names
    by (simp add: decode_struct_def token_request_json_def decode_member_def find_field_def token_fields_def
        field_of_def s i token_request_text_def zero_token_request_def)
qed

section \<open>The members that a field is read from\<close>

text \<open>Names that differ more than in case: then the case variant alone decides which field is meant.\<close>

lemma find_field_folded:
  assumes "distinct (map (fold_name \<circ> fst) fs)"
  shows "find_field fs key = map_of (map (\<lambda>(n, d). (fold_name n, d)) fs) (fold_name key)"
proof (cases "map_of fs key")
  case None
  then show ?thesis by (simp add: find_field_def)
next
  case (Some d)
  then have "(fold_name key, d) \<in> set (map (\<lambda>(n, d). (fold_name n, d)) fs)"
    using map_of_SomeD by force
  moreover have "distinct (map fst (map (\<lambda>(n, d). (fold_name n, d)) fs))"
    using assms by (simp add: o_def case_prod_unfold)
  ultimately have "map_of (map (\<lambda>(n, d). (fold_name n, d)) fs) (fold_name key) = Some d" by (rule map_of_is_SomeI [rotated])
  with Some show ?thesis by (simp add: find_field_def)
qed

definition names_field :: "string \<Rightarrow> string \<times> json \<Rightarrow> bool" where
  "names_field name m \<longleftrightarrow> fold_name (json_unquote (fst m)) = fold_name name"

text \<open>
  A field of a struct: the decoder that its name finds sets it, and the decoders of other names leave
  it alone.
\<close>

locale struct_field =
  fixes fs :: "(string \<times> 's field_decoder) list"
    and name :: string
    and dec :: "json \<Rightarrow> 'a \<Rightarrow> 'a \<times> go_error option"
    and get :: "'s \<Rightarrow> 'a"
  assumes own: "fold_name key = fold_name name \<Longrightarrow> find_field fs key = Some d \<Longrightarrow> get (fst (d j s)) = fst (dec j (get s))"
    and found: "find_field fs name \<noteq> None"
    and other: "fold_name key \<noteq> fold_name name \<Longrightarrow> find_field fs key = Some d \<Longrightarrow> get (fst (d j s)) = get s"
    and names: "distinct (map (fold_name \<circ> fst) fs)"
begin

lemma find_own: "names_field name m \<Longrightarrow> \<exists>d. find_field fs (json_unquote (fst m)) = Some d"
  using found by (auto simp: names_field_def find_field_folded [OF names])

lemma get_member: "get (fst (decode_member fs m st)) = (if names_field name m then fst (dec (snd m) (get (fst st))) else get (fst st))"
proof (cases "names_field name m")
  case True
  with find_own [of m] own [of "json_unquote (fst m)"] show ?thesis
    by (auto simp: decode_member_def names_field_def split: prod.splits) (metis fst_conv)
next
  case False
  with other [of "json_unquote (fst m)"] show ?thesis
    by (auto simp: decode_member_def names_field_def split: prod.splits option.splits) (metis fst_conv)
qed

lemma get_members: "get (fst (fold (decode_member fs) kvs st)) = fold (\<lambda>m. fst \<circ> dec (snd m)) (filter (names_field name) kvs) (get (fst st))"
  by (induction kvs arbitrary: st) (simp_all add: get_member)

end

lemma folded_each:
  "fold_name ''access_token'' = ''ACCESS_TOKEN''" "fold_name ''expires_in'' = ''EXPIRES_IN''"
  "fold_name ''id_token'' = ''ID_TOKEN''" "fold_name ''refresh_token'' = ''REFRESH_TOKEN''"
  "fold_name ''token_type'' = ''TOKEN_TYPE''" "fold_name ''traceparent'' = ''TRACEPARENT''"
  by code_simp+

lemma folded_names:
  "map (fold_name \<circ> fst) token_fields =
     [''ACCESS_TOKEN'', ''EXPIRES_IN'', ''ID_TOKEN'', ''REFRESH_TOKEN'', ''TOKEN_TYPE'', ''TRACEPARENT'']"
  by (simp add: token_fields_def folded_each)

lemma token_names: "distinct (map (fold_name \<circ> fst) token_fields)"
  unfolding folded_names by simp

lemma find_token_field:
  "find_field token_fields key =
     map_of [(''ACCESS_TOKEN'', field_of decode_string tr_AccessToken (\<lambda>x s. s\<lparr>tr_AccessToken := x\<rparr>)),
       (''EXPIRES_IN'', field_of decode_int tr_ExpiresIn (\<lambda>x s. s\<lparr>tr_ExpiresIn := x\<rparr>)),
       (''ID_TOKEN'', field_of decode_string tr_IDToken (\<lambda>x s. s\<lparr>tr_IDToken := x\<rparr>)),
       (''REFRESH_TOKEN'', field_of decode_string tr_RefreshToken (\<lambda>x s. s\<lparr>tr_RefreshToken := x\<rparr>)),
       (''TOKEN_TYPE'', field_of decode_string tr_TokenType (\<lambda>x s. s\<lparr>tr_TokenType := x\<rparr>)),
       (''TRACEPARENT'', field_of decode_string tr_Traceparent (\<lambda>x s. s\<lparr>tr_Traceparent := x\<rparr>))] (fold_name key)"
  unfolding find_field_folded [OF token_names] by (simp add: token_fields_def folded_each)

lemmas token_field_rules = find_token_field folded_each field_of_def

interpretation access_token: struct_field token_fields "''access_token''" decode_string tr_AccessToken
  by unfold_locales (auto simp: token_field_rules token_names split: if_splits prod.splits dest!: map_of_SomeD)

interpretation expires_in: struct_field token_fields "''expires_in''" decode_int tr_ExpiresIn
  by unfold_locales (auto simp: token_field_rules token_names split: if_splits prod.splits dest!: map_of_SomeD)

interpretation id_token: struct_field token_fields "''id_token''" decode_string tr_IDToken
  by unfold_locales (auto simp: token_field_rules token_names split: if_splits prod.splits dest!: map_of_SomeD)

interpretation refresh_token: struct_field token_fields "''refresh_token''" decode_string tr_RefreshToken
  by unfold_locales (auto simp: token_field_rules token_names split: if_splits prod.splits dest!: map_of_SomeD)

interpretation token_type: struct_field token_fields "''token_type''" decode_string tr_TokenType
  by unfold_locales (auto simp: token_field_rules token_names split: if_splits prod.splits dest!: map_of_SomeD)

interpretation traceparent: struct_field token_fields "''traceparent''" decode_string tr_Traceparent
  by unfold_locales (auto simp: token_field_rules token_names split: if_splits prod.splits dest!: map_of_SomeD)

text \<open>The last string that the members of a name give.\<close>

definition string_value :: "string \<times> json \<Rightarrow> string option" where
  "string_value m = (case snd m of JStr raw \<Rightarrow> Some (json_unquote raw) | _ \<Rightarrow> None)"

definition last_string :: "string \<Rightarrow> (string \<times> json) list \<Rightarrow> string" where
  "last_string name kvs =
     (case rev (List.map_filter string_value (filter (names_field name) kvs)) of [] \<Rightarrow> [] | x # _ \<Rightarrow> x)"

lemma fold_decode_string:
  "fold (\<lambda>m. fst \<circ> decode_string (snd m)) ms old =
     (case rev (List.map_filter string_value ms) of [] \<Rightarrow> old | x # _ \<Rightarrow> x)"
  by (induction ms rule: rev_induct)
    (auto simp: List.map_filter_def string_value_def decode_string_def split: json.splits list.splits)

definition string_field_names :: "string list" where
  "string_field_names = [''access_token'', ''id_token'', ''refresh_token'', ''token_type'', ''traceparent'']"

text \<open>A member fits if it is of the type of the field it names, or \<open>null\<close>, or names no field.\<close>

definition member_fits :: "string \<times> json \<Rightarrow> bool" where
  "member_fits m \<longleftrightarrow>
     (list_ex (\<lambda>n. names_field n m) string_field_names \<longrightarrow> snd m = JNull \<or> string_value m \<noteq> None)
     \<and> (names_field ''expires_in'' m \<longrightarrow>
          snd m = JNull \<or> (case snd m of JNum num \<Rightarrow> parse_i64 num \<noteq> None | _ \<Rightarrow> False))"

lemma decode_member_None:
  "snd (decode_member fs m st) = None \<longleftrightarrow>
     snd st = None \<and> (\<forall>d. find_field fs (json_unquote (fst m)) = Some d \<longrightarrow> snd (d (snd m) (fst st)) = None)"
  by (simp add: decode_member_def split: option.split prod.split)

lemma snd_field_of: "snd (field_of dec get put j x) = snd (dec j (get x))"
  by (simp add: field_of_def split: prod.split)

lemma decode_errors:
  "snd (decode_string (snd m) old) = None \<longleftrightarrow> snd m = JNull \<or> string_value m \<noteq> None"
  "snd (decode_int (snd m) i) = None \<longleftrightarrow> snd m = JNull \<or> (case snd m of JNum num \<Rightarrow> parse_i64 num \<noteq> None | _ \<Rightarrow> False)"
  by (simp_all add: decode_string_def decode_int_def string_value_def split: json.split option.split)

lemma decode_member_error:
  "snd (decode_member token_fields m st) = None \<longleftrightarrow> snd st = None \<and> member_fits m"
  unfolding decode_member_None find_token_field member_fits_def names_field_def string_field_names_def
  by (simp add: folded_each snd_field_of decode_errors)

lemma decode_members_error:
  "snd (fold (decode_member token_fields) kvs st) = None \<longleftrightarrow> snd st = None \<and> list_all member_fits kvs"
  by (induction kvs arbitrary: st) (auto simp: decode_member_error)

lemma sample_password: "unmarshal_token_request ''jwt'' = (zero_token_request, Some JsonSyntaxError)"
  by code_simp

lemma no_password: "unmarshal_token_request [] = (zero_token_request, Some JsonSyntaxError)"
  by code_simp

end
