(* ===== verification/Auth_Callback.thy ===== *)
theory Auth_Callback
  imports Config_Manager Idp_Verifier Token_Expiry Metrics_Health Rbac_Properties Token_Request
begin

text \<open>
  One authorization request, \<open>internal/broker/auth_callback.go\<close>: extracting the provider's token,
  verifying it and adding the user-info claims, building the NATS user claims, the audit event and
  the metrics; with \<open>determineSigningKeyType\<close> of \<open>internal/broker/auth_service.go\<close>, which both
  the audit event and the signing use. The state threaded through a request is the metrics
  (\<open>None\<close> when disabled), the messages handed to NATS and the expression cache. Tracing spans
  and log lines are left out.
\<close>

section \<open>Requests, claims, libraries\<close>

record auth_request =
  ar_UserNkey :: string
  ar_ServerID :: string
  ar_ClientUser :: string
  ar_ClientNameTag :: string
  ar_Token :: string
  ar_Username :: string
  ar_Password :: string

record user_claims =
  uc_Subject :: string
  uc_Audience :: string
  uc_Name :: string
  uc_IssuerAccount :: string
  uc_Expires :: int
  uc_Permissions :: permissions
  uc_Limits :: limits
  uc_Tags :: "string list"

record response_claims =
  rc_Subject :: string
  rc_Audience :: string
  rc_Jwt :: string
  rc_Error :: string

text \<open>
  \<open>nats-io/jwt\<close> (the tags, the validation of claims, the encodings) and \<open>time.Time.Format\<close>.
\<close>

record jwt_lib =
  jw_lists :: jwt_lists
  jw_add_tags :: "string list \<Rightarrow> string list \<Rightarrow> string list"
  jw_validate :: "user_claims \<Rightarrow> go_error list"
  jw_encode_user :: "user_claims \<Rightarrow> keypair \<Rightarrow> string result"
  jw_decode_request :: "string \<Rightarrow> auth_request result"
  jw_encode_response :: "response_claims \<Rightarrow> nkey \<Rightarrow> string result"
  jw_rfc3339 :: "int \<Rightarrow> string"
  jw_error_text :: "go_error \<Rightarrow> string"

record signing_key_info =
  sk_Type :: string
  sk_PublicKey :: string

record audit_event =
  ev_account :: string
  ev_account_pub_nkey :: string
  ev_user_pub_nkey :: string
  ev_username :: string
  ev_email :: string
  ev_name :: string
  ev_idp :: string
  ev_created_at :: string
  ev_expires_at :: string
  ev_permissions :: permissions
  ev_limits :: limits
  ev_signing_account :: string
  ev_signing_key :: "signing_key_info option"

record ('t, 'p) broker_env =
  be_rt :: go_runtime
  be_engine :: "'p expr_engine"
  be_templates :: "'t template_engine"
  be_config :: config_env
  be_jwt :: jwt_lib

text \<open>The broker's state that a request runs against: a snapshot taken at its start.\<close>

record ('t, 'p) snapshot =
  sn_config :: config
  sn_configManager :: "('t, 'p) config_manager"
  sn_idpVerifiers :: "idp_verifier list"
  sn_auditSubject :: string

record 'p request_state =
  rq_metrics :: "metrics option"
  rq_published :: "(string \<times> audit_event) list"
  rq_cache :: "'p expr_cache"

definition with_metrics :: "(metrics \<Rightarrow> metrics) \<Rightarrow> 'p request_state \<Rightarrow> 'p request_state" where
  "with_metrics f s = s\<lparr>rq_metrics := map_option f (rq_metrics s)\<rparr>"

section \<open>Signing keys\<close>

definition determineSigningKeyType ::
  "user_claims \<Rightarrow> nkey \<Rightarrow> user_account_info option \<Rightarrow> signing_key_info result outcome" where
  "determineSigningKeyType claims kp accountInfo =
     (case kp of
        None \<Rightarrow> Panic NilDereference
      | Some k \<Rightarrow>
          (case kp_PublicKey k of
             Inl e \<Rightarrow> Done (Err (Wrapped ''failed to get signing key's public key'' e))
           | Inr signingPubKey \<Rightarrow>
               if uc_IssuerAccount claims = signingPubKey then
                 Done (Ok \<lparr>sk_Type = ''pub_key'', sk_PublicKey = signingPubKey\<rparr>)
               else
                 (case accountInfo of
                    None \<Rightarrow> Done (Err IssuerMismatch)
                  | Some info \<Rightarrow>
                      (case ua_SigningNKey info of
                         None \<Rightarrow> Done (Err SigningKeyUnavailable)
                       | Some ak \<Rightarrow>
                           (case kp_PublicKey ak of
                              Inl e \<Rightarrow> Done (Err (Wrapped ''failed to get account signing key's public key'' e))
                            | Inr signingNKeyPub \<Rightarrow>
                                if signingPubKey = signingNKeyPub
                                then Done (Ok \<lparr>sk_Type = ''signing_key'', sk_PublicKey = signingNKeyPub\<rparr>)
                                else Done (Err KeyMismatch))))))"

section \<open>extractJWT\<close>

definition extractJWT :: "auth_request \<Rightarrow> string \<times> token_request" where
  "extractJWT request =
     (let raw = (if ar_Token request \<noteq> [] then ar_Token request else ar_Password request)
      in case unmarshal_token_request raw of
           (tokenReq, None) \<Rightarrow> (tr_IDToken tokenReq, tokenReq)
         | (tokenReq, Some err) \<Rightarrow> (raw, tokenReq))"

section \<open>verifyAndEnrich\<close>

definition enrich ::
  "go_runtime \<Rightarrow> token_request \<Rightarrow> identity \<Rightarrow> idp_claims outcome" where
  "enrich rt tokenReq ident =
     (case ident of (reqClaims, (v, i), idToken) \<Rightarrow>
        if idp_UserInfoEnabled i \<and> tr_AccessToken tokenReq \<noteq> [] then
          (case GetUserInfo v (tr_AccessToken tokenReq) (Some idToken) of
             Inl e \<Rightarrow> Done reqClaims
           | Inr userInfo \<Rightarrow> fromMap rt reqClaims (overlay (toMap reqClaims) userInfo) (idp_CustomMapping i))
        else Done reqClaims)"

definition verifyAndEnrich ::
  "go_runtime \<Rightarrow> int \<Rightarrow> string \<Rightarrow> token_request \<Rightarrow> idp_verifier list \<Rightarrow> 'p request_state
   \<Rightarrow> ((idp_claims \<times> idp_verifier) result \<times> 'p request_state) outcome" where
  "verifyAndEnrich rt now idpRawJwt tokenReq idpVerifiers s =
     bind_outcome (runVerification rt now idpRawJwt idpVerifiers)
       (\<lambda>r. case r of
          Inl e \<Rightarrow> Done (Err e, with_metrics (\<lambda>m. m\<lparr>IDPVerifyTotal := inc [''unknown'', StatusError] (IDPVerifyTotal m)\<rparr>) s)
        | Inr (reqClaims, item, idToken) \<Rightarrow>
            let desc = idp_Description (snd item);
                s' = with_metrics (\<lambda>m. m\<lparr>IDPVerifyTotal := inc [desc, StatusSuccess] (IDPVerifyTotal m),
                                         IDPVerifyDuration := inc [desc] (IDPVerifyDuration m)\<rparr>) s
            in bind_outcome (enrich rt tokenReq (reqClaims, item, idToken))
                 (\<lambda>c. Done (Ok (c, item), s')))"

section \<open>buildUserClaims\<close>

definition mint_claims ::
  "jwt_lib \<Rightarrow> int \<Rightarrow> config \<Rightarrow> idp_claims \<Rightarrow> idp \<Rightarrow> auth_request \<Rightarrow> user_account_info
   \<Rightarrow> account_choice \<Rightarrow> user_claims" where
  "mint_claims jw now cfgForRequest reqClaims i request info choice =
     (case choice of (userAccountName, perms, lims, maxExpiry) \<Rightarrow>
        let expires = calculateExpiration now cfgForRequest (cl_Expiry reqClaims)
              (Some (vs_TokenExpiryBounds (idp_ValidationSpec i))) (Some maxExpiry)
        in \<lparr>uc_Subject = ar_UserNkey request, uc_Audience = userAccountName,
            uc_Name = ar_Username request, uc_IssuerAccount = ua_PublicKey info, uc_Expires = expires,
            uc_Permissions = perms, uc_Limits = lims,
            uc_Tags = jw_add_tags jw []
              [''email: '' @ cl_Email reqClaims @ '', name: '' @ cl_Name reqClaims @ '', idp: ''
                @ idp_Description i @ '', expires: '' @ jw_rfc3339 jw expires]\<rparr>)"

text \<open>The first component of an error is the status recorded for it.\<close>

definition buildUserClaims ::
  "('t, 'p) broker_env \<Rightarrow> int \<Rightarrow> config \<Rightarrow> ('t, 'p) config_manager \<Rightarrow> idp_claims \<Rightarrow> idp \<Rightarrow> auth_request
   \<Rightarrow> 'p expr_cache \<Rightarrow> (string \<times> go_error + user_claims \<times> nkey \<times> user_account_info) \<times> 'p expr_cache" where
  "buildUserClaims env now cfg cm reqClaims i request cache =
     (case GetConfig (be_templates env) (be_config env) cm (toMap reqClaims) of
        Inl e \<Rightarrow> (Inl (StatusError, e), cache)
      | Inr cfgForRequest \<Rightarrow>
          (case lookupUserAccount (be_engine env) (jw_lists (be_jwt env)) cfgForRequest (toMap reqClaims) cache of
             (Inl e, cache') \<Rightarrow> (Inl (StatusDenied, e), cache')
           | (Inr (userAccountName, perms, lims, maxExpiry), cache') \<Rightarrow>
               if userAccountName = [] then (Inl (StatusError, EmptyAccountName), cache')
               else
                 (case lookupAccountInfo cfg userAccountName of
                    Inl e \<Rightarrow> (Inl (StatusError, e), cache')
                  | Inr info \<Rightarrow>
                      (Inr (mint_claims (be_jwt env) now cfgForRequest reqClaims i request info
                              (userAccountName, perms, lims, maxExpiry),
                            ua_SigningNKey info, info), cache'))))"

section \<open>publishAuditEvent\<close>

text \<open>
  \<open>fmt.Sprintf\<close> with string operands: \<open>%s\<close> takes the next operand, \<open>%%\<close> is a percent sign,
  and a wrong verb, a missing or an extra operand is marked in the text (flags, widths and
  precisions do not occur in the subject's pattern; the pattern starts with the service name).
\<close>

fun sprintf :: "string \<Rightarrow> string list \<Rightarrow> string" where
  "sprintf [] [] = []"
| "sprintf [] (a # as) = ''%!(EXTRA '' @ join '', '' (map (\<lambda>s. ''string='' @ s) (a # as)) @ '')''"
| "sprintf [c] args = (if c = CHR ''%'' then ''%!(NOVERB)'' @ sprintf [] args else c # sprintf [] args)"
| "sprintf (c # d # f) args =
     (if c \<noteq> CHR ''%'' then c # sprintf (d # f) args
      else if d = CHR ''%'' then CHR ''%'' # sprintf f args
      else (case args of
              [] \<Rightarrow> ''%!'' @ [d] @ ''(MISSING)'' @ sprintf f []
            | a # as \<Rightarrow> (if d = CHR ''s'' then a else ''%!'' @ [d] @ ''(string='' @ a @ '')'') @ sprintf f as))"

definition audit_event_for ::
  "jwt_lib \<Rightarrow> int \<Rightarrow> config \<Rightarrow> user_claims \<Rightarrow> auth_request \<Rightarrow> idp_claims \<Rightarrow> idp \<Rightarrow> user_account_info
   \<Rightarrow> signing_key_info option \<Rightarrow> audit_event" where
  "audit_event_for jw now cfg claims request reqClaims i info key =
     \<lparr>ev_account = uc_Audience claims, ev_account_pub_nkey = ua_PublicKey info,
      ev_user_pub_nkey = ar_UserNkey request, ev_username = ar_Username request,
      ev_email = cl_Email reqClaims, ev_name = cl_Name reqClaims, ev_idp = idp_Description i,
      ev_created_at = jw_rfc3339 jw (unix_of now), ev_expires_at = jw_rfc3339 jw (uc_Expires claims),
      ev_permissions = uc_Permissions claims, ev_limits = uc_Limits claims,
      ev_signing_account = sa_Name (sv_Account (cfg_Service cfg)), ev_signing_key = key\<rparr>"

definition publishAuditEvent ::
  "jwt_lib \<Rightarrow> int \<Rightarrow> string \<Rightarrow> config \<Rightarrow> user_claims \<Rightarrow> auth_request \<Rightarrow> idp_claims \<Rightarrow> idp
   \<Rightarrow> user_account_info \<Rightarrow> 'p request_state \<Rightarrow> 'p request_state outcome" where
  "publishAuditEvent jw now auditEventSubject cfg claims request reqClaims i info s =
     bind_outcome (determineSigningKeyType claims (ua_SigningNKey info) (Some info))
       (\<lambda>r. let key = (case r of Inl e \<Rightarrow> None | Inr k \<Rightarrow> Some k) in
          Done (s\<lparr>rq_published := rq_published s @
            [(sprintf auditEventSubject [uc_Audience claims, ar_UserNkey request],
              audit_event_for jw now cfg claims request reqClaims i info key)]\<rparr>))"

section \<open>handleAuthRequest\<close>

definition recordResult :: "string \<Rightarrow> 'p request_state \<Rightarrow> 'p request_state" where
  "recordResult status = with_metrics (\<lambda>m. m\<lparr>AuthRequestsTotal := inc [status] (AuthRequestsTotal m),
     AuthRequestDuration := inc [status] (AuthRequestDuration m)\<rparr>)"

definition inFlight :: "int \<Rightarrow> 'p request_state \<Rightarrow> 'p request_state" where
  "inFlight d = with_metrics (\<lambda>m. m\<lparr>AuthRequestsInFlight := AuthRequestsInFlight m + d\<rparr>)"

text \<open>The client's identity overrides the claims of the same names.\<close>

definition with_client_info :: "auth_request \<Rightarrow> go_map \<Rightarrow> go_map" where
  "with_client_info request m =
     mput ''also_known_as'' (GStr (ar_ClientNameTag request)) (mput ''client_id'' (GStr (ar_ClientUser request)) m)"

type_synonym grant_answer = "(user_claims \<times> nkey \<times> user_account_info) result"

definition finish_request ::
  "('t, 'p) broker_env \<Rightarrow> int \<Rightarrow> ('t, 'p) snapshot \<Rightarrow> auth_request \<Rightarrow> idp_claims \<Rightarrow> idp
   \<Rightarrow> 'p request_state \<Rightarrow> (grant_answer \<times> 'p request_state) outcome" where
  "finish_request env now sn request reqClaims i s =
     (case buildUserClaims env now (sn_config sn) (sn_configManager sn) reqClaims i request (rq_cache s) of
        (Inl (status, e), cache') \<Rightarrow> Done (Err e, recordResult status (s\<lparr>rq_cache := cache'\<rparr>))
      | (Inr (claims, kp, info), cache') \<Rightarrow>
          bind_outcome
            (publishAuditEvent (be_jwt env) now (sn_auditSubject sn) (sn_config sn) claims request reqClaims i info
              (s\<lparr>rq_cache := cache'\<rparr>))
            (\<lambda>s2. Done (Ok (claims, kp, info),
               with_metrics (\<lambda>m. m\<lparr>TokensMinted := inc [uc_Audience claims, idp_Description i] (TokensMinted m)\<rparr>)
                 (recordResult StatusSuccess s2))))"

definition handleAuthRequest ::
  "('t, 'p) broker_env \<Rightarrow> int \<Rightarrow> int \<Rightarrow> ('t, 'p) snapshot \<Rightarrow> auth_request \<Rightarrow> 'p request_state
   \<Rightarrow> (grant_answer \<times> 'p request_state) outcome" where
  "handleAuthRequest env verifyNow mintNow sn request s0 =
     bind_outcome
       (let s = inFlight 1 s0; (idpRawJwt, tokenReq) = extractJWT request in
        if idpRawJwt = [] then Done (Err NoJwtInRequest, recordResult StatusError s)
        else
          bind_outcome (verifyAndEnrich (be_rt env) verifyNow idpRawJwt tokenReq (sn_idpVerifiers sn) s)
            (\<lambda>(r, s1). case r of
               Inl e \<Rightarrow> Done (Err e, recordResult StatusDenied s1)
             | Inr (reqClaims, item) \<Rightarrow>
                 bind_outcome
                   (fromMap (be_rt env) reqClaims (with_client_info request (toMap reqClaims)) (idp_CustomMapping (snd item)))
                   (\<lambda>reqClaims'. finish_request env mintNow sn request reqClaims' (snd item) s1)))
       (\<lambda>(r, s). Done (r, inFlight (-1) s))"

end
