(* ===== verification/Auth_Callback_Properties.thy ===== *)
theory Auth_Callback_Properties
  imports Auth_Callback
begin

text \<open>
  What \<open>handleAuthRequest\<close> promises: what a granted answer rests on, the accounting of a
  request in the metrics and in the audit events, the priority of the client's own identity, and
  where the code panics.
\<close>

section \<open>Steps\<close>

lemma metrics_with [simp]:
  "rq_metrics (with_metrics f s) = map_option f (rq_metrics s)"
  "rq_published (with_metrics f s) = rq_published s" "rq_cache (with_metrics f s) = rq_cache s"
  by (simp_all add: with_metrics_def)

lemma bind_Done: "bind_outcome r f = Done y \<Longrightarrow> \<exists>x. r = Done x \<and> f x = Done y"
  by (simp add: bind_outcome_Done_iff)

lemma verifyAndEnrich_cases:
  assumes "verifyAndEnrich rt now raw tok vs s = Done (r, s')"
  obtains (refused) e where "r = Err e" "runVerification rt now raw vs = Done (Err e)"
      "s' = with_metrics (\<lambda>m. m\<lparr>IDPVerifyTotal := inc [''unknown'', StatusError] (IDPVerifyTotal m)\<rparr>) s"
  | (verified) c v i t c1 where "r = Ok (c1, (v, i))" "runVerification rt now raw vs = Done (Ok (c, (v, i), t))"
      "enrich rt tok (c, (v, i), t) = Done c1"
      "s' = with_metrics (\<lambda>m. m\<lparr>IDPVerifyTotal := inc [idp_Description i, StatusSuccess] (IDPVerifyTotal m),
              IDPVerifyDuration := inc [idp_Description i] (IDPVerifyDuration m)\<rparr>) s"
proof -
  obtain x where x: "runVerification rt now raw vs = Done x"
    using assms by (cases "runVerification rt now raw vs") (simp_all add: verifyAndEnrich_def)
  show thesis
  proof (cases x)
    case (Inl e)
    with assms x show thesis by (intro refused) (simp_all add: verifyAndEnrich_def)
  next
    case (Inr y)
    obtain c v i t where y: "y = (c, (v, i), t)" by (metis prod.exhaust)
    from assms x Inr y obtain c1 where "enrich rt tok (c, (v, i), t) = Done c1"
      by (cases "enrich rt tok (c, (v, i), t)") (simp_all add: verifyAndEnrich_def Let_def)
    with assms x Inr y show thesis by (intro verified) (auto simp: verifyAndEnrich_def Let_def)
  qed
qed

lemma buildUserClaims_cases:
  obtains (failed) st e c' where "buildUserClaims env now cfg cm rc i req cache = (Inl (st, e), c')"
      "st = StatusError \<or> st = StatusDenied"
  | (built) cfg' choice info c' where
      "buildUserClaims env now cfg cm rc i req cache =
        (Inr (mint_claims (be_jwt env) now cfg' rc i req info choice, ua_SigningNKey info, info), c')"
      "GetConfig (be_templates env) (be_config env) cm (toMap rc) = Ok cfg'"
      "fst (lookupUserAccount (be_engine env) (jw_lists (be_jwt env)) cfg' (toMap rc) cache) = Ok choice"
      "fst choice \<noteq> []" "lookupAccountInfo cfg (fst choice) = Ok info"
proof (cases "GetConfig (be_templates env) (be_config env) cm (toMap rc)")
  case (Inl e)
  then show thesis by (intro failed) (auto simp: buildUserClaims_def)
next
  case Inr_cfg: (Inr cfg')
  obtain r c' where l: "lookupUserAccount (be_engine env) (jw_lists (be_jwt env)) cfg' (toMap rc) cache = (r, c')"
    by (metis prod.exhaust)
  show thesis
  proof (cases r)
    case (Inl e)
    with Inr_cfg l show ?thesis by (intro failed) (auto simp: buildUserClaims_def)
  next
    case (Inr choice)
    obtain n p lm mx where choice: "choice = (n, p, lm, mx)" by (metis prod.exhaust)
    note facts = Inr_cfg l Inr choice
    consider (empty) "n = []" | (unknown) e where "n \<noteq> []" "lookupAccountInfo cfg n = Err e"
      | (found) info where "n \<noteq> []" "lookupAccountInfo cfg n = Ok info"
      by (cases "lookupAccountInfo cfg n") blast+
    then show ?thesis
    proof cases
      case empty
      with facts show ?thesis by (intro failed) (auto simp: buildUserClaims_def)
    next
      case unknown
      with facts show ?thesis by (intro failed) (auto simp: buildUserClaims_def)
    next
      case found
      with facts show ?thesis by (intro built [of cfg' info choice]) (simp_all add: buildUserClaims_def)
    qed
  qed
qed

lemma publishAuditEvent_Done:
  assumes "publishAuditEvent jw now subj cfg claims req rc i info s = Done s'"
  shows "ua_SigningNKey info \<noteq> None
    \<and> (\<exists>key. s' = s\<lparr>rq_published := rq_published s @
          [(sprintf subj [uc_Audience claims, ar_UserNkey req],
            audit_event_for jw now cfg claims req rc i info key)]\<rparr>)"
proof (cases "ua_SigningNKey info")
  case None
  with assms show ?thesis by (simp add: publishAuditEvent_def determineSigningKeyType_def)
next
  case (Some k)
  with assms show ?thesis
    by (auto simp: publishAuditEvent_def Let_def dest!: bind_Done)
qed

lemma finish_request_cases:
  assumes "finish_request env now sn req rc i s = Done (r, s')"
  obtains (failed) st e c' where "r = Err e" "st = StatusError \<or> st = StatusDenied"
      "s' = recordResult st (s\<lparr>rq_cache := c'\<rparr>)"
  | (granted) cfg' choice info c' key claims where
      "claims = mint_claims (be_jwt env) now cfg' rc i req info choice"
      "r = Ok (claims, ua_SigningNKey info, info)" "ua_SigningNKey info \<noteq> None"
      "GetConfig (be_templates env) (be_config env) (sn_configManager sn) (toMap rc) = Ok cfg'"
      "fst (lookupUserAccount (be_engine env) (jw_lists (be_jwt env)) cfg' (toMap rc) (rq_cache s)) = Ok choice"
      "fst choice \<noteq> []" "lookupAccountInfo (sn_config sn) (fst choice) = Ok info"
      "s' = with_metrics (\<lambda>m. m\<lparr>TokensMinted := inc [uc_Audience claims, idp_Description i] (TokensMinted m)\<rparr>)
        (recordResult StatusSuccess (s\<lparr>rq_cache := c', rq_published := rq_published s @
           [(sprintf (sn_auditSubject sn) [uc_Audience claims, ar_UserNkey req],
             audit_event_for (be_jwt env) now (sn_config sn) claims req rc i info key)]\<rparr>))"
proof (cases rule: buildUserClaims_cases [of env now "sn_config sn" "sn_configManager sn" rc i req "rq_cache s"])
  case (failed st e c')
  with assms show thesis by (intro that(1) [of e st c']) (auto simp: finish_request_def)
next
  case (built cfg' choice info c')
  let ?claims = "mint_claims (be_jwt env) now cfg' rc i req info choice"
  from assms built(1) obtain s2 where
    p: "publishAuditEvent (be_jwt env) now (sn_auditSubject sn) (sn_config sn) ?claims req rc i info (s\<lparr>rq_cache := c'\<rparr>) = Done s2"
    and rs: "r = Ok (?claims, ua_SigningNKey info, info)"
      "s' = with_metrics (\<lambda>m. m\<lparr>TokensMinted := inc [uc_Audience ?claims, idp_Description i] (TokensMinted m)\<rparr>)
        (recordResult StatusSuccess s2)"
    by (auto simp: finish_request_def dest!: bind_Done)
  from publishAuditEvent_Done [OF p] obtain key where "ua_SigningNKey info \<noteq> None"
    "s2 = s\<lparr>rq_cache := c', rq_published := rq_published s @
           [(sprintf (sn_auditSubject sn) [uc_Audience ?claims, ar_UserNkey req],
             audit_event_for (be_jwt env) now (sn_config sn) ?claims req rc i info key)]\<rparr>"
    by auto
  with rs built show thesis by (intro that(2) [of ?claims cfg' info choice key c']) simp_all
qed

lemma handleAuthRequest_cases:
  assumes "handleAuthRequest env vNow mNow sn req s0 = Done (r, s1)"
  obtains (nojwt) "fst (extractJWT req) = []" "r = Err NoJwtInRequest"
      "s1 = inFlight (-1) (recordResult StatusError (inFlight 1 s0))"
  | (refused) e where "r = Err e"
      "runVerification (be_rt env) vNow (fst (extractJWT req)) (sn_idpVerifiers sn) = Done (Err e)"
      "s1 = inFlight (-1) (recordResult StatusDenied
        (with_metrics (\<lambda>m. m\<lparr>IDPVerifyTotal := inc [''unknown'', StatusError] (IDPVerifyTotal m)\<rparr>) (inFlight 1 s0)))"
      "fst (extractJWT req) \<noteq> []"
  | (verified) c v i t c1 c2 s2 where
      "fst (extractJWT req) \<noteq> []"
      "runVerification (be_rt env) vNow (fst (extractJWT req)) (sn_idpVerifiers sn) = Done (Ok (c, (v, i), t))"
      "enrich (be_rt env) (snd (extractJWT req)) (c, (v, i), t) = Done c1"
      "fromMap (be_rt env) c1 (with_client_info req (toMap c1)) (idp_CustomMapping i) = Done c2"
      "finish_request env mNow sn req c2 i
        (with_metrics (\<lambda>m. m\<lparr>IDPVerifyTotal := inc [idp_Description i, StatusSuccess] (IDPVerifyTotal m),
              IDPVerifyDuration := inc [idp_Description i] (IDPVerifyDuration m)\<rparr>) (inFlight 1 s0)) = Done (r, s2)"
      "s1 = inFlight (-1) s2"
proof -
  obtain raw tok where x: "extractJWT req = (raw, tok)" by (metis prod.exhaust)
  show thesis
  proof (cases "raw = []")
    case True
    with assms x show thesis by (intro nojwt) (auto simp: handleAuthRequest_def Let_def)
  next
    case False
    from assms x False obtain r0 s' where
      v: "verifyAndEnrich (be_rt env) vNow raw tok (sn_idpVerifiers sn) (inFlight 1 s0) = Done (r0, s')"
      by (auto simp: handleAuthRequest_def Let_def dest!: bind_Done)
    from v show thesis
    proof (cases rule: verifyAndEnrich_cases)
      case (refused e)
      with assms x False v show thesis
        by (intro that(2) [of e]) (auto simp: handleAuthRequest_def Let_def)
    next
      case (verified c v i t c1)
      from assms x False v verified(1) obtain c2 s2 where
        "fromMap (be_rt env) c1 (with_client_info req (toMap c1)) (idp_CustomMapping i) = Done c2"
        "finish_request env mNow sn req c2 i s' = Done (r, s2)" "s1 = inFlight (-1) s2"
        by (auto simp: handleAuthRequest_def Let_def dest!: bind_Done)
      with verified x False show thesis by (intro that(3) [of c v i t c1 c2 s2]) simp_all
    qed
  qed
qed

lemma expiration_ceiling_le: "calculateExpiration now cfg e vb rb \<le> e"
  by (rule expiry.never_extends)

section \<open>A sample request\<close>

definition sample_request :: auth_request where
  "sample_request = \<lparr>ar_UserNkey = ''UKEY'', ar_ServerID = ''SRV'', ar_ClientUser = ''sentinel'', ar_ClientNameTag = ''tag'',
     ar_Token = [], ar_Username = ''joe'', ar_Password = ''jwt''\<rparr>"

definition sample_jwt :: jwt_lib where
  "sample_jwt = \<lparr>jw_lists = sample_lists, jw_add_tags = sample_add, jw_validate = (\<lambda>c. []),
     jw_encode_user = (\<lambda>c k. Ok (''signed:'' @ uc_Subject c)),
     jw_decode_request = (\<lambda>s. Ok sample_request),
     jw_encode_response = (\<lambda>c k. if k = None then Err (ExtErr ''no key'') else Ok (''response:'' @ rc_Jwt c)),
     jw_rfc3339 = show_int, jw_error_text = (\<lambda>e. ''error'')\<rparr>"

definition sample_broker_env :: "(string, string) broker_env" where
  "sample_broker_env = \<lparr>be_rt = sample_runtime, be_engine = sample_engine, be_templates = sample_templates,
     be_config = sample_plain_env, be_jwt = sample_jwt\<rparr>"

definition sample_snapshot :: "(string, string) snapshot" where
  "sample_snapshot = \<lparr>sn_config = sample_config StrategyStrict, sn_configManager = sample_manager,
     sn_idpVerifiers = [(sample_verifier, sample_idp)],
     sn_auditSubject = ''broker.evt.audit.account.%s.user.%s.created''\<rparr>"

definition sample_state :: "string request_state" where
  "sample_state = \<lparr>rq_metrics = Some new_metrics, rq_published = [], rq_cache = Some []\<rparr>"

definition sample_claims2 :: idp_claims where
  "sample_claims2 = sample_verified\<lparr>cl_ClientID := ''sentinel'', cl_AlsoKnownAs := ''tag''\<rparr>"

lemma sample_client_info:
  "fromMap sample_runtime sample_verified (with_client_info sample_request (toMap sample_verified)) [] = Done sample_claims2"
  by code_simp

lemma sample_lookup:
  "\<exists>p l c'. lookupUserAccount sample_engine sample_lists (sample_config StrategyStrict) (toMap sample_claims2) (Some [])
     = (Ok (''SALES'', p, l, 0), c')"
  by (intro exI) code_simp

definition sales_info :: user_account_info where
  "sales_info = \<lparr>ua_Name = ''SALES'', ua_PublicKey = ''ASALES'', ua_SigningNKey = Some (sample_key ''ASALES'')\<rparr>"

lemma sample_info: "lookupAccountInfo (sample_config StrategyStrict) ''SALES'' = Ok sales_info"
  by (simp add: lookupAccountInfo_def sample_config_def sales_info_def)

lemma sample_granted_from:
  assumes sn: "sn_idpVerifiers sn = [(sample_verifier, sample_idp)]" "sn_config sn = sample_config StrategyStrict"
    and cm: "cm_baseConfig (sn_configManager sn) = sample_config StrategyStrict"
    and cache: "rq_cache s0 = Some []"
  shows "\<exists>claims s1. handleAuthRequest sample_broker_env (1100 * second) (1100 * second) sn sample_request s0
     = Done (Ok (claims, Some (sample_key ''ASALES''), sales_info), s1)"
proof -
  have x: "extractJWT sample_request = (''jwt'', zero_token_request)"
    by (simp add: extractJWT_def sample_request_def sample_password)
  have v: "runVerification sample_runtime (1100 * second) ''jwt'' [(sample_verifier, sample_idp)]
      = Done (Ok (sample_verified, (sample_verifier, sample_idp), sample_token))"
    unfolding runVerification_def verification_loop_Cons sample_verifies by simp
  have e: "enrich sample_runtime zero_token_request (sample_verified, (sample_verifier, sample_idp), sample_token) = Done sample_verified"
    by (simp add: enrich_def zero_token_request_def)
  have m: "idp_CustomMapping sample_idp = []" by (simp add: sample_idp_def)
  have env: "be_rt sample_broker_env = sample_runtime" "be_jwt sample_broker_env = sample_jwt"
    "be_engine sample_broker_env = sample_engine" "be_templates sample_broker_env = sample_templates"
    "jw_lists sample_jwt = sample_lists" "be_config sample_broker_env = sample_plain_env"
    by (simp_all add: sample_broker_env_def sample_jwt_def)
  obtain p l c' where l: "lookupUserAccount sample_engine sample_lists (sample_config StrategyStrict)
      (toMap sample_claims2) (Some []) = (Ok (''SALES'', p, l, 0), c')" using sample_lookup by blast
  have b: "\<exists>claims. buildUserClaims sample_broker_env now (sample_config StrategyStrict) (sn_configManager sn) sample_claims2 sample_idp
      sample_request (Some []) = (Inr (claims, Some (sample_key ''ASALES''), sales_info), c')" for now
    by (simp add: buildUserClaims_def env sample_get_config_from [OF cm] l sample_info)
      (simp add: sales_info_def)
  have d: "\<exists>k. determineSigningKeyType claims (ua_SigningNKey sales_info) (Some sales_info) = Done k" for claims
    by (simp add: determineSigningKeyType_def sales_info_def sample_key_def)
  have "\<exists>claims s2. finish_request sample_broker_env (1100 * second) sn sample_request sample_claims2 sample_idp s
      = Done (Ok (claims, Some (sample_key ''ASALES''), sales_info), s2)" if "rq_cache s = Some []" for s
  proof -
    obtain claims where "buildUserClaims sample_broker_env (1100 * second) (sample_config StrategyStrict) (sn_configManager sn)
        sample_claims2 sample_idp sample_request (Some []) = (Inr (claims, Some (sample_key ''ASALES''), sales_info), c')"
      using b by blast
    moreover obtain k where "determineSigningKeyType claims (ua_SigningNKey sales_info) (Some sales_info) = Done k"
      using d by blast
    ultimately show ?thesis using that by (simp add: finish_request_def sn publishAuditEvent_def Let_def)
  qed
  then have fin: "\<exists>claims s1. bind_outcome
      (finish_request sample_broker_env (1100 * second) sn sample_request sample_claims2 sample_idp s)
      (\<lambda>(r, s). Done (r, inFlight (-1) s)) = Done (Ok (claims, Some (sample_key ''ASALES''), sales_info), s1)"
    if "rq_cache s = Some []" for s
    using that by fastforce
  have "''jwt'' \<noteq> []" by simp
  then show ?thesis
    unfolding handleAuthRequest_def verifyAndEnrich_def env x sn Let_def prod.case v bind_outcome.simps sum.case snd_conv e m
      sample_client_info
    by (simp only: if_False bind_outcome.simps prod.case sum.case snd_conv m sample_client_info)
      (rule fin, simp add: inFlight_def cache)
qed

lemma sample_granted:
  "\<exists>claims s1. handleAuthRequest sample_broker_env (1100 * second) (1100 * second) sample_snapshot sample_request sample_state
     = Done (Ok (claims, Some (sample_key ''ASALES''), sales_info), s1)"
  by (rule sample_granted_from) (simp_all add: sample_snapshot_def sample_manager_def sample_state_def)

lemma handle_granted:
  assumes "handleAuthRequest env vNow mNow sn req s0 = Done (Ok (claims, kp, info), s1)"
  shows "uc_Subject claims = ar_UserNkey req \<and> uc_IssuerAccount claims = ua_PublicKey info
    \<and> kp = ua_SigningNKey info \<and> lookupAccountInfo (sn_config sn) (uc_Audience claims) = Ok info"
  using assms
proof (cases rule: handleAuthRequest_cases)
  case (verified c v i t c1 c2 s2)
  from verified(5) show ?thesis
  proof (cases rule: finish_request_cases)
    case (granted cfg' choice info' c' key claims')
    obtain n p l mx where "choice = (n, p, l, mx)" by (metis prod.exhaust)
    with granted show ?thesis by (simp add: mint_claims_def Let_def)
  qed simp
qed simp_all

section \<open>Properties\<close>

text \<open>
  Property C4. Every granted answer rests on a verified identity and on the configuration: the
  token in the request was accepted for a configured provider; the claims the bindings were matched
  against are those of the token, enriched, with the client's identity; the account, permissions
  and limits are exactly what the rendered configuration's bindings give for these claims; the
  issuer account and the signing key are those of that account; and the token expires no later than
  these claims say.
\<close>

theorem granted_answer_is_justified:
  assumes "handleAuthRequest env vNow mNow sn req s0 = Done (Ok (claims, kp, info), s1)"
  shows "\<exists>c v i t c1 c2 cfg' maxExpiry.
    runVerification (be_rt env) vNow (fst (extractJWT req)) (sn_idpVerifiers sn) = Done (Ok (c, (v, i), t))
    \<and> enrich (be_rt env) (snd (extractJWT req)) (c, (v, i), t) = Done c1
    \<and> fromMap (be_rt env) c1 (with_client_info req (toMap c1)) (idp_CustomMapping i) = Done c2
    \<and> GetConfig (be_templates env) (be_config env) (sn_configManager sn) (toMap c2) = Ok cfg'
    \<and> fst (lookupUserAccount (be_engine env) (jw_lists (be_jwt env)) cfg' (toMap c2) (rq_cache s0))
        = Ok (uc_Audience claims, uc_Permissions claims, uc_Limits claims, maxExpiry)
    \<and> uc_Audience claims \<noteq> [] \<and> uc_Subject claims = ar_UserNkey req
    \<and> lookupAccountInfo (sn_config sn) (uc_Audience claims) = Ok info
    \<and> uc_IssuerAccount claims = ua_PublicKey info \<and> kp = ua_SigningNKey info
    \<and> uc_Expires claims \<le> cl_Expiry c2"
  using assms
proof (cases rule: handleAuthRequest_cases)
  case (verified c v i t c1 c2 s2)
  from verified(5) show ?thesis
  proof (cases rule: finish_request_cases)
    case (granted cfg' choice info' c' key claims')
    obtain n p l mx where ch: "choice = (n, p, l, mx)" by (metis prod.exhaust)
    have "uc_Expires claims' \<le> cl_Expiry c2"
      using expiration_ceiling_le by (simp add: granted(1) ch mint_claims_def Let_def)
    with granted ch verified show ?thesis
      by (intro exI [of _ c] exI [of _ v] exI [of _ i] exI [of _ t] exI [of _ c1] exI [of _ c2] exI [of _ cfg'] exI [of _ mx])
        (simp add: mint_claims_def Let_def inFlight_def)
  qed simp
qed simp_all

theorem granted_answer_is_justified_witness:
  "\<exists>claims s1. handleAuthRequest sample_broker_env (1100 * second) (1100 * second) sample_snapshot sample_request sample_state
     = Done (Ok (claims, Some (sample_key ''ASALES''), sales_info), s1)
   \<and> uc_Subject claims = ''UKEY'' \<and> uc_IssuerAccount claims = ''ASALES''"
proof -
  obtain claims s1 where h: "handleAuthRequest sample_broker_env (1100 * second) (1100 * second) sample_snapshot
      sample_request sample_state = Done (Ok (claims, Some (sample_key ''ASALES''), sales_info), s1)"
    using sample_granted by blast
  from granted_answer_is_justified [OF h] have "uc_Subject claims = ar_UserNkey sample_request"
    "uc_IssuerAccount claims = ua_PublicKey sales_info" by blast+
  with h show ?thesis by (auto simp: sample_request_def sales_info_def)
qed

lemma request_status_distinct [simp]:
  "StatusSuccess \<noteq> StatusError" "StatusSuccess \<noteq> StatusDenied" "StatusError \<noteq> StatusDenied"
  "StatusError \<noteq> StatusSuccess" "StatusDenied \<noteq> StatusSuccess"
  by (simp_all add: status_defs)

lemma count_of_answer:
  assumes "handleAuthRequest env vNow mNow sn req s0 = Done (r, s1)" and "rq_metrics s0 = Some m0"
  shows "\<exists>m1 status. rq_metrics s1 = Some m1 \<and> status \<in> {StatusSuccess, StatusError, StatusDenied}
    \<and> AuthRequestsTotal m1 = inc [status] (AuthRequestsTotal m0)
    \<and> AuthRequestDuration m1 = inc [status] (AuthRequestDuration m0)
    \<and> AuthRequestsInFlight m1 = AuthRequestsInFlight m0
    \<and> RequestErrors m1 = RequestErrors m0 \<and> ResponseErrors m1 = ResponseErrors m0
    \<and> (case r of
         Inl _ \<Rightarrow> status \<noteq> StatusSuccess \<and> TokensMinted m1 = TokensMinted m0
       | Inr (claims, _, _) \<Rightarrow> status = StatusSuccess
           \<and> (\<exists>idp. TokensMinted m1 = inc [uc_Audience claims, idp] (TokensMinted m0)))"
  using assms(1)
proof (cases rule: handleAuthRequest_cases)
  case (verified c v i t c1 c2 s2)
  from verified(5) show ?thesis
  proof (cases rule: finish_request_cases)
    case (failed st e c')
    then have "st \<in> {StatusSuccess, StatusError, StatusDenied}" "st \<noteq> StatusSuccess" by auto
    with failed(1,3) verified(6) assms(2) show ?thesis
      by (intro exI [of _ "the (rq_metrics s1)"] exI [of _ st]) (simp add: inFlight_def recordResult_def)
  next
    case (granted cfg' choice info' c' key claims')
    with verified(6) assms(2) show ?thesis
      by (intro exI [of _ "the (rq_metrics s1)"] exI [of _ StatusSuccess] conjI)
        (simp_all add: inFlight_def recordResult_def, blast)
  qed
next
  case nojwt
  with assms(2) show ?thesis
    by (intro exI [of _ "the (rq_metrics s1)"] exI [of _ StatusError]) (simp add: inFlight_def recordResult_def)
next
  case (refused e)
  with assms(2) show ?thesis
    by (intro exI [of _ "the (rq_metrics s1)"] exI [of _ StatusDenied]) (simp add: inFlight_def recordResult_def)
qed

text \<open>
  Every answered request is counted once: its total and its duration under one status,
  which is success exactly when claims are granted, with the tokens minted counted exactly then;
  the number of requests in flight is back where it was.
\<close>

lemma request_is_counted_once:
  assumes "handleAuthRequest env vNow mNow sn req s0 = Done (r, s1)" and "rq_metrics s0 = Some m0"
  shows "\<exists>m1 status. rq_metrics s1 = Some m1 \<and> status \<in> {StatusSuccess, StatusError, StatusDenied}
    \<and> AuthRequestsTotal m1 = inc [status] (AuthRequestsTotal m0)
    \<and> AuthRequestDuration m1 = inc [status] (AuthRequestDuration m0)
    \<and> AuthRequestsInFlight m1 = AuthRequestsInFlight m0
    \<and> RequestErrors m1 = RequestErrors m0 \<and> ResponseErrors m1 = ResponseErrors m0
    \<and> (case r of
         Inl _ \<Rightarrow> status \<noteq> StatusSuccess \<and> TokensMinted m1 = TokensMinted m0
       | Inr (claims, _, _) \<Rightarrow> status = StatusSuccess
           \<and> (\<exists>idp. TokensMinted m1 = inc [uc_Audience claims, idp] (TokensMinted m0)))"
  using assms by (rule count_of_answer)

lemma request_is_counted_once_witness:
  "\<exists>r s1 m1. handleAuthRequest sample_broker_env (1100 * second) (1100 * second) sample_snapshot sample_request sample_state
     = Done (r, s1) \<and> rq_metrics s1 = Some m1 \<and> AuthRequestsTotal m1 [StatusSuccess] = 1"
proof -
  obtain claims s1 where h: "handleAuthRequest sample_broker_env (1100 * second) (1100 * second) sample_snapshot
      sample_request sample_state = Done (Ok (claims, Some (sample_key ''ASALES''), sales_info), s1)"
    using sample_granted by blast
  have "rq_metrics sample_state = Some new_metrics" by (simp add: sample_state_def)
  from request_is_counted_once [OF h this] obtain m1 where "rq_metrics s1 = Some m1"
    "AuthRequestsTotal m1 = inc [StatusSuccess] (AuthRequestsTotal new_metrics)" by auto
  with h show ?thesis by (auto simp: new_metrics_def no_counts_def)
qed

lemma audit_of_answer:
  assumes "handleAuthRequest env vNow mNow sn req s0 = Done (r, s1)"
  shows "case r of
      Inl _ \<Rightarrow> rq_published s1 = rq_published s0
    | Inr (claims, kp, info) \<Rightarrow> \<exists>ev.
        rq_published s1 = rq_published s0 @ [(sprintf (sn_auditSubject sn) [uc_Audience claims, ar_UserNkey req], ev)]
        \<and> ev_account ev = uc_Audience claims \<and> ev_account_pub_nkey ev = uc_IssuerAccount claims
        \<and> ev_user_pub_nkey ev = uc_Subject claims
        \<and> ev_permissions ev = uc_Permissions claims \<and> ev_limits ev = uc_Limits claims
        \<and> ev_expires_at ev = jw_rfc3339 (be_jwt env) (uc_Expires claims)"
  using assms
proof (cases rule: handleAuthRequest_cases)
  case (verified c v i t c1 c2 s2)
  from verified(5) show ?thesis
  proof (cases rule: finish_request_cases)
    case (failed st e c')
    with verified(6) show ?thesis by (simp add: inFlight_def recordResult_def)
  next
    case (granted cfg' choice info' c' key claims')
    obtain n p l mx where "choice = (n, p, l, mx)" by (metis prod.exhaust)
    with granted verified(6) show ?thesis
      by (simp add: inFlight_def recordResult_def audit_event_for_def mint_claims_def Let_def)
  qed
qed (simp_all add: inFlight_def recordResult_def)



lemma sprintf_plain: "CHR ''%'' \<notin> set s \<Longrightarrow> sprintf (s @ f) args = s @ sprintf f args"
proof (induction s)
  case (Cons c s)
  then show ?case by (cases "s @ f") auto
qed simp

lemma audit_subject:
  assumes "CHR ''%'' \<notin> set name"
  shows "sprintf (name @ ''.evt.audit.account.%s.user.%s.created'') [a, u]
    = name @ ''.evt.audit.account.'' @ a @ ''.user.'' @ u @ ''.created''"
  using sprintf_plain [OF assms] by simp

section \<open>The client's own identity\<close>

lemma custom_claims_keys:
  "k \<in> fst ` set (custom_claims mapping m) \<Longrightarrow>
   \<exists>k'. k' \<notin> set standardClaims \<and> custom_key mapping k' = k"
proof -
  have sub: "fst ` set (overlay d es) \<subseteq> fst ` set d \<union> fst ` set es" for d es :: go_map
  proof (induction es arbitrary: d)
    case (Cons e es)
    obtain x v where e: "e = (x, v)" by (cases e)
    have "fst ` set (mput x v d) \<subseteq> insert x (fst ` set d)"
      by (auto simp: mput_def dom_update)
    with Cons [of "mput x v d"] show ?case by (auto simp: overlay_def e)
  qed (simp add: overlay_def)
  assume "k \<in> fst ` set (custom_claims mapping m)"
  then have "k \<in> fst ` set (custom_entries mapping m)"
    using sub [of "[]" "custom_entries mapping m"] by (auto simp: custom_claims_overlay)
  then show ?thesis by (auto simp: custom_entries_def)
qed

lemma standard_not_custom:
  assumes "k \<in> set standardClaims" and "k \<notin> snd ` set mapping"
  shows "mget (custom_claims mapping m) k = None"
proof -
  have "custom_key mapping k' \<noteq> k" if "k' \<notin> set standardClaims" for k'
    using assms that by (auto simp: custom_key_def mget_def image_iff split: option.splits dest!: map_of_SomeD)
  then show ?thesis using custom_claims_keys [of k mapping m] by (auto simp: mget_eq_None_iff)
qed

text \<open>
  Property C19. In the claims that templates and bindings see, the client id and its display name are
  those the NATS server reports for the connection, not what the provider's token says, unless the
  provider's custom mapping itself maps a claim to one of these names. A client without them has no
  such entry.
\<close>

theorem client_identity_is_authoritative:
  assumes "fromMap rt c1 (with_client_info req (toMap c1)) mapping = Done c2"
    and "marshals c2" and "''client_id'' \<notin> snd ` set mapping" and "''also_known_as'' \<notin> snd ` set mapping"
  shows "mget (toMap c2) ''client_id'' = omit_string (ar_ClientUser req)
    \<and> mget (toMap c2) ''also_known_as'' = omit_string (ar_ClientNameTag req)"
proof -
  let ?m = "with_client_info req (toMap c1)"
  from assms(1) have c2: "c2 = (assigned rt ?m (set_audience rt ?m (c1\<lparr>cl_CustomClaims := []\<rparr>)))
             \<lparr>cl_CustomClaims := custom_claims mapping ?m\<rparr>"
    by (auto simp: fromMap_eq split: if_splits)
  have "mget ?m ''client_id'' = Some (GStr (ar_ClientUser req))"
    "mget ?m ''also_known_as'' = Some (GStr (ar_ClientNameTag req))"
    by (simp_all add: with_client_info_def)
  then have "cl_ClientID c2 = ar_ClientUser req" "cl_AlsoKnownAs c2 = ar_ClientNameTag req"
    by (simp_all add: c2 assigned_def str_or_def toString_def)
  moreover have "''client_id'' \<in> set standardClaims" "''also_known_as'' \<in> set standardClaims"
    by (simp_all add: standardClaims_def jsonToField_def)
  then have "mget (cl_CustomClaims c2) ''client_id'' = None" "mget (cl_CustomClaims c2) ''also_known_as'' = None"
    using assms(3,4) by (simp_all add: c2 standard_not_custom)
  moreover have "wf_map (cl_CustomClaims c2)" by (simp add: c2)
  ultimately show ?thesis
    using assms(2) by (simp add: mget_toMap std_fields_def)
qed

theorem client_identity_is_authoritative_witness:
  "mget (toMap sample_claims2) ''client_id'' = omit_string ''sentinel''"
  using client_identity_is_authoritative [OF sample_client_info]
  by (simp add: sample_claims2_def sample_verified_def marshals_def zero_claims_def sample_request_def)

section \<open>Panics\<close>

lemma fromMap_Panic: "fromMap rt j m mapping = Panic p \<Longrightarrow> p = ReflectSetZeroValue"
  by (simp add: fromMap_eq split: if_splits)

lemma enrich_Panic: "enrich rt tok ident = Panic p \<Longrightarrow> p = ReflectSetZeroValue"
  by (auto simp: enrich_def split: prod.splits if_splits sum.splits dest: fromMap_Panic)

lemma bind_Panic: "bind_outcome r f = Panic p \<Longrightarrow> r = Panic p \<or> (\<exists>x. r = Done x \<and> f x = Panic p)"
  by (cases r) simp_all

lemma verifyJWT_Panic: "verifyJWT rt now v tok m = Panic p \<Longrightarrow> p = ReflectSetZeroValue"
  by (auto simp: verifyJWT_def split: sum.splits dest!: bind_Panic fromMap_Panic)

lemma verification_Panic: "verification_loop rt now tok items errs = Panic p \<Longrightarrow> p = ReflectSetZeroValue"
proof (induction items arbitrary: errs)
  case (Cons x items)
  show ?case
  proof (cases "verify_one rt now tok x")
    case (Done r)
    with Cons show ?thesis by (cases r) (auto simp: verification_loop_Cons)
  next
    case (Panic q)
    with Cons.prems have "verify_one rt now tok x = Panic p" by (simp add: verification_loop_Cons)
    then show ?thesis
      by (auto simp: verify_one_def split: sum.splits prod.splits dest!: bind_Panic verifyJWT_Panic)
  qed
qed simp

lemma finish_request_Panic:
  assumes "finish_request env now sn req rc i s = Panic p"
  shows "p = NilDereference \<and> (\<exists>a\<in>set (rbac_Accounts (cfg_Rbac (sn_config sn))). ua_SigningNKey a = None)"
proof (cases rule: buildUserClaims_cases [of env now "sn_config sn" "sn_configManager sn" rc i req "rq_cache s"])
  case (failed st e c')
  with assms show ?thesis by (simp add: finish_request_def)
next
  case (built cfg' choice info c')
  have "info \<in> set (rbac_Accounts (cfg_Rbac (sn_config sn)))"
    using built(5) by (auto simp: lookupAccountInfo_def split: option.splits dest: find_SomeD)
  moreover have "p = NilDereference \<and> ua_SigningNKey info = None"
    using assms built(1)
    by (auto simp: finish_request_def publishAuditEvent_def Let_def determineSigningKeyType_def
        split: option.splits sum.splits if_splits dest!: bind_Panic)
  ultimately show ?thesis by blast
qed

text \<open>
  A request can bring the broker down in two ways only: the provider's claims hold
  \<open>null\<close> groups or roles, or an account of the configuration has no usable signing key. With a key
  in every account, no nil key is ever dereferenced.
\<close>

lemma no_nil_key_with_keys_in_accounts:
  assumes "handleAuthRequest env vNow mNow sn req s0 = Panic p"
    and "\<forall>a\<in>set (rbac_Accounts (cfg_Rbac (sn_config sn))). ua_SigningNKey a \<noteq> None"
  shows "p = ReflectSetZeroValue"
proof -
  obtain raw tok where x: "extractJWT req = (raw, tok)" by (metis prod.exhaust)
  have enr: "verifyAndEnrich (be_rt env) vNow raw tok (sn_idpVerifiers sn) s = Panic q \<Longrightarrow> q = ReflectSetZeroValue" for s q
    by (auto simp: verifyAndEnrich_def runVerification_def Let_def split: sum.splits prod.splits
        dest!: bind_Panic enrich_Panic dest: verification_Panic)
  define keyless where "keyless = (\<exists>a\<in>set (rbac_Accounts (cfg_Rbac (sn_config sn))). ua_SigningNKey a = None)"
  have fin: "finish_request env mNow sn req rc i s = Panic q \<Longrightarrow> keyless" for rc i s q
    using finish_request_Panic [of env mNow sn req rc i s q] by (simp add: keyless_def)
  have "p = ReflectSetZeroValue \<or> keyless"
    using assms(1)
    by (auto simp: handleAuthRequest_def Let_def x split: if_splits sum.splits prod.splits
        dest!: bind_Panic enr fromMap_Panic fin)
  with assms(2) show ?thesis unfolding keyless_def by blast
qed

definition null_groups_provider :: oidc_provider where
  "null_groups_provider = sample_provider\<lparr>pv_verify :=
     (\<lambda>c t. Ok (sample_token\<lparr>it_claims_map := Ok [(''sub'', GStr ''joe''), (''groups'', GNil)]\<rparr>))\<rparr>"

definition null_groups_snapshot :: "(string, string) snapshot" where
  "null_groups_snapshot = sample_snapshot\<lparr>sn_idpVerifiers :=
     [(sample_verifier\<lparr>jv_provider := null_groups_provider\<rparr>, sample_idp)]\<rparr>"

lemma no_nil_key_with_keys_in_accounts_witness:
  "\<exists>p. handleAuthRequest sample_broker_env (1100 * second) (1100 * second) null_groups_snapshot sample_request sample_state
     = Panic p \<and> p = ReflectSetZeroValue"
proof -
  have x: "extractJWT sample_request = (''jwt'', zero_token_request)"
    by (simp add: extractJWT_def sample_request_def sample_password)
  have "nil_collections [(''sub'', GStr ''joe''), (''groups'', GNil)]"
    by (simp add: nil_collections_def mget_def)
  then have "verifyJWT rt now (sample_verifier\<lparr>jv_provider := null_groups_provider\<rparr>) tok mapping
      = Panic ReflectSetZeroValue" for rt now tok mapping
    by (simp add: verifyJWT_def null_groups_provider_def sample_token_def fromMap_eq)
  then have "\<exists>p. handleAuthRequest sample_broker_env (1100 * second) (1100 * second) null_groups_snapshot sample_request sample_state
     = Panic p"
    by (simp add: handleAuthRequest_def x Let_def verifyAndEnrich_def null_groups_snapshot_def runVerification_def
        verification_loop_Cons verify_one_def)
  moreover have "\<forall>a\<in>set (rbac_Accounts (cfg_Rbac (sn_config null_groups_snapshot))). ua_SigningNKey a \<noteq> None"
    by (simp add: null_groups_snapshot_def sample_snapshot_def sample_config_def)
  ultimately show ?thesis using no_nil_key_with_keys_in_accounts by blast
qed

text \<open>
  The other way: an account whose key is missing or did not parse. The audit event asks the nil key
  for its public part before \<open>ValidateAndSign\<close> would refuse it.
\<close>

lemma missing_key_panics:
  assumes "buildUserClaims env now (sn_config sn) (sn_configManager sn) rc i req (rq_cache s)
      = (Inr (claims, None, info), c')"
    and "ua_SigningNKey info = None"
  shows "finish_request env now sn req rc i s = Panic NilDereference"
  using assms by (simp add: finish_request_def publishAuditEvent_def determineSigningKeyType_def)

end
