(* ===== verification/Config_Watcher.thy ===== *)
theory Config_Watcher
  imports Auth_Callback "HOL-Library.Word"
begin

text \<open>
  Hot reload, \<open>internal/broker/config_watcher.go\<close>: building a new live state, the paths and
  directories watched, the event filter, and the loop of the watcher as a step relation. The live
  state of the code is the record \<open>snapshot\<close> of \<open>Auth_Callback\<close>. Times are nanoseconds.
\<close>

unbundle bit_operations_syntax

section \<open>Reloading\<close>

definition audit_suffix :: string where
  "audit_suffix = ''.evt.audit.account.%s.user.%s.created''"

text \<open>
  The new state, and whether the warning about a changed credentials file is logged. The files, the
  decoder and the providers are the environment's at the time of the reload.
\<close>

definition reload ::
  "'t template_engine \<Rightarrow> config_env \<Rightarrow> (string \<Rightarrow> oidc_provider result) \<Rightarrow> string list
   \<Rightarrow> ('t, 'p) snapshot \<Rightarrow> (('t, 'p) snapshot \<times> bool) result" where
  "reload te env newProvider configFiles current =
     (case NewConfigManager te env configFiles of
        Inl e \<Rightarrow> Err (Wrapped ''failed to create config manager'' e)
      | Inr newCM \<Rightarrow>
          (case GetConfig te env newCM [] of
             Inl e \<Rightarrow> Err (Wrapped ''failed to validate new config'' e)
           | Inr newConfig \<Rightarrow>
               (case NewIdpVerifiers newProvider newConfig of
                  Inl e \<Rightarrow> Err (Wrapped ''failed to create IDP verifiers'' e)
                | Inr newVerifiers \<Rightarrow>
                    Ok (\<lparr>sn_config = newConfig, sn_configManager = newCM, sn_idpVerifiers = newVerifiers,
                         sn_auditSubject = sv_Name (cfg_Service newConfig) @ audit_suffix\<rparr>,
                        sv_CredsFile (cfg_Service (sn_config current)) \<noteq> sv_CredsFile (cfg_Service newConfig)))))"

definition doReload ::
  "'t template_engine \<Rightarrow> config_env \<Rightarrow> (string \<Rightarrow> oidc_provider result) \<Rightarrow> string list
   \<Rightarrow> ('t, 'p) snapshot \<Rightarrow> ('t, 'p) snapshot" where
  "doReload te env newProvider configFiles current =
     (case reload te env newProvider configFiles current of Inl e \<Rightarrow> current | Inr (s, _) \<Rightarrow> s)"

section \<open>What is watched\<close>

definition resolve_pattern :: "file_system \<Rightarrow> string \<Rightarrow> string list \<Rightarrow> string list result" where
  "resolve_pattern fs pattern paths =
     (case expand_pattern fs pattern of Inl e \<Rightarrow> Err e | Inr ms \<Rightarrow> Ok (paths @ ms))"

definition resolveGlobPaths :: "file_system \<Rightarrow> string list \<Rightarrow> string list result" where
  "resolveGlobPaths fs patterns = fold_result (resolve_pattern fs) patterns []"

definition add_dir :: "file_system \<Rightarrow> string \<Rightarrow> string list \<Rightarrow> string list" where
  "add_dir fs p dirs =
     (let abs = abs_or_same fs (path_dir p) in if abs \<in> set dirs then dirs else dirs @ [abs])"

definition uniqueDirs :: "file_system \<Rightarrow> string list \<Rightarrow> string list" where
  "uniqueDirs fs paths = fold (add_dir fs) paths []"

text \<open>An event of \<open>fsnotify\<close> and the bits of its operations the filter asks for.\<close>

record fs_event =
  ev_Name :: string
  ev_Op :: "32 word"

record fsnotify_ops =
  op_Write :: "32 word"
  op_Create :: "32 word"

definition isRelevantEvent :: "fsnotify_ops \<Rightarrow> file_system \<Rightarrow> fs_event \<Rightarrow> string list \<Rightarrow> bool" where
  "isRelevantEvent ops fs event configPaths \<longleftrightarrow>
     (if ev_Op event AND (op_Write ops OR op_Create ops) = 0 then False
      else abs_or_same fs (ev_Name event) \<in> set configPaths)"

text \<open>
  \<open>Start\<close>: the directories watched and the set of absolute config paths; \<open>create\<close> and
  \<open>watch\<close> are what \<open>fsnotify\<close> answers to a new watcher and to adding a directory.
\<close>

definition watcher_Start ::
  "file_system \<Rightarrow> unit result \<Rightarrow> (string \<Rightarrow> unit result) \<Rightarrow> string list \<Rightarrow> (string list \<times> string list) result" where
  "watcher_Start fs create watch configFiles =
     (case resolveGlobPaths fs configFiles of
        Inl e \<Rightarrow> Err (Wrapped ''failed to resolve config file paths'' e)
      | Inr paths \<Rightarrow>
          (case create of
             Inl e \<Rightarrow> Err (Wrapped ''failed to create file watcher'' e)
           | Inr _ \<Rightarrow>
               (case fold_result (\<lambda>d ds. case watch d of
                       Inl e \<Rightarrow> Err (Wrapped ''failed to watch directory'' e) | Inr _ \<Rightarrow> Ok (ds @ [d]))
                     (uniqueDirs fs paths) [] of
                  Inl e \<Rightarrow> Err e
                | Inr dirs \<Rightarrow> Ok (dirs, map (abs_or_same fs) paths))))"

section \<open>The watch loop\<close>

text \<open>
  The state of a watcher whose loop has been started: the live state, whether \<open>Stop\<close> was called,
  whether the loop has returned, the clock, and when the debounce timer fires (\<open>None\<close> for no timer
  or a nil channel). The last two fields record the history for the properties: the time of the last
  relevant event and the number of reloads since then.
\<close>

record ('t, 'p) watcher =
  ws_live :: "('t, 'p) snapshot"
  ws_stopped :: bool
  ws_exited :: bool
  ws_now :: int
  ws_deadline :: "int option"
  ws_last_event :: "int option"
  ws_reloads :: nat

definition defaultDebounceDuration :: int where
  "defaultDebounceDuration = 500000000"

definition NewConfigWatcher :: "int \<Rightarrow> ('t, 'p) snapshot \<Rightarrow> ('t, 'p) watcher" where
  "NewConfigWatcher now initial = \<lparr>ws_live = initial, ws_stopped = False, ws_exited = False, ws_now = now,
     ws_deadline = None, ws_last_event = None, ws_reloads = 0\<rparr>"

definition State :: "('t, 'p) watcher \<Rightarrow> ('t, 'p) snapshot" where
  "State w = ws_live w"

definition on_event :: "bool \<Rightarrow> ('t, 'p) watcher \<Rightarrow> ('t, 'p) watcher" where
  "on_event relevant w =
     (if relevant
      then w\<lparr>ws_deadline := Some (ws_now w + defaultDebounceDuration), ws_last_event := Some (ws_now w), ws_reloads := 0\<rparr>
      else w)"

definition on_timer ::
  "'t template_engine \<Rightarrow> config_env \<Rightarrow> (string \<Rightarrow> oidc_provider result) \<Rightarrow> string list
   \<Rightarrow> ('t, 'p) watcher \<Rightarrow> ('t, 'p) watcher" where
  "on_timer te env np files w =
     w\<lparr>ws_deadline := None, ws_live := doReload te env np files (ws_live w), ws_reloads := Suc (ws_reloads w)\<rparr>"

text \<open>A second \<open>Stop\<close> closes a closed channel.\<close>

definition watcher_Stop :: "('t, 'p) watcher \<Rightarrow> ('t, 'p) watcher outcome" where
  "watcher_Stop w = (if ws_stopped w then Panic CloseOfClosedChannel else Done (w\<lparr>ws_stopped := True\<rparr>))"

text \<open>
  The cases of the \<open>select\<close>, and what happens around the loop: time passes, and \<open>Stop\<close> may be
  called at any moment. \<open>Stop\<close> also closes the event channel, so a stopped loop receives the
  close (and exits) or still takes another ready case first.
\<close>

inductive watch_step ::
  "fsnotify_ops \<Rightarrow> file_system \<Rightarrow> string list \<Rightarrow> string list \<Rightarrow> ('t, 'p) watcher \<Rightarrow> ('t, 'p) watcher \<Rightarrow> bool"
  for ops :: fsnotify_ops and fs :: file_system and paths files :: "string list" where
  Elapse: "0 \<le> d \<Longrightarrow> watch_step ops fs paths files w (w\<lparr>ws_now := ws_now w + d\<rparr>)"
| Stopping: "watcher_Stop w = Done w' \<Longrightarrow> watch_step ops fs paths files w w'"
| Exit: "\<not> ws_exited w \<Longrightarrow> ws_stopped w \<Longrightarrow> watch_step ops fs paths files w (w\<lparr>ws_exited := True\<rparr>)"
| Event: "\<not> ws_exited w \<Longrightarrow> watch_step ops fs paths files w (on_event (isRelevantEvent ops fs e paths) w)"
| WatchError: "\<not> ws_exited w \<Longrightarrow> watch_step ops fs paths files w w"
| Timer: "\<not> ws_exited w \<Longrightarrow> ws_deadline w = Some t \<Longrightarrow> t \<le> ws_now w \<Longrightarrow>
    watch_step ops fs paths files w (on_timer te env np files w)"

inductive_cases watch_stepE: "watch_step ops fs paths files w w'"

inductive_simps watch_step_exited: "watch_step ops fs paths files (w\<lparr>ws_exited := True\<rparr>) w'"

text \<open>The states a watcher goes through.\<close>

definition reachable ::
  "fsnotify_ops \<Rightarrow> file_system \<Rightarrow> string list \<Rightarrow> string list \<Rightarrow> ('t, 'p) watcher \<Rightarrow> ('t, 'p) watcher \<Rightarrow> bool" where
  "reachable ops fs paths files = rtranclp (watch_step ops fs paths files)"

section \<open>Requests\<close>

text \<open>The handler takes one snapshot at the start of a request.\<close>

definition newAuthCallbackWithWatcher ::
  "('t, 'p) broker_env \<Rightarrow> int \<Rightarrow> int \<Rightarrow> ('t, 'p) watcher \<Rightarrow> auth_request \<Rightarrow> 'p request_state
   \<Rightarrow> (grant_answer \<times> 'p request_state) outcome" where
  "newAuthCallbackWithWatcher env vNow mNow w request s =
     (let state = State w in handleAuthRequest env vNow mNow state request s)"

section \<open>Invariants\<close>

text \<open>The parts of a live state belong together: they come from one configuration.\<close>

definition consistent :: "('t, 'p) snapshot \<Rightarrow> bool" where
  "consistent sn \<longleftrightarrow>
     (\<exists>te env np. GetConfig te env (sn_configManager sn) [] = Ok (sn_config sn)
        \<and> NewIdpVerifiers np (sn_config sn) = Ok (sn_idpVerifiers sn))
     \<and> sn_auditSubject sn = sv_Name (cfg_Service (sn_config sn)) @ audit_suffix"

lemma reload_consistent: "reload te env np files cur = Ok (sn, warn) \<Longrightarrow> consistent sn"
  by (auto simp: reload_def consistent_def split: sum.splits) blast+

lemma doReload_cases: "doReload te env np files cur = cur \<or> consistent (doReload te env np files cur)"
  using reload_consistent by (auto simp: doReload_def split: sum.splits) blast

interpretation live: step_invariant "watch_step ops fs paths files" "\<lambda>w. consistent (ws_live w)"
  for ops fs paths files
proof
  fix w w' :: "('a, 'b) watcher"
  assume "watch_step ops fs paths files w w'" "consistent (ws_live w)"
  then show "consistent (ws_live w')"
  proof (cases rule: watch_step.cases)
    case (Timer t te env np)
    with \<open>consistent (ws_live w)\<close> show ?thesis
      using doReload_cases [of te env np files "ws_live w"] by (auto simp: on_timer_def)
  qed (auto simp: watcher_Stop_def on_event_def split: if_splits)
qed

text \<open>What the debounce timer stands for.\<close>

definition debounced :: "('t, 'p) snapshot \<Rightarrow> ('t, 'p) watcher \<Rightarrow> bool" where
  "debounced s0 w \<longleftrightarrow>
     (case ws_deadline w of
        Some t \<Rightarrow> ws_reloads w = 0 \<and> (\<exists>e. ws_last_event w = Some e \<and> t = e + defaultDebounceDuration)
      | None \<Rightarrow> ws_reloads w \<le> 1)
     \<and> (ws_last_event w = None \<longrightarrow> ws_reloads w = 0 \<and> ws_live w = s0)
     \<and> (\<forall>e. ws_last_event w = Some e \<longrightarrow> e \<le> ws_now w)
     \<and> (\<forall>e. ws_last_event w = Some e \<longrightarrow> 0 < ws_reloads w \<longrightarrow> e + defaultDebounceDuration \<le> ws_now w)"

interpretation debounce: step_invariant "watch_step ops fs paths files" "debounced s0"
  for ops fs paths files s0
proof
  fix w w' :: "('a, 'b) watcher"
  assume s: "watch_step ops fs paths files w w'" and d: "debounced s0 w"
  from s show "debounced s0 w'"
  proof (cases rule: watch_step.cases)
    case (Timer t te env np)
    with d show ?thesis by (auto simp: debounced_def on_timer_def)
  next
    case (Event e)
    with d show ?thesis by (auto simp: debounced_def on_event_def)
  qed (use d in \<open>auto simp: debounced_def watcher_Stop_def split: if_splits option.splits\<close>)
qed

lemma debounced_start: "debounced s0 (NewConfigWatcher now s0)"
  by (simp add: debounced_def NewConfigWatcher_def)

section \<open>A sample run\<close>

definition sample_live :: "(string, string) snapshot" where
  "sample_live = \<lparr>sn_config = sample_config StrategyStrict, sn_configManager = sample_manager,
     sn_idpVerifiers = [(sample_verifier, sample_idp)],
     sn_auditSubject = ''broker'' @ audit_suffix\<rparr>"

definition sample_ops :: fsnotify_ops where
  "sample_ops = \<lparr>op_Write = 2, op_Create = 1\<rparr>"

definition sample_reloaded :: "(string, string) watcher" where
  "sample_reloaded =
     (let w1 = on_event True (NewConfigWatcher 0 sample_live); w2 = w1\<lparr>ws_now := ws_now w1 + 500000000\<rparr>
      in on_timer sample_templates sample_env (\<lambda>u. Err (ExtErr u)) [''/etc/a.yaml''] w2)"

lemma sample_live_consistent: "consistent sample_live"
proof -
  have "GetConfig sample_templates sample_plain_env (sn_configManager sample_live) [] = Ok (sn_config sample_live)"
    by (simp add: sample_live_def sample_get_config_same)
  moreover have "NewIdpVerifiers (\<lambda>u. Ok sample_provider) (sn_config sample_live) = Ok (sn_idpVerifiers sample_live)"
    by (simp add: sample_live_def sample_verifiers)
  moreover have "sv_Name (cfg_Service (sn_config sample_live)) = ''broker''"
    by (simp add: sample_live_def sample_config_def)
  ultimately show ?thesis unfolding consistent_def by (auto simp: sample_live_def)
qed

lemma sample_event_relevant:
  "isRelevantEvent sample_ops sample_fs \<lparr>ev_Name = ''/etc/a.yaml'', ev_Op = 2\<rparr> [''/etc/a.yaml'']"
  by code_simp

lemma sample_reloaded_reachable:
  "reachable sample_ops sample_fs [''/etc/a.yaml''] [''/etc/a.yaml''] (NewConfigWatcher 0 sample_live) sample_reloaded"
proof -
  let ?step = "watch_step sample_ops sample_fs [''/etc/a.yaml''] [''/etc/a.yaml'']"
  let ?w0 = "NewConfigWatcher 0 sample_live"
  let ?w1 = "on_event True ?w0"
  let ?w2 = "?w1\<lparr>ws_now := ws_now ?w1 + 500000000\<rparr>"
  have "?step ?w0 ?w1"
    using watch_step.Event [of ?w0 sample_ops sample_fs "[''/etc/a.yaml'']" "[''/etc/a.yaml'']"
        "\<lparr>ev_Name = ''/etc/a.yaml'', ev_Op = 2\<rparr>"] sample_event_relevant
    by (simp add: NewConfigWatcher_def)
  moreover have "?step ?w1 ?w2" by (rule watch_step.Elapse) simp
  moreover have "?step ?w2 sample_reloaded"
    unfolding sample_reloaded_def Let_def
    by (rule watch_step.Timer [where t = 500000000])
      (simp_all add: on_event_def NewConfigWatcher_def defaultDebounceDuration_def)
  ultimately show ?thesis
    unfolding reachable_def by (meson rtranclp.rtrancl_into_rtrancl rtranclp.rtrancl_refl)
qed

section \<open>Properties\<close>

text \<open>
  Property C9. The live state that requests see is always of one piece: whatever events, failures
  and reloads happen in whatever order, its configuration, its verifiers and its audit subject come
  from the same configuration manager, if the initial state was so.
\<close>

theorem live_state_consistent:
  assumes "reachable ops fs paths files (NewConfigWatcher now s0) w" and "consistent s0"
  shows "consistent (State w)"
  using live.run_keeps [OF assms(1) [unfolded reachable_def]] assms(2)
  by (simp add: State_def NewConfigWatcher_def)

theorem live_state_consistent_witness:
  "consistent (State sample_reloaded)"
  using live_state_consistent [OF sample_reloaded_reachable sample_live_consistent] .

text \<open>
  Property C25. Debouncing: between two relevant file events there is at most one reload, and it
  comes no earlier than half a second after the first of them; while a reload is pending none has
  happened since the last event; and without any relevant event the live state stays the initial
  one.
\<close>

theorem reloads_are_debounced:
  assumes "reachable ops fs paths files (NewConfigWatcher now s0) w"
  shows "ws_reloads w \<le> 1
    \<and> (0 < ws_reloads w \<longrightarrow> (\<exists>e. ws_last_event w = Some e \<and> e + 500000000 \<le> ws_now w))
    \<and> (ws_deadline w \<noteq> None \<longrightarrow> ws_reloads w = 0)
    \<and> (ws_last_event w = None \<longrightarrow> State w = s0)"
proof -
  have "debounced s0 w"
    using assms debounced_start unfolding reachable_def by (rule debounce.run_keeps)
  then show ?thesis
    by (cases "ws_last_event w"; cases "ws_deadline w")
      (auto simp: debounced_def State_def defaultDebounceDuration_def)
qed

theorem reloads_are_debounced_witness:
  "ws_reloads sample_reloaded = 1 \<and> ws_reloads sample_reloaded \<le> 1
   \<and> (\<exists>e. ws_last_event sample_reloaded = Some e \<and> e + 500000000 \<le> ws_now sample_reloaded)"
proof -
  have "ws_reloads sample_reloaded = 1"
    by (simp add: sample_reloaded_def Let_def on_timer_def on_event_def NewConfigWatcher_def)
  with reloads_are_debounced [OF sample_reloaded_reachable] show ?thesis by simp
qed



section \<open>Watched directories\<close>

lemma uniqueDirs_loop:
  "distinct ds \<Longrightarrow>
   distinct (fold (add_dir fs) ps ds)
   \<and> set (fold (add_dir fs) ps ds) = set ds \<union> (abs_or_same fs \<circ> path_dir) ` set ps"
  by (induction ps arbitrary: ds) (auto simp: add_dir_def Let_def)

lemma watch_dirs_loop:
  assumes "\<And>d ds ds'. f d ds = Ok ds' \<Longrightarrow> ds' = ds @ [d]"
  shows "fold_result f dirs acc = Ok r \<Longrightarrow> r = acc @ dirs"
proof (induction dirs arbitrary: acc)
  case (Cons d dirs)
  then obtain a where a: "f d acc = Ok a" "fold_result f dirs a = Ok r" by (auto split: sum.splits)
  from Cons.IH [OF a(2)] assms [OF a(1)] show ?case by simp
qed simp

text \<open>
  When the watcher starts, the parent directory of every configured file (patterns
  expanded) is watched, each directory once, and a write or create event is taken for a change
  exactly when its absolute path is that of one of these files. So replacing a directory entry
  beside the file, such as the data link of a mounted volume, is not noticed.
\<close>

lemma watches_every_config_file:
  assumes "watcher_Start fs create watch configFiles = Ok (dirs, configPaths)"
  shows "distinct dirs
    \<and> (\<exists>paths. resolveGlobPaths fs configFiles = Ok paths
        \<and> set dirs = (abs_or_same fs \<circ> path_dir) ` set paths
        \<and> (\<forall>e. ev_Op e AND (op_Write ops OR op_Create ops) \<noteq> 0 \<longrightarrow>
             (isRelevantEvent ops fs e configPaths \<longleftrightarrow> abs_or_same fs (ev_Name e) \<in> abs_or_same fs ` set paths)))"
proof -
  obtain paths where p: "resolveGlobPaths fs configFiles = Ok paths"
    and d: "fold_result (\<lambda>d ds. case watch d of
                       Inl e \<Rightarrow> Err (Wrapped ''failed to watch directory'' e) | Inr _ \<Rightarrow> Ok (ds @ [d]))
                     (uniqueDirs fs paths) [] = Ok dirs"
    and c: "configPaths = map (abs_or_same fs) paths"
    using assms by (auto simp: watcher_Start_def split: sum.splits)
  have "dirs = [] @ uniqueDirs fs paths" by (rule watch_dirs_loop [OF _ d]) (auto split: sum.splits)
  then have "distinct dirs" "set dirs = (abs_or_same fs \<circ> path_dir) ` set paths"
    using uniqueDirs_loop [of "[]" fs paths] by (simp_all add: uniqueDirs_def)
  with p c show ?thesis by (auto simp: isRelevantEvent_def)
qed

lemma watches_every_config_file_witness:
  "\<exists>dirs ps. watcher_Start sample_fs (Ok ()) (\<lambda>d. Ok ()) [''/etc/iam/a.yaml'', ''/etc/iam/b.yaml''] = Ok (dirs, ps)
     \<and> distinct dirs \<and> dirs = [''/etc/iam'']"
proof -
  have s: "watcher_Start sample_fs (Ok ()) (\<lambda>d. Ok ()) [''/etc/iam/a.yaml'', ''/etc/iam/b.yaml'']
      = Ok ([''/etc/iam''], [''/etc/iam/a.yaml'', ''/etc/iam/b.yaml''])"
    by code_simp
  from watches_every_config_file [OF s] s show ?thesis by blast
qed

end
