(* ===== verification/Tracing.thy ===== *)
theory Tracing
  imports Go_Strings
begin

text \<open>
  \<open>internal/tracing\<close>: carrying a trace context in a map or in message headers
  (\<open>propagation.go\<close>, \<open>nats_carrier.go\<close>) and the set-up of the OpenTelemetry providers
  (\<open>setup.go\<close>).
\<close>

section \<open>Carriers\<close>

text \<open>
  A propagator of OpenTelemetry uses a carrier only through its methods: it injects a context by
  setting entries, and extracts one from what \<open>Get\<close> answers. The context type is the library's.
\<close>

record 'ctx propagator =
  pg_entries :: "'ctx \<Rightarrow> (string \<times> string) list"
  pg_extract :: "(string \<Rightarrow> string) \<Rightarrow> 'ctx"
  pg_background :: 'ctx

locale text_map_carrier =
  fixes get :: "'c \<Rightarrow> string \<Rightarrow> string"
    and set_entry :: "string \<Rightarrow> string \<Rightarrow> 'c \<Rightarrow> 'c"
  assumes get_set: "get (set_entry k v c) x = (if x = k then v else get c x)"
begin

definition inject :: "(string \<times> string) list \<Rightarrow> 'c \<Rightarrow> 'c" where
  "inject es c = fold (\<lambda>(k, v). set_entry k v) es c"

lemma get_inject:
  "get (inject es c) x = (case map_of (rev es) x of Some v \<Rightarrow> v | None \<Rightarrow> get c x)"
proof (induction es arbitrary: c)
  case (Cons e es)
  obtain k v where e: "e = (k, v)" by (cases e)
  have "inject (e # es) c = inject es (set_entry k v c)" by (simp add: inject_def e)
  with Cons.IH [of "set_entry k v c"] show ?case
    by (cases "map_of (rev es) x") (simp_all add: e get_set map_add_def)
qed (simp add: inject_def)

end

text \<open>\<open>mapCarrier\<close>: a Go map; a missing key reads as the empty string.\<close>

definition mapCarrier_Get :: "(string \<times> string) list \<Rightarrow> string \<Rightarrow> string" where
  "mapCarrier_Get c k = (case mget c k of Some v \<Rightarrow> v | None \<Rightarrow> [])"

definition mapCarrier_Set :: "string \<Rightarrow> string \<Rightarrow> (string \<times> string) list \<Rightarrow> (string \<times> string) list" where
  "mapCarrier_Set k v c = mput k v c"

definition mapCarrier_Keys :: "(string \<times> string) list \<Rightarrow> string list" where
  "mapCarrier_Keys c = map fst c"

interpretation map_carrier: text_map_carrier mapCarrier_Get mapCarrier_Set
  by unfold_locales (simp add: mapCarrier_Get_def mapCarrier_Set_def)

definition ExtractFromTraceparent :: "'ctx propagator \<Rightarrow> string \<Rightarrow> 'ctx" where
  "ExtractFromTraceparent pg traceparent =
     (if traceparent = [] then pg_background pg
      else pg_extract pg (mapCarrier_Get (mapCarrier_Set ''traceparent'' traceparent [])))"

lemma ExtractFromTraceparent_reads:
  "traceparent \<noteq> [] \<Longrightarrow>
   ExtractFromTraceparent pg traceparent = pg_extract pg (\<lambda>k. if k = ''traceparent'' then traceparent else [])"
proof -
  assume "traceparent \<noteq> []"
  moreover have "mapCarrier_Get (mapCarrier_Set ''traceparent'' traceparent []) =
      (\<lambda>k. if k = ''traceparent'' then traceparent else [])"
    by (rule ext) (simp add: mapCarrier_Set_def mapCarrier_Get_def)
  ultimately show ?thesis by (simp add: ExtractFromTraceparent_def)
qed

text \<open>
  \<open>NATSHeaderCarrier\<close> forwards to the methods of \<open>nats.Header\<close>, whose representation and
  treatment of keys are the library's.
\<close>

record 'h header_ops =
  hd_empty :: 'h
  hd_get :: "'h \<Rightarrow> string \<Rightarrow> string"
  hd_set :: "string \<Rightarrow> string \<Rightarrow> 'h \<Rightarrow> 'h"

text \<open>\<open>Keys\<close> ranges over the header's entries, its values being lists of strings.\<close>

definition NATSHeaderCarrier_Keys :: "(string \<times> string list) list \<Rightarrow> string list" where
  "NATSHeaderCarrier_Keys c = map fst c"

definition InjectTraceContext :: "'h header_ops \<Rightarrow> 'ctx propagator \<Rightarrow> 'ctx \<Rightarrow> 'h option \<Rightarrow> 'h" where
  "InjectTraceContext ho pg ctx headers =
     fold (\<lambda>(k, v). hd_set ho k v) (pg_entries pg ctx)
       (case headers of None \<Rightarrow> hd_empty ho | Some h \<Rightarrow> h)"

definition ExtractTraceContext :: "'h header_ops \<Rightarrow> 'ctx propagator \<Rightarrow> 'h option \<Rightarrow> 'ctx" where
  "ExtractTraceContext ho pg headers =
     (case headers of None \<Rightarrow> pg_background pg | Some h \<Rightarrow> pg_extract pg (hd_get ho h))"

lemma extract_inject:
  assumes "text_map_carrier (hd_get ho) (hd_set ho)"
  shows "ExtractTraceContext ho pg (Some (InjectTraceContext ho pg ctx (Some h))) =
    pg_extract pg (\<lambda>k. case map_of (rev (pg_entries pg ctx)) k of Some v \<Rightarrow> v | None \<Rightarrow> hd_get ho h k)"
proof -
  have "hd_get ho (InjectTraceContext ho pg ctx (Some h)) =
      (\<lambda>k. case map_of (rev (pg_entries pg ctx)) k of Some v \<Rightarrow> v | None \<Rightarrow> hd_get ho h k)"
    using text_map_carrier.get_inject [OF assms]
    by (auto simp: InjectTraceContext_def text_map_carrier.inject_def [OF assms])
  then show ?thesis by (simp add: ExtractTraceContext_def)
qed

section \<open>Setup\<close>

datatype provider = TracerProvider | LoggerProvider

datatype exporter = OtlpGrpc | Console | GivenExporter

text \<open>The global registrations of the SDK, in the order they are made.\<close>

datatype global_effect =
    SetErrorHandler
  | SetTracerProvider exporter
  | SetTextMapPropagator
  | SetLoggerProvider

text \<open>The environment variables, and what the SDK's constructors answer.\<close>

record otel_env =
  oe_endpoint :: string
  oe_traces_exporter :: string
  oe_environment :: string
  oe_resource :: "(string \<times> string) list \<Rightarrow> unit result"
  oe_otlp_trace :: "unit result"
  oe_stdout_trace :: "unit result"
  oe_otlp_log :: "unit result"

text \<open>What \<open>Setup\<close> returns: the providers its shutdown function closes, and whether there is a log core.\<close>

record otel_result =
  or_providers :: "provider list"
  or_zap_core :: bool

definition resource_attributes :: "otel_env \<Rightarrow> string \<Rightarrow> string \<Rightarrow> (string \<times> string) list" where
  "resource_attributes env serviceName serviceVersion =
     [(''service.name'', serviceName), (''service.version'', serviceVersion), (''telemetry.sdk.language'', ''go'')]
     @ (if oe_environment env \<noteq> [] then [(''deployment.environment'', oe_environment env)] else [])"

definition Setup :: "otel_env \<Rightarrow> string \<Rightarrow> string \<Rightarrow> otel_result result \<times> global_effect list" where
  "Setup env serviceName serviceVersion =
     (if oe_endpoint env = [] \<and> oe_traces_exporter env \<noteq> ''console'' then
        (Ok \<lparr>or_providers = [], or_zap_core = False\<rparr>, [SetErrorHandler])
      else
        (case oe_resource env (resource_attributes env serviceName serviceVersion) of
           Inl e \<Rightarrow> (Err (Wrapped ''failed to create OTel resource'' e), [SetErrorHandler])
         | Inr _ \<Rightarrow>
             (case (if oe_endpoint env \<noteq> [] then oe_otlp_trace env else oe_stdout_trace env) of
                Inl e \<Rightarrow>
                  (Err (Wrapped (if oe_endpoint env \<noteq> [] then ''failed to create OTLP trace exporter''
                                 else ''failed to create stdout trace exporter'') e), [SetErrorHandler])
              | Inr _ \<Rightarrow>
                  let traces = [SetErrorHandler,
                                SetTracerProvider (if oe_endpoint env \<noteq> [] then OtlpGrpc else Console),
                                SetTextMapPropagator] in
                  if oe_endpoint env \<noteq> [] \<and> oe_otlp_log env = Ok ()
                  then (Ok \<lparr>or_providers = [TracerProvider, LoggerProvider], or_zap_core = True\<rparr>,
                        traces @ [SetLoggerProvider])
                  else (Ok \<lparr>or_providers = [TracerProvider], or_zap_core = False\<rparr>, traces))))"

text \<open>The shutdown function, given what closing each provider answers.\<close>

definition provider_name :: "provider \<Rightarrow> string" where
  "provider_name p = (case p of TracerProvider \<Rightarrow> ''trace provider'' | LoggerProvider \<Rightarrow> ''log provider'')"

definition shutdown_errors :: "otel_result \<Rightarrow> (provider \<Rightarrow> unit result) \<Rightarrow> go_error list" where
  "shutdown_errors r close =
     concat (map (\<lambda>p. case close p of Inl e \<Rightarrow> [Wrapped (provider_name p) e] | Inr _ \<Rightarrow> []) (or_providers r))"

definition Shutdown :: "otel_result \<Rightarrow> (provider \<Rightarrow> unit result) \<Rightarrow> unit result" where
  "Shutdown r close =
     (if shutdown_errors r close = [] then Ok () else Err (Wrapped ''OTel shutdown errors'' (Joined (shutdown_errors r close))))"

text \<open>
  \<open>SetupWithExporter\<close> looks at no environment variable; what it returns is the \<open>Shutdown\<close> method of
  the provider it installed.
\<close>

definition SetupWithExporter :: "otel_env \<Rightarrow> string \<Rightarrow> string \<Rightarrow> provider result \<times> global_effect list" where
  "SetupWithExporter env serviceName serviceVersion =
     (case oe_resource env
             [(''service.name'', serviceName), (''service.version'', serviceVersion), (''telemetry.sdk.language'', ''go'')] of
        Inl e \<Rightarrow> (Err (Wrapped ''failed to create OTel resource'' e), [])
      | Inr _ \<Rightarrow> (Ok TracerProvider, [SetTracerProvider GivenExporter, SetTextMapPropagator]))"

text \<open>
  Without an endpoint and without the console exporter nothing is installed but the
  error handler; otherwise a result means that a tracer provider and a propagator are installed,
  with the OTLP exporter exactly when there is an endpoint. Log export is bridged only with an
  endpoint, and its failure is not an error. Closing succeeds only if every provider installed by
  this call closes.
\<close>

lemma setup_installs_by_environment:
  "(oe_endpoint env = [] \<and> oe_traces_exporter env \<noteq> ''console'' \<longrightarrow>
      Setup env n v = (Ok \<lparr>or_providers = [], or_zap_core = False\<rparr>, [SetErrorHandler]))
   \<and> (case Setup env n v of
        (Inl e, eff) \<Rightarrow> eff = [SetErrorHandler]
      | (Inr r, eff) \<Rightarrow>
          (or_zap_core r \<longleftrightarrow> SetLoggerProvider \<in> set eff)
          \<and> (SetTracerProvider OtlpGrpc \<in> set eff \<longleftrightarrow> oe_endpoint env \<noteq> [])
          \<and> (or_zap_core r \<longrightarrow> oe_endpoint env \<noteq> [])
          \<and> (or_providers r \<noteq> [] \<longleftrightarrow> SetTextMapPropagator \<in> set eff)
          \<and> (Shutdown r close = Ok () \<longleftrightarrow> (\<forall>p\<in>set (or_providers r). close p = Ok ())))"
proof -
  have closes: "Shutdown r close = Ok () \<longleftrightarrow> (\<forall>p\<in>set (or_providers r). close p = Ok ())" for r
  proof -
    have "shutdown_errors r close = [] \<longleftrightarrow> (\<forall>p\<in>set (or_providers r). close p = Ok ())"
      by (auto simp: shutdown_errors_def split: sum.splits)
    then show ?thesis by (simp add: Shutdown_def)
  qed
  show ?thesis
    unfolding closes by (auto simp: Setup_def Let_def split: sum.split)
qed

end
