(* ===== verification/Auth_Service.thy ===== *)
theory Auth_Service
  imports Auth_Callback_Properties Config_Watcher Tracing
begin

text \<open>
  The micro-service endpoint, \<open>internal/broker/auth_service.go\<close>: decrypting and decoding a
  request, calling the handler, validating and signing the claims, and answering. A handler is
  known to the service only by the contract of the locale \<open>auth_handler\<close>, which the callback
  handler of \<open>Auth_Callback\<close> fulfils.
\<close>

section \<open>Signing\<close>

definition ValidateAndSign ::
  "jwt_lib \<Rightarrow> user_claims option \<Rightarrow> nkey \<Rightarrow> user_account_info option \<Rightarrow> string result outcome" where
  "ValidateAndSign jw claims kp accountInfo =
     (case claims of
        None \<Rightarrow> Done (Err NilClaims)
      | Some c \<Rightarrow>
          (case kp of
             None \<Rightarrow> Done (Err NilKeyPair)
           | Some k \<Rightarrow>
               bind_outcome (determineSigningKeyType c (Some k) accountInfo)
                 (\<lambda>r. case r of
                    Inl e \<Rightarrow> Done (Err e)
                  | Inr _ \<Rightarrow> if jw_validate jw c \<noteq> [] then Done (Err (Joined (jw_validate jw c)))
                            else Done (jw_encode_user jw c k))))"

section \<open>The service\<close>

text \<open>A request of the micro framework: its data and its \<open>Nats-Server-Xkey\<close> header.\<close>

record micro_request =
  mr_data :: string
  mr_xkey :: string

datatype reply = ReplyError string string | ReplyData string | ReplyNil

record auth_service =
  as_serviceAccountKey :: nkey
  as_encryptionKey :: nkey

type_synonym 'p auth_handler_fn = "auth_request \<Rightarrow> 'p request_state \<Rightarrow> (grant_answer \<times> 'p request_state) outcome"

definition request_error :: "string \<Rightarrow> 'p request_state \<Rightarrow> 'p request_state" where
  "request_error stage = with_metrics (\<lambda>m. m\<lparr>RequestErrors := inc [stage] (RequestErrors m)\<rparr>)"

definition response_error :: "string \<Rightarrow> 'p request_state \<Rightarrow> 'p request_state" where
  "response_error stage = with_metrics (\<lambda>m. m\<lparr>ResponseErrors := inc [stage] (ResponseErrors m)\<rparr>)"

definition response_for :: "jwt_lib \<Rightarrow> string \<Rightarrow> string \<Rightarrow> string \<Rightarrow> go_error option \<Rightarrow> response_claims" where
  "response_for jw userNKey serverID userJwt err =
     \<lparr>rc_Subject = userNKey, rc_Audience = serverID, rc_Jwt = userJwt,
      rc_Error = (case err of None \<Rightarrow> [] | Some e \<Rightarrow> jw_error_text jw e)\<rparr>"

text \<open>A response that cannot be signed is sent as the empty text.\<close>

definition Respond ::
  "jwt_lib \<Rightarrow> auth_service \<Rightarrow> micro_request \<Rightarrow> string \<Rightarrow> string \<Rightarrow> string \<Rightarrow> go_error option
   \<Rightarrow> 'p request_state \<Rightarrow> (reply \<times> 'p request_state) outcome" where
  "Respond jw a req userNKey serverID userJwt err s =
     (case (case jw_encode_response jw (response_for jw userNKey serverID userJwt err) (as_serviceAccountKey a) of
              Inl e \<Rightarrow> ([], response_error StageSign s)
            | Inr token \<Rightarrow> (token, s)) of
        (data, s1) \<Rightarrow>
          if mr_xkey req \<noteq> [] then
            (case as_encryptionKey a of
               None \<Rightarrow> Panic NilDereference
             | Some k \<Rightarrow>
                 (case kp_Seal k data (mr_xkey req) of
                    Inl e \<Rightarrow> Done (ReplyNil, response_error StageEncrypt s1)
                  | Inr sealed \<Rightarrow> Done (ReplyData sealed, s1)))
          else Done (ReplyData data, s1))"

definition handle_token ::
  "jwt_lib \<Rightarrow> auth_service \<Rightarrow> 'p auth_handler_fn \<Rightarrow> micro_request \<Rightarrow> string
   \<Rightarrow> 'p request_state \<Rightarrow> (reply \<times> 'p request_state) outcome" where
  "handle_token jw a handler req token s =
     (case jw_decode_request jw token of
        Inl e \<Rightarrow> Done (ReplyError ''500'' (jw_error_text jw e), request_error StageDecode s)
      | Inr rc \<Rightarrow>
          bind_outcome (handler rc s)
            (\<lambda>(r, s1). case r of
               Inl e \<Rightarrow> Respond jw a req (ar_UserNkey rc) (ar_ServerID rc) [] (Some e) s1
             | Inr (claims, sk, accountInfo) \<Rightarrow>
                 bind_outcome (ValidateAndSign jw (Some claims) sk (Some accountInfo))
                   (\<lambda>signed. case signed of
                      Inl e \<Rightarrow> Respond jw a req (ar_UserNkey rc) (ar_ServerID rc) [] (Some e) (response_error StageSign s1)
                    | Inr signedToken \<Rightarrow> Respond jw a req (ar_UserNkey rc) (ar_ServerID rc) signedToken None s1)))"

definition Handle ::
  "jwt_lib \<Rightarrow> auth_service \<Rightarrow> 'p auth_handler_fn \<Rightarrow> micro_request \<Rightarrow> 'p request_state
   \<Rightarrow> (reply \<times> 'p request_state) outcome" where
  "Handle jw a handler inRequest s =
     (if mr_xkey inRequest \<noteq> [] then
        (case as_encryptionKey a of
           None \<Rightarrow> Done (ReplyError ''500'' ''xkey not supported'', request_error StageDecrypt s)
         | Some k \<Rightarrow>
             (case kp_Open k (mr_data inRequest) (mr_xkey inRequest) of
                Inl e \<Rightarrow> Done (ReplyError ''500'' (''error decrypting message: '' @ jw_error_text jw e), request_error StageDecrypt s)
              | Inr token \<Rightarrow> handle_token jw a handler inRequest token s))
      else handle_token jw a handler inRequest (mr_data inRequest) s)"

text \<open>The trace context of a request, from the token request its client sent.\<close>

definition extractTraceContext :: "'ctx propagator \<Rightarrow> auth_request \<Rightarrow> 'ctx" where
  "extractTraceContext pg rc =
     (let raw = (if ar_Token rc = [] then ar_Password rc else ar_Token rc) in
      if raw \<noteq> [] then
        (case unmarshal_token_request raw of
           (tokenReq, None) \<Rightarrow> if tr_Traceparent tokenReq \<noteq> [] then ExtractFromTraceparent pg (tr_Traceparent tokenReq)
                              else pg_background pg
         | (_, Some e) \<Rightarrow> pg_background pg)
      else pg_background pg)"

section \<open>The contract of a handler\<close>

text \<open>The key is the account's own, or one that its configuration names as its signing key.\<close>

definition key_of_account :: "keypair \<Rightarrow> user_account_info \<Rightarrow> bool" where
  "key_of_account k info \<longleftrightarrow>
     (\<exists>pub. kp_PublicKey k = Ok pub
        \<and> (pub = ua_PublicKey info
           \<or> (\<exists>ak. ua_SigningNKey info = Some ak \<and> kp_PublicKey ak = Ok pub)))"

lemma determine_Ok:
  "determineSigningKeyType c (Some k) (Some info) = Done (Ok sk) \<Longrightarrow> uc_IssuerAccount c = ua_PublicKey info \<Longrightarrow>
   key_of_account k info \<and> kp_PublicKey k = Ok (sk_PublicKey sk)"
  by (auto simp: determineSigningKeyType_def key_of_account_def split: sum.splits if_splits option.splits)

lemma ValidateAndSign_Ok:
  assumes "ValidateAndSign jw (Some c) kp (Some info) = Done (Ok t)" and "uc_IssuerAccount c = ua_PublicKey info"
  shows "\<exists>k. kp = Some k \<and> key_of_account k info \<and> jw_validate jw c = [] \<and> jw_encode_user jw c k = Ok t"
proof (cases kp)
  case None
  with assms show ?thesis by (simp add: ValidateAndSign_def)
next
  case (Some k)
  with assms(1) obtain r where r: "determineSigningKeyType c (Some k) (Some info) = Done r"
    by (auto simp: ValidateAndSign_def dest!: bind_Done)
  show ?thesis
  proof (cases r)
    case (Inl e)
    with assms(1) Some r show ?thesis by (simp add: ValidateAndSign_def)
  next
    case (Inr sk)
    with assms Some r determine_Ok [of c k info sk] show ?thesis
      by (auto simp: ValidateAndSign_def split: if_splits)
  qed
qed

lemma determine_total: "\<exists>r. determineSigningKeyType c (Some k) info = Done r"
  by (auto simp: determineSigningKeyType_def split: sum.split option.split)

lemma ValidateAndSign_total: "\<exists>r. ValidateAndSign jw c kp info = Done r"
proof (cases c; cases kp)
  fix c' k assume c: "c = Some c'" "kp = Some k"
  obtain r where "determineSigningKeyType c' (Some k) info = Done r" using determine_total by blast
  with c show ?thesis by (cases r) (simp_all add: ValidateAndSign_def)
qed (simp_all add: ValidateAndSign_def)

lemma Respond_Done:
  assumes "Respond jw a req u sv t err s = Done (reply, s')"
  shows "(\<exists>data. data = (case jw_encode_response jw (response_for jw u sv t err) (as_serviceAccountKey a) of Inl _ \<Rightarrow> [] | Inr d \<Rightarrow> d)
      \<and> (if mr_xkey req = [] then reply = ReplyData data
         else \<exists>k. as_encryptionKey a = Some k
            \<and> reply = (case kp_Seal k data (mr_xkey req) of Inl _ \<Rightarrow> ReplyNil | Inr d \<Rightarrow> ReplyData d)))"
  using assms
  by (cases "jw_encode_response jw (response_for jw u sv t err) (as_serviceAccountKey a)")
    (auto simp: Respond_def split: if_splits option.splits sum.splits)

lemma Respond_state:
  "Respond jw a req u sv t err s = Done (reply, s') \<Longrightarrow>
   rq_published s' = rq_published s \<and> rq_cache s' = rq_cache s
   \<and> map_option (\<lambda>m. m\<lparr>ResponseErrors := no_counts\<rparr>) (rq_metrics s')
       = map_option (\<lambda>m. m\<lparr>ResponseErrors := no_counts\<rparr>) (rq_metrics s)"
  by (cases "rq_metrics s")
    (auto simp: Respond_def response_error_def with_metrics_def split: if_splits option.splits sum.splits)

text \<open>What becomes of a decoded request: it is refused, or its grant is signed and sent.\<close>

lemma handle_token_cases:
  assumes "handle_token jw a h req token s = Done (reply, s')" and "jw_decode_request jw token = Ok rc"
  obtains (refused) e s1 where "h rc s = Done (Err e, s1)"
      "Respond jw a req (ar_UserNkey rc) (ar_ServerID rc) [] (Some e) s1 = Done (reply, s')"
  | (unsigned) claims kp info s1 e where "h rc s = Done (Ok (claims, kp, info), s1)"
      "ValidateAndSign jw (Some claims) kp (Some info) = Done (Err e)"
      "Respond jw a req (ar_UserNkey rc) (ar_ServerID rc) [] (Some e) (response_error StageSign s1) = Done (reply, s')"
  | (granted) claims kp info s1 t where "h rc s = Done (Ok (claims, kp, info), s1)"
      "ValidateAndSign jw (Some claims) kp (Some info) = Done (Ok t)"
      "Respond jw a req (ar_UserNkey rc) (ar_ServerID rc) t None s1 = Done (reply, s')"
proof -
  obtain r s1 where h: "h rc s = Done (r, s1)"
    using assms by (cases "h rc s") (auto simp: handle_token_def)
  show thesis
  proof (cases r)
    case (Inl e)
    with assms h show ?thesis by (intro refused) (simp_all add: handle_token_def)
  next
    case (Inr g)
    obtain claims kp info where g: "g = (claims, kp, info)" by (metis prod.exhaust)
    obtain signed where v: "ValidateAndSign jw (Some claims) kp (Some info) = Done signed"
      using ValidateAndSign_total by blast
    show ?thesis
    proof (cases signed)
      case (Inl e)
      with assms h Inr g v show ?thesis by (intro unsigned) (simp_all add: handle_token_def)
    next
      case ok: (Inr t)
      with assms h Inr g v show ?thesis by (intro granted) (simp_all add: handle_token_def)
    qed
  qed
qed

text \<open>What the service relies on: a grant names its requester, its account and the account's key.\<close>

locale auth_handler =
  fixes handler :: "'p auth_handler_fn"
    and known_account :: "user_account_info \<Rightarrow> bool"
  assumes grant_names: "handler req s = Done (Ok (claims, kp, info), s') \<Longrightarrow>
    uc_Subject claims = ar_UserNkey req \<and> uc_IssuerAccount claims = ua_PublicKey info
    \<and> kp = ua_SigningNKey info \<and> known_account info"
begin

text \<open>The response sent for a decoded request: a refusal, or a token signed for its requester.\<close>

definition good_response :: "jwt_lib \<Rightarrow> auth_request \<Rightarrow> string \<Rightarrow> go_error option \<Rightarrow> bool" where
  "good_response jw rc userJwt err \<longleftrightarrow>
     (userJwt = [] \<and> err \<noteq> None)
     \<or> (err = None \<and> (\<exists>claims k info. jw_encode_user jw claims k = Ok userJwt \<and> jw_validate jw claims = []
          \<and> uc_Subject claims = ar_UserNkey rc \<and> uc_IssuerAccount claims = ua_PublicKey info
          \<and> known_account info \<and> key_of_account k info))"

lemma refusal_good: "good_response jw rc [] (Some e)"
  by (simp add: good_response_def)

lemma handle_token_response:
  assumes "handle_token jw a handler req token s = Done (reply, s')"
    and "jw_decode_request jw token = Ok rc"
  shows "\<exists>userJwt err s1. good_response jw rc userJwt err
    \<and> Respond jw a req (ar_UserNkey rc) (ar_ServerID rc) userJwt err s1 = Done (reply, s')"
  using assms
proof (cases rule: handle_token_cases)
  case (granted claims kp info s1 t)
  note n = grant_names [OF granted(1)]
  with ValidateAndSign_Ok [OF granted(2)] have "good_response jw rc t None"
    unfolding good_response_def by blast
  with granted(3) show ?thesis by blast
qed (use refusal_good in blast)+

end

text \<open>A handler that records each grant in what it publishes.\<close>

locale audited_handler = auth_handler handler known_account
  for handler :: "'p auth_handler_fn" and known_account :: "user_account_info \<Rightarrow> bool" +
  fixes audited :: "user_claims \<Rightarrow> (string \<times> audit_event) list \<Rightarrow> bool"
  assumes grant_audited: "handler req s = Done (Ok (claims, kp, info), s') \<Longrightarrow> audited claims (rq_published s')"
begin

definition audited_response ::
  "jwt_lib \<Rightarrow> auth_request \<Rightarrow> string \<Rightarrow> go_error option \<Rightarrow> (string \<times> audit_event) list \<Rightarrow> bool" where
  "audited_response jw rc userJwt err pub \<longleftrightarrow>
     (userJwt = [] \<and> err \<noteq> None)
     \<or> (err = None \<and> (\<exists>claims k info. jw_encode_user jw claims k = Ok userJwt \<and> jw_validate jw claims = []
          \<and> uc_Subject claims = ar_UserNkey rc \<and> uc_IssuerAccount claims = ua_PublicKey info
          \<and> known_account info \<and> key_of_account k info \<and> audited claims pub))"

lemma refusal_audited: "audited_response jw rc [] (Some e) pub"
  by (simp add: audited_response_def)

lemma handle_token_audited:
  assumes "handle_token jw a handler req token s = Done (reply, s')"
    and "jw_decode_request jw token = Ok rc"
  shows "\<exists>userJwt err s1. audited_response jw rc userJwt err (rq_published s')
    \<and> Respond jw a req (ar_UserNkey rc) (ar_ServerID rc) userJwt err s1 = Done (reply, s')"
  using assms
proof (cases rule: handle_token_cases)
  case (granted claims kp info s1 t)
  note n = grant_names [OF granted(1)] grant_audited [OF granted(1)]
  from Respond_state [OF granted(3)] have "rq_published s1 = rq_published s'" by simp
  with n ValidateAndSign_Ok [OF granted(2)] have "audited_response jw rc t None (rq_published s')"
    unfolding audited_response_def by fastforce
  with granted(3) show ?thesis by blast
qed (use refusal_audited in blast)+

end

text \<open>What an audit event says of a grant.\<close>

definition records_grant :: "audit_event \<Rightarrow> user_claims \<Rightarrow> bool" where
  "records_grant ev claims \<longleftrightarrow> ev_account ev = uc_Audience claims \<and> ev_account_pub_nkey ev = uc_IssuerAccount claims
     \<and> ev_user_pub_nkey ev = uc_Subject claims \<and> ev_permissions ev = uc_Permissions claims
     \<and> ev_limits ev = uc_Limits claims"

interpretation callback: auth_handler
  "\<lambda>req s. newAuthCallbackWithWatcher env vNow mNow w req s"
  "\<lambda>info. \<exists>name. lookupAccountInfo (sn_config (State w)) name = Ok info"
  for env :: "('t, 'p) broker_env" and vNow mNow :: int and w :: "('t, 'p) watcher"
  by unfold_locales (auto simp: newAuthCallbackWithWatcher_def Let_def dest: handle_granted)

interpretation audited_callback: audited_handler
  "\<lambda>req s. newAuthCallbackWithWatcher env vNow mNow w req s"
  "\<lambda>info. \<exists>name. lookupAccountInfo (sn_config (State w)) name = Ok info"
  "\<lambda>claims pub. \<exists>subj ev. (subj, ev) \<in> set pub \<and> records_grant ev claims"
  for env :: "('t, 'p) broker_env" and vNow mNow :: int and w :: "('t, 'p) watcher"
proof
  fix req claims kp info
  fix s s' :: "'p request_state"
  assume "newAuthCallbackWithWatcher env vNow mNow w req s = Done (Ok (claims, kp, info), s')"
  then have "handleAuthRequest env vNow mNow (State w) req s = Done (Ok (claims, kp, info), s')"
    by (simp add: newAuthCallbackWithWatcher_def Let_def)
  from audit_of_answer [OF this] obtain subj ev where
    "rq_published s' = rq_published s @ [(subj, ev)]" "records_grant ev claims"
    by (auto simp: records_grant_def)
  then show "\<exists>subj ev. (subj, ev) \<in> set (rq_published s') \<and> records_grant ev claims" by auto
qed

section \<open>Properties\<close>

definition plain_token :: "auth_service \<Rightarrow> micro_request \<Rightarrow> string result" where
  "plain_token a req =
     (if mr_xkey req = [] then Ok (mr_data req)
      else case as_encryptionKey a of None \<Rightarrow> Err NilKeyPair | Some k \<Rightarrow> kp_Open k (mr_data req) (mr_xkey req))"

lemma Handle_plain:
  "plain_token a req = Ok token \<Longrightarrow> Handle jw a h req s = handle_token jw a h req token s"
  by (auto simp: plain_token_def Handle_def split: if_splits option.splits)

text \<open>
  Property C3. Every answer to a request that decodes is a signed response addressed to the
  requesting user and server, and it holds either no token but an error, or a token that was
  validated, is issued to this user for an account of the live configuration, and is signed by that
  account's key or its declared signing key.
\<close>

theorem response_is_refusal_or_signed_grant:
  assumes "Handle jw a (\<lambda>r s. newAuthCallbackWithWatcher env vNow mNow w r s) req s = Done (reply, s')"
    and "plain_token a req = Ok token" and "jw_decode_request jw token = Ok rc"
  shows "\<exists>userJwt err data.
    data = (case jw_encode_response jw (response_for jw (ar_UserNkey rc) (ar_ServerID rc) userJwt err) (as_serviceAccountKey a) of
              Inl _ \<Rightarrow> [] | Inr d \<Rightarrow> d)
    \<and> (if mr_xkey req = [] then reply = ReplyData data
       else \<exists>k. as_encryptionKey a = Some k
          \<and> reply = (case kp_Seal k data (mr_xkey req) of Inl _ \<Rightarrow> ReplyNil | Inr d \<Rightarrow> ReplyData d))
    \<and> (userJwt = [] \<and> err \<noteq> None
       \<or> err = None \<and> (\<exists>claims k info name. jw_encode_user jw claims k = Ok userJwt \<and> jw_validate jw claims = []
            \<and> uc_Subject claims = ar_UserNkey rc \<and> uc_IssuerAccount claims = ua_PublicKey info
            \<and> lookupAccountInfo (sn_config (State w)) name = Ok info \<and> key_of_account k info))"
proof -
  have "handle_token jw a (\<lambda>r s. newAuthCallbackWithWatcher env vNow mNow w r s) req token s = Done (reply, s')"
    using assms(1) unfolding Handle_plain [OF assms(2)] .
  from callback.handle_token_response [OF this assms(3), unfolded callback.good_response_def]
  obtain userJwt err s1 where
    g: "userJwt = [] \<and> err \<noteq> None
       \<or> err = None \<and> (\<exists>claims k info. jw_encode_user jw claims k = Ok userJwt \<and> jw_validate jw claims = []
            \<and> uc_Subject claims = ar_UserNkey rc \<and> uc_IssuerAccount claims = ua_PublicKey info
            \<and> (\<exists>name. lookupAccountInfo (sn_config (State w)) name = Ok info) \<and> key_of_account k info)"
    and r: "Respond jw a req (ar_UserNkey rc) (ar_ServerID rc) userJwt err s1 = Done (reply, s')"
    by (elim exE conjE)
  have g': "userJwt = [] \<and> err \<noteq> None
       \<or> err = None \<and> (\<exists>claims k info name. jw_encode_user jw claims k = Ok userJwt \<and> jw_validate jw claims = []
            \<and> uc_Subject claims = ar_UserNkey rc \<and> uc_IssuerAccount claims = ua_PublicKey info
            \<and> lookupAccountInfo (sn_config (State w)) name = Ok info \<and> key_of_account k info)"
    using g by (elim disjE) (simp only: simp_thms not_False_eq_True, blast)
  from Respond_Done [OF r] obtain data where
    d: "data = (case jw_encode_response jw (response_for jw (ar_UserNkey rc) (ar_ServerID rc) userJwt err) (as_serviceAccountKey a) of
              Inl _ \<Rightarrow> [] | Inr d \<Rightarrow> d)"
      "if mr_xkey req = [] then reply = ReplyData data
       else \<exists>k. as_encryptionKey a = Some k
          \<and> reply = (case kp_Seal k data (mr_xkey req) of Inl _ \<Rightarrow> ReplyNil | Inr d \<Rightarrow> ReplyData d)"
    by (elim exE conjE)
  show ?thesis
    by (intro exI [of _ userJwt] exI [of _ err] exI [of _ data] conjI) (rule d g')+
qed

definition sample_service :: auth_service where
  "sample_service = \<lparr>as_serviceAccountKey = Some (sample_key ''AMINT''), as_encryptionKey = None\<rparr>"

definition sample_micro :: micro_request where
  "sample_micro = \<lparr>mr_data = ''request'', mr_xkey = []\<rparr>"

definition sample_watcher :: "(string, string) watcher" where
  "sample_watcher = NewConfigWatcher 0 sample_snapshot"

lemma sample_handled_from:
  assumes "sn_idpVerifiers (State w) = [(sample_verifier, sample_idp)]"
    and "sn_config (State w) = sample_config StrategyStrict"
    and "cm_baseConfig (sn_configManager (State w)) = sample_config StrategyStrict"
    and "rq_cache s0 = Some []"
  shows "\<exists>data s'. Handle sample_jwt sample_service
     (\<lambda>r s. newAuthCallbackWithWatcher sample_broker_env (1100 * second) (1100 * second) w r s)
     sample_micro s0 = Done (ReplyData data, s')"
proof -
  obtain claims s1 where h: "handleAuthRequest sample_broker_env (1100 * second) (1100 * second) (State w)
      sample_request s0 = Done (Ok (claims, Some (sample_key ''ASALES''), sales_info), s1)"
    using sample_granted_from [OF assms] by blast
  obtain r where v: "ValidateAndSign sample_jwt (Some claims) (Some (sample_key ''ASALES'')) (Some sales_info) = Done r"
    using ValidateAndSign_total by blast
  have resp: "\<exists>data s'. Respond sample_jwt sample_service sample_micro u sv t e s = Done (ReplyData data, s')"
    for u sv t e and s :: "string request_state"
    by (simp add: Respond_def sample_micro_def split: sum.split)
  have "mr_xkey sample_micro = []" "jw_decode_request sample_jwt d = Ok sample_request" for d
    by (simp_all add: sample_micro_def sample_jwt_def)
  then show ?thesis
    using h v resp by (cases r) (simp_all add: Handle_def handle_token_def newAuthCallbackWithWatcher_def)
qed

lemma sample_handled:
  "\<exists>data s'. Handle sample_jwt sample_service
     (\<lambda>r s. newAuthCallbackWithWatcher sample_broker_env (1100 * second) (1100 * second) sample_watcher r s)
     sample_micro sample_state = Done (ReplyData data, s')"
  by (rule sample_handled_from)
    (simp_all add: State_def sample_watcher_def NewConfigWatcher_def sample_snapshot_def sample_manager_def sample_state_def)

theorem response_is_refusal_or_signed_grant_witness:
  "\<exists>data. (\<exists>s'. Handle sample_jwt sample_service
     (\<lambda>r s. newAuthCallbackWithWatcher sample_broker_env (1100 * second) (1100 * second) sample_watcher r s)
     sample_micro sample_state = Done (ReplyData data, s'))"
proof -
  obtain reply s' where h: "Handle sample_jwt sample_service
     (\<lambda>r s. newAuthCallbackWithWatcher sample_broker_env (1100 * second) (1100 * second) sample_watcher r s)
     sample_micro sample_state = Done (reply, s')" using sample_handled by fast
  have "plain_token sample_service sample_micro = Ok ''request''" "mr_xkey sample_micro = []"
    "jw_decode_request sample_jwt ''request'' = Ok sample_request"
    by (simp_all add: plain_token_def sample_micro_def sample_jwt_def)
  from response_is_refusal_or_signed_grant [OF h this(1,3)] this(2)
  obtain data where "reply = ReplyData data" by (auto simp: if_True)
  with h show ?thesis by blast
qed

text \<open>
  Property C13. A request that cannot be read is answered with error 500 and counted at its stage,
  without the handler being asked: no encryption key for an encrypted request, a text that does not
  decrypt, or one that does not decode.
\<close>

theorem unreadable_requests_are_refused:
  assumes "case plain_token a req of Inl _ \<Rightarrow> True | Inr token \<Rightarrow> \<exists>e. jw_decode_request jw token = Err e"
  shows "\<exists>text stage. stage \<in> {StageDecrypt, StageDecode}
    \<and> (stage = StageDecrypt \<longleftrightarrow> (\<exists>e. plain_token a req = Err e))
    \<and> Handle jw a h req s = Done (ReplyError ''500'' text, request_error stage s)"
proof -
  have d: "StageDecrypt \<noteq> StageDecode" by (simp add: stage_defs)
  show ?thesis
  proof (cases "plain_token a req")
    case (Inl e)
    then have "mr_xkey req \<noteq> []" by (auto simp: plain_token_def split: if_splits)
    with Inl show ?thesis
      by (intro exI [of _ "case as_encryptionKey a of None \<Rightarrow> ''xkey not supported''
            | Some k \<Rightarrow> ''error decrypting message: '' @ jw_error_text jw e"] exI [of _ StageDecrypt])
        (auto simp: plain_token_def Handle_def split: option.splits)
  next
    case (Inr token)
    with assms obtain e where "jw_decode_request jw token = Err e" by auto
    with Inr d show ?thesis
      by (intro exI [of _ "jw_error_text jw e"] exI [of _ StageDecode])
        (simp add: Handle_plain handle_token_def)
  qed
qed

theorem unreadable_requests_are_refused_witness:
  "\<exists>text. Handle sample_jwt sample_service (\<lambda>r s. Panic NilDereference) \<lparr>mr_data = [], mr_xkey = ''X''\<rparr> sample_state
     = Done (ReplyError ''500'' text, request_error StageDecrypt sample_state)"
proof -
  have p: "plain_token sample_service \<lparr>mr_data = [], mr_xkey = ''X''\<rparr> = Err NilKeyPair"
    by (simp add: plain_token_def sample_service_def)
  then have "case plain_token sample_service \<lparr>mr_data = [], mr_xkey = ''X''\<rparr> of Inl _ \<Rightarrow> True
      | Inr token \<Rightarrow> \<exists>e. jw_decode_request sample_jwt token = Err e" by simp
  from unreadable_requests_are_refused [OF this, of "\<lambda>r s. Panic NilDereference" sample_state] p
  show ?thesis by auto
qed


definition sealing_service :: auth_service where
  "sealing_service = sample_service\<lparr>as_encryptionKey :=
     Some ((sample_key ''X'')\<lparr>kp_Seal := (\<lambda>d k. Ok (''sealed for '' @ k))\<rparr>)\<rparr>"


text \<open>
  The success of a request is counted, and its audit event published, by the handler, before the
  claims are signed: a grant that cannot be signed counts as a success and as a signing error.
\<close>

lemma unsigned_grant_still_counted:
  assumes "jw_decode_request jw (mr_data req) = Ok rc" and "mr_xkey req = []"
    and "h rc s = Done (Ok (claims, kp, info), s1)"
    and "ValidateAndSign jw (Some claims) kp (Some info) = Done (Err e)"
  shows "Handle jw a h req s = Respond jw a req (ar_UserNkey rc) (ar_ServerID rc) [] (Some e) (response_error StageSign s1)"
  using assms by (simp add: Handle_def handle_token_def)

end
