(* ===== verification/Server_Start.thy ===== *)
theory Server_Start
  imports Auth_Service
begin

text \<open>
  Start-up and shut-down of the broker, \<open>StartWithContext\<close> of \<open>internal/broker/server.go\<close>: the
  order of the stages, which of them fail and which are only warned about, the deferred clean-up in
  reverse order, and the health state on the way. Blocking until the context ends is the effect
  \<open>Serving\<close>; what the connection's later callbacks do to the health state is \<open>nats_callback\<close>.
\<close>

datatype start_effect =
    LoggingSetup log_level bool
  | OtelSetup string string
  | TeeLogs
  | MetricsStart int
  | NatsConnect string "string list" string
  | WatcherStart
  | AddService string string string
  | Serving
  | WatcherStop
  | NatsDrain
  | MetricsStop
  | OtelShutdown

text \<open>What the environment answers during start-up; \<open>se_connected\<close> is the new connection's state.\<close>

record start_env =
  se_env_version :: string
  se_build_version :: string
  se_otel :: otel_env
  se_connect :: "unit result"
  se_connected :: bool
  se_new_provider :: "string \<Rightarrow> oidc_provider result"
  se_new_watcher :: "unit result"
  se_watch_dir :: "string \<Rightarrow> unit result"
  se_add_service :: "unit result"

text \<open>
  A run collects its effects, its deferred calls (the latest first), the updates of the health
  checker, and the watcher and the service it ended up serving with; ending it runs the deferred calls.
\<close>

record ('t, 'p) run =
  rn_trace :: "start_effect list"
  rn_defers :: "start_effect list"
  rn_health :: "health_event list"
  rn_serving :: "(('t, 'p) watcher \<times> auth_service) option"

definition effect :: "start_effect \<Rightarrow> ('t, 'p) run \<Rightarrow> ('t, 'p) run" where
  "effect e r = r\<lparr>rn_trace := rn_trace r @ [e]\<rparr>"

definition acquire :: "start_effect \<Rightarrow> start_effect \<Rightarrow> ('t, 'p) run \<Rightarrow> ('t, 'p) run" where
  "acquire e release r = r\<lparr>rn_trace := rn_trace r @ [e], rn_defers := release # rn_defers r\<rparr>"

text \<open>There is a health checker only when metrics are enabled.\<close>

definition health :: "options \<Rightarrow> health_event \<Rightarrow> ('t, 'p) run \<Rightarrow> ('t, 'p) run" where
  "health serverOpts h r = (if MetricsEnabled serverOpts then r\<lparr>rn_health := rn_health r @ [h]\<rparr> else r)"

definition finish :: "unit result \<Rightarrow> ('t, 'p) run \<Rightarrow> unit result \<times> ('t, 'p) run" where
  "finish res r = (res, r\<lparr>rn_trace := rn_trace r @ rn_defers r, rn_defers := []\<rparr>)"

definition NewAuthService :: "nkey \<Rightarrow> nkey \<Rightarrow> auth_service" where
  "NewAuthService issuer xkey = \<lparr>as_serviceAccountKey = issuer, as_encryptionKey = xkey\<rparr>"

definition initial_state ::
  "config \<Rightarrow> ('t, 'p) config_manager \<Rightarrow> idp_verifier list \<Rightarrow> ('t, 'p) snapshot" where
  "initial_state c configManager idpVerifiers =
     \<lparr>sn_config = c, sn_configManager = configManager, sn_idpVerifiers = idpVerifiers,
      sn_auditSubject = sv_Name (cfg_Service c) @ audit_suffix\<rparr>"

text \<open>The stages from the identity providers on, with the NATS connection open; \<open>now\<close> is the clock.\<close>

definition start_service ::
  "start_env \<Rightarrow> config_env \<Rightarrow> int \<Rightarrow> string list \<Rightarrow> options \<Rightarrow> ('t, 'p) config_manager \<Rightarrow> config
   \<Rightarrow> ('t, 'p) run \<Rightarrow> unit result \<times> ('t, 'p) run" where
  "start_service se env now configFiles serverOpts configManager c r0 =
     (case NewIdpVerifiers (se_new_provider se) c of
        Inl e \<Rightarrow> finish (Err e) r0
      | Inr idpVerifiers \<Rightarrow>
          let r1 = health serverOpts (VerifiersReady (idpVerifiers \<noteq> [])) r0;
              watcher = NewConfigWatcher now (initial_state c configManager idpVerifiers);
              r2 = (if WatchConfig serverOpts
                    then (case watcher_Start (ce_fs env) (se_new_watcher se) (se_watch_dir se) configFiles of
                            Inl e \<Rightarrow> r1
                          | Inr _ \<Rightarrow> acquire WatcherStart WatcherStop r1)
                    else r1);
              auth = NewAuthService (sa_SigningNKey (sv_Account (cfg_Service c))) (serviceEncryptionXkey c)
          in case se_add_service se of
               Inl e \<Rightarrow> finish (Err e) r2
             | Inr _ \<Rightarrow>
                 finish (Ok ())
                   (effect Serving
                     ((health serverOpts (Registered True)
                       (effect (AddService (sv_Name (cfg_Service c))
                          (ResolveServiceVersion (se_env_version se) (se_build_version se) (sv_Version (cfg_Service c)))
                          ''$SYS.REQ.USER.AUTH'') r2))\<lparr>rn_serving := Some (watcher, auth)\<rparr>)))"

definition start_configured ::
  "start_env \<Rightarrow> config_env \<Rightarrow> int \<Rightarrow> string list \<Rightarrow> options \<Rightarrow> ('t, 'p) config_manager \<Rightarrow> config
   \<Rightarrow> ('t, 'p) run \<Rightarrow> unit result \<times> ('t, 'p) run" where
  "start_configured se env now configFiles serverOpts configManager c r0 =
     (let version = ResolveServiceVersion (se_env_version se) (se_build_version se) (sv_Version (cfg_Service c));
          r1 = (case fst (Setup (se_otel se) (sv_Name (cfg_Service c)) version) of
                  Inl e \<Rightarrow> r0
                | Inr otelResult \<Rightarrow>
                    (if or_zap_core otelResult then effect TeeLogs else id)
                      (acquire (OtelSetup (sv_Name (cfg_Service c)) version) OtelShutdown r0));
          r2 = (if MetricsEnabled serverOpts then acquire (MetricsStart (MetricsPort serverOpts)) MetricsStop r1 else r1)
      in case se_connect se of
           Inl e \<Rightarrow> finish (Err e) r2
         | Inr _ \<Rightarrow>
             start_service se env now configFiles serverOpts configManager c
               (health serverOpts (ConnSet (Some (se_connected se)))
                 (acquire (NatsConnect (nats_URL (cfg_NATS c)) (natsOptions c) (sv_Name (cfg_Service c))) NatsDrain r2)))"

definition no_run :: "('t, 'p) run" where
  "no_run = \<lparr>rn_trace = [], rn_defers = [], rn_health = [], rn_serving = None\<rparr>"

definition StartWithContext ::
  "'t template_engine \<Rightarrow> start_env \<Rightarrow> config_env \<Rightarrow> int \<Rightarrow> string list \<Rightarrow> options \<Rightarrow> (string \<Rightarrow> bool)
   \<Rightarrow> unit result \<times> ('t, 'p) run" where
  "StartWithContext te se env now configFiles cliOpts cliFlags =
     (case NewConfigManager te env configFiles of
        Inl e \<Rightarrow> (Err (Wrapped ''failed to initialize config manager'' e), no_run)
      | Inr configManager \<Rightarrow>
          let serverOpts = NewServerContext (Some (MergeOptions (ServerOptions configManager) cliOpts cliFlags));
              r = effect (LoggingSetup (parseLevel (LogLevel serverOpts)) (LogFormat serverOpts = ''human'')) no_run
          in case GetConfig te env configManager [] of
               Inl e \<Rightarrow> finish (Err e) r
             | Inr c \<Rightarrow> start_configured se env now configFiles serverOpts configManager c r)"

text \<open>\<open>Start\<close> is the same with a context that ends with the first interrupt: the end of \<open>Serving\<close>.\<close>

definition Start ::
  "'t template_engine \<Rightarrow> start_env \<Rightarrow> config_env \<Rightarrow> int \<Rightarrow> string list \<Rightarrow> options \<Rightarrow> (string \<Rightarrow> bool)
   \<Rightarrow> unit result \<times> ('t, 'p) run" where
  "Start te se env now configFiles cliOpts cliFlags = StartWithContext te se env now configFiles cliOpts cliFlags"

text \<open>The callbacks given to the connection, as updates of the health checker, if there is one.\<close>

datatype nats_event = NatsDisconnected "go_error option" | NatsReconnected | NatsClosed | NatsAsyncError go_error

primrec nats_callback :: "nats_event \<Rightarrow> health_event option" where
  "nats_callback (NatsDisconnected err) = Some (Connected False)"
| "nats_callback NatsReconnected = Some (Connected True)"
| "nats_callback NatsClosed = Some (Connected False)"
| "nats_callback (NatsAsyncError err) = None"

section \<open>Lemmas\<close>

text \<open>The clean-up that an effect calls for, and the clean-ups of a trace.\<close>

fun release_of :: "start_effect \<Rightarrow> start_effect option" where
  "release_of (OtelSetup n v) = Some OtelShutdown"
| "release_of (MetricsStart p) = Some MetricsStop"
| "release_of (NatsConnect u o' n) = Some NatsDrain"
| "release_of WatcherStart = Some WatcherStop"
| "release_of _ = None"

definition due :: "start_effect list \<Rightarrow> start_effect list" where
  "due tr = rev (map (the \<circ> release_of) (filter (\<lambda>e. release_of e \<noteq> None) tr))"

fun is_release :: "start_effect \<Rightarrow> bool" where
  "is_release WatcherStop = True"
| "is_release NatsDrain = True"
| "is_release MetricsStop = True"
| "is_release OtelShutdown = True"
| "is_release _ = False"

definition balanced :: "('t, 'p) run \<Rightarrow> bool" where
  "balanced r \<longleftrightarrow> rn_defers r = due (rn_trace r) \<and> (\<forall>e\<in>set (rn_trace r). \<not> is_release e)"

definition released :: "('t, 'p) run \<Rightarrow> bool" where
  "released r \<longleftrightarrow> (\<exists>tr. rn_trace r = tr @ due tr \<and> (\<forall>e\<in>set tr. \<not> is_release e))"

lemma balanced_no_run: "balanced no_run"
  by (simp add: balanced_def no_run_def due_def)

lemma balanced_serving: "balanced r \<Longrightarrow> balanced (r\<lparr>rn_serving := w\<rparr>)"
  by (simp add: balanced_def)

lemma balanced_effect: "balanced r \<Longrightarrow> release_of e = None \<Longrightarrow> \<not> is_release e \<Longrightarrow> balanced (effect e r)"
  by (auto simp: balanced_def effect_def due_def)

lemma balanced_acquire:
  "balanced r \<Longrightarrow> release_of e = Some f \<Longrightarrow> \<not> is_release e \<Longrightarrow> balanced (acquire e f r)"
  by (auto simp: balanced_def acquire_def due_def)

lemma balanced_health: "balanced r \<Longrightarrow> balanced (health o' h r)"
  by (simp add: balanced_def health_def)

lemma released_finish: "balanced r \<Longrightarrow> released (snd (finish res r))"
  by (auto simp: balanced_def finish_def released_def)

lemmas run_rules = balanced_no_run balanced_effect balanced_acquire balanced_health balanced_serving released_finish

lemma start_service_released: "balanced r \<Longrightarrow> released (snd (start_service se env now fs o' cm c r))"
  by (auto simp: start_service_def Let_def split: sum.split intro!: run_rules)

lemma start_configured_released: "balanced r \<Longrightarrow> released (snd (start_configured se env now fs o' cm c r))"
  by (auto simp: start_configured_def Let_def split: sum.split intro!: run_rules start_service_released)

lemma released_no_run: "released no_run"
  by (simp add: released_def no_run_def due_def)

lemma finish_fields [simp]:
  "fst (finish res r) = res" "rn_serving (snd (finish res r)) = rn_serving r" "rn_health (snd (finish res r)) = rn_health r"
  by (simp_all add: finish_def)

lemma step_fields [simp]:
  "rn_serving (effect e r) = rn_serving r" "rn_health (effect e r) = rn_health r"
  "rn_serving (acquire e f r) = rn_serving r" "rn_health (acquire e f r) = rn_health r"
  "rn_serving (health o' h r) = rn_serving r"
  "rn_health (health o' h r) = rn_health r @ (if MetricsEnabled o' then [h] else [])"
  by (simp_all add: effect_def acquire_def health_def)

lemma start_service_serving:
  "fst (start_service se env now fs o' cm c r) = Ok () \<longleftrightarrow>
     (\<exists>vs. NewIdpVerifiers (se_new_provider se) c = Ok vs) \<and> se_add_service se = Ok ()"
  "rn_serving r = None \<Longrightarrow>
   rn_serving (snd (start_service se env now fs o' cm c r)) = Some (w, a) \<longleftrightarrow>
     se_add_service se = Ok ()
     \<and> (\<exists>vs. NewIdpVerifiers (se_new_provider se) c = Ok vs \<and> w = NewConfigWatcher now (initial_state c cm vs))
     \<and> a = NewAuthService (sa_SigningNKey (sv_Account (cfg_Service c))) (serviceEncryptionXkey c)"
  by (auto simp: start_service_def Let_def split: sum.split)

lemma start_service_health:
  "NewIdpVerifiers (se_new_provider se) c = Ok vs \<Longrightarrow> se_add_service se = Ok () \<Longrightarrow>
   rn_health (snd (start_service se env now fs o' cm c r)) =
     rn_health r @ (if MetricsEnabled o' then [VerifiersReady (vs \<noteq> []), Registered True] else [])"
  by (auto simp: start_service_def Let_def split: sum.split)

lemma start_configured_connected:
  "se_connect se = Ok () \<Longrightarrow>
   \<exists>r'. start_configured se env now fs o' cm c r = start_service se env now fs o' cm c r'
     \<and> rn_serving r' = rn_serving r
     \<and> rn_health r' = rn_health r @ (if MetricsEnabled o' then [ConnSet (Some (se_connected se))] else [])"
  by (simp only: start_configured_def Let_def sum.case) (intro exI conjI, rule refl, auto split: sum.split)

lemma start_configured_refused:
  "se_connect se = Err e \<Longrightarrow> fst (start_configured se env now fs o' cm c r) = Err e
     \<and> rn_serving (snd (start_configured se env now fs o' cm c r)) = rn_serving r"
  by (simp add: start_configured_def Let_def split: sum.split)

lemma ready_code:
  "rs_code (server_route (Some (after [ConnSet (Some b), VerifiersReady v, Registered True])) ''/readyz'') =
     (if b \<and> v then 200 else 503)"
  by (simp add: server_route_def ReadinessHandler_def json_response_def IsReady_def after_def NewHealthChecker_def setter_defs)

text \<open>What it takes to serve with a watcher and a service, after the configuration has been read.\<close>

definition serves_with ::
  "start_env \<Rightarrow> int \<Rightarrow> options \<Rightarrow> ('t, 'p) config_manager \<Rightarrow> config \<Rightarrow> ('t, 'p) watcher \<times> auth_service
   \<Rightarrow> health_event list \<Rightarrow> bool" where
  "serves_with se now o' cm c wa hs \<longleftrightarrow>
     (\<exists>vs. se_connect se = Ok () \<and> NewIdpVerifiers (se_new_provider se) c = Ok vs \<and> se_add_service se = Ok ()
        \<and> wa = (NewConfigWatcher now (initial_state c cm vs),
                NewAuthService (sa_SigningNKey (sv_Account (cfg_Service c))) (serviceEncryptionXkey c))
        \<and> (MetricsEnabled o' \<longrightarrow>
             rs_code (server_route (Some (after hs)) ''/readyz'') = (if se_connected se \<and> vs \<noteq> [] then 200 else 503)))"

lemma start_configured_serving:
  assumes "start_configured se env now fs o' cm c r = (res, r')" and "rn_serving r = None" and "rn_health r = []"
  shows "(res = Ok () \<longleftrightarrow> rn_serving r' \<noteq> None)
    \<and> (\<forall>wa. rn_serving r' = Some wa \<longrightarrow> serves_with se now o' cm c wa (rn_health r'))"
proof (cases "se_connect se")
  case (Inl e)
  from start_configured_refused [OF Inl, of env now fs o' cm c r] assms show ?thesis by simp
next
  case (Inr u)
  then have yes: "se_connect se = Ok ()" by simp
  from start_configured_connected [OF yes, of env now fs o' cm c r] assms obtain r1 where
    r1: "start_service se env now fs o' cm c r1 = (res, r')" "rn_serving r1 = None"
    "rn_health r1 = (if MetricsEnabled o' then [ConnSet (Some (se_connected se))] else [])" by auto
  note serving = start_service_serving 
    [where se = se and env = env and now = now and fs = fs and o' = o' and cm = cm and c = c and r = r1,
      unfolded r1(1) fst_conv snd_conv]
  from serving(2) [OF r1(2)] have "res = Ok () \<longleftrightarrow> rn_serving r' \<noteq> None"
    unfolding serving(1) by fastforce
  moreover have "serves_with se now o' cm c (w, a) (rn_health r')" if "rn_serving r' = Some (w, a)" for w a
    using that start_service_health [where se = se and env = env and now = now and fs = fs and o' = o' and cm = cm
        and c = c and r = r1] r1 yes
    unfolding serving(2) [OF r1(2)] serves_with_def by (auto simp: ready_code)
  ultimately show ?thesis by auto
qed

section \<open>Properties\<close>

text \<open>
  Property C35. Whatever stage start-up stops at, and at the end of a normal run, each resource that
  was acquired (tracing, metrics server, NATS connection, file watcher) is released exactly once, in
  the reverse order, after everything else, and nothing is released that was not acquired.
\<close>

theorem startup_releases_in_reverse:
  "\<exists>tr. rn_trace (snd (StartWithContext te se env now files cliOpts cliFlags)) = tr @ due tr
     \<and> filter is_release tr = []"
proof -
  have "released (snd (StartWithContext te se env now files cliOpts cliFlags))"
    by (auto simp: StartWithContext_def Let_def released_no_run
        intro!: released_finish start_configured_released balanced_effect balanced_no_run
        split: sum.split)
  then show ?thesis by (auto simp: released_def filter_empty_conv)
qed

lemma started_serves:
  assumes "StartWithContext te se env now files cliOpts cliFlags = (res, r)"
  shows "(res = Ok () \<longleftrightarrow> rn_serving r \<noteq> None)
    \<and> (\<forall>w a. rn_serving r = Some (w, a) \<longrightarrow>
        (\<exists>cm c vs. NewConfigManager te env files = Ok cm \<and> GetConfig te env cm [] = Ok c
           \<and> se_connect se = Ok () \<and> NewIdpVerifiers (se_new_provider se) c = Ok vs \<and> se_add_service se = Ok ()
           \<and> w = NewConfigWatcher now (initial_state c cm vs)
           \<and> a = NewAuthService (sa_SigningNKey (sv_Account (cfg_Service c))) (serviceEncryptionXkey c)
           \<and> (MetricsEnabled (MergeOptions (ServerOptions cm) cliOpts cliFlags) \<longrightarrow>
                rs_code (server_route (Some (after (rn_health r))) ''/readyz'')
                  = (if se_connected se \<and> vs \<noteq> [] then 200 else 503))))"
proof (cases "NewConfigManager te env files :: ('a, 'b) config_manager result")
  case (Inl e)
  with assms show ?thesis by (auto simp: StartWithContext_def no_run_def)
next
  case (Inr cm)
  show ?thesis
  proof (cases "GetConfig te env cm []")
    case (Inl e)
    with assms Inr show ?thesis by (auto simp: StartWithContext_def Let_def finish_def effect_def no_run_def)
  next
    case ok: (Inr c)
    let ?o = "MergeOptions (ServerOptions cm) cliOpts cliFlags"
    let ?r0 = "effect (LoggingSetup (parseLevel (LogLevel ?o)) (LogFormat ?o = ''human'')) no_run :: ('a, 'b) run"
    from assms Inr ok have "start_configured se env now files ?o cm c ?r0 = (res, r)"
      by (simp add: StartWithContext_def Let_def NewServerContext_def)
    from start_configured_serving [OF this] Inr ok show ?thesis
      by (auto simp: serves_with_def no_run_def)
  qed
qed

text \<open>
  Property C34. The broker serves exactly when start-up does not fail, which means: the files load, the
  initial configuration is valid, NATS is connected, the verifiers are set up and the service is
  registered. It then serves from the state of this configuration, signs with the service account's
  key, and, where metrics are enabled, is ready exactly if the connection is up and there is a
  verifier.
\<close>

theorem serving_broker_is_configured:
  assumes "StartWithContext te se env now files cliOpts cliFlags = (res, r)"
  shows "(res = Ok () \<longleftrightarrow> rn_serving r \<noteq> None)
    \<and> (\<forall>w a. rn_serving r = Some (w, a) \<longrightarrow>
        (\<exists>cm c vs. NewConfigManager te env files = Ok cm \<and> GetConfig te env cm [] = Ok c
           \<and> se_connect se = Ok () \<and> NewIdpVerifiers (se_new_provider se) c = Ok vs \<and> se_add_service se = Ok ()
           \<and> w = NewConfigWatcher now (initial_state c cm vs)
           \<and> a = NewAuthService (sa_SigningNKey (sv_Account (cfg_Service c))) (serviceEncryptionXkey c)
           \<and> (MetricsEnabled (MergeOptions (ServerOptions cm) cliOpts cliFlags) \<longrightarrow>
                rs_code (server_route (Some (after (rn_health r))) ''/readyz'')
                  = (if se_connected se \<and> vs \<noteq> [] then 200 else 503))))"
  using assms by (rule started_serves)

text \<open>Tracing is asked for, and its collector cannot be reached.\<close>

definition sample_otel :: otel_env where
  "sample_otel = \<lparr>oe_endpoint = ''collector:4317'', oe_traces_exporter = [], oe_environment = [],
     oe_resource = (\<lambda>attrs. Ok ()), oe_otlp_trace = Err (ExtErr ''no collector''), oe_stdout_trace = Ok (),
     oe_otlp_log = Ok ()\<rparr>"

definition sample_start :: start_env where
  "sample_start = \<lparr>se_env_version = [], se_build_version = ''dev'', se_otel = sample_otel,
     se_connect = Ok (), se_connected = True, se_new_provider = (\<lambda>u. Ok sample_provider),
     se_new_watcher = Ok (), se_watch_dir = (\<lambda>d. Ok ()), se_add_service = Ok ()\<rparr>"

definition metrics_flag :: options where
  "metrics_flag = sample_options\<lparr>MetricsEnabled := True\<rparr>"

lemma sample_started:
  "fst (StartWithContext sample_templates sample_start sample_plain_env 0 [''base'', ''overlay''] metrics_flag
     (\<lambda>f. f = ''metrics'') :: unit result \<times> (string, string) run) = Ok ()"
proof -
  obtain cm :: "(string, string) config_manager" where
    cm: "NewConfigManager sample_templates sample_plain_env [''base'', ''overlay''] = Ok cm"
      "cm_baseConfig cm = sample_config StrategyStrict"
    using sample_new_manager by blast
  have c: "GetConfig sample_templates sample_plain_env cm [] = Ok (sample_config StrategyStrict)"
    by (rule sample_get_config_from) (rule cm(2))
  have "fst (start_configured sample_start sample_plain_env 0 fs o' cm (sample_config StrategyStrict) r) = Ok ()"
    for fs o' and r :: "(string, string) run"
  proof -
    have "se_connect sample_start = Ok ()" by (simp add: sample_start_def)
    from start_configured_connected [OF this, of sample_plain_env 0 fs o' cm "sample_config StrategyStrict" r]
    obtain r' where "start_configured sample_start sample_plain_env 0 fs o' cm (sample_config StrategyStrict) r =
        start_service sample_start sample_plain_env 0 fs o' cm (sample_config StrategyStrict) r'" by blast
    moreover have "NewIdpVerifiers (se_new_provider sample_start) (sample_config StrategyStrict)
        = Ok [(sample_verifier, sample_idp)]"
      by (simp add: sample_start_def sample_verifiers)
    ultimately show ?thesis by (simp add: start_service_serving(1)) (simp add: sample_start_def)
  qed
  with cm(1) c show ?thesis by (simp add: StartWithContext_def Let_def)
qed

theorem serving_broker_is_configured_witness:
  "\<exists>r w a. StartWithContext sample_templates sample_start sample_plain_env 0 [''base'', ''overlay''] metrics_flag
      (\<lambda>f. f = ''metrics'') = (Ok (), r :: (string, string) run)
    \<and> rn_serving r = Some (w, a) \<and> State w = ws_live w
    \<and> as_serviceAccountKey a = Some (sample_key ''AMINT'')
    \<and> rs_code (server_route (Some (after (rn_health r))) ''/readyz'') = 200"
proof -
  obtain r :: "(string, string) run" where
    r: "StartWithContext sample_templates sample_start sample_plain_env 0 [''base'', ''overlay''] metrics_flag
      (\<lambda>f. f = ''metrics'') = (Ok (), r)"
    using sample_started by (metis prod.collapse)
  note served = serving_broker_is_configured [OF r]
  then obtain w a where wa: "rn_serving r = Some (w, a)" by auto
  with served obtain cm :: "(string, string) config_manager" and c vs where
    f: "NewConfigManager sample_templates sample_plain_env [''base'', ''overlay''] = Ok cm"
    "GetConfig sample_templates sample_plain_env cm [] = Ok c"
    "NewIdpVerifiers (se_new_provider sample_start) c = Ok vs"
    "a = NewAuthService (sa_SigningNKey (sv_Account (cfg_Service c))) (serviceEncryptionXkey c)"
    "MetricsEnabled (MergeOptions (ServerOptions cm) metrics_flag (\<lambda>f. f = ''metrics'')) \<longrightarrow>
       rs_code (server_route (Some (after (rn_health r))) ''/readyz'') = (if se_connected sample_start \<and> vs \<noteq> [] then 200 else 503)"
    by blast
  have b: "cm_baseConfig cm = sample_config StrategyStrict"
    using sample_new_manager f(1) by auto
  with f(2) have c: "c = sample_config StrategyStrict" by (simp add: sample_get_config_from)
  with f(3) have "vs \<noteq> []" by (auto simp: sample_start_def sample_verifiers)
  moreover have "se_connected sample_start" by (simp add: sample_start_def)
  moreover have "MetricsEnabled (MergeOptions o' metrics_flag (\<lambda>f. f = ''metrics''))" for o'
    by (simp add: MergeOptions_def apply_cli_def metrics_flag_def)
  moreover have "as_serviceAccountKey a = Some (sample_key ''AMINT'')"
    unfolding f(4) c by (simp add: NewAuthService_def sample_config_def)
  ultimately show ?thesis using r wa f(5) by (auto simp: State_def)
qed

end
