(* ===== verification/Broker_System.thy ===== *)
theory Broker_System
  imports Server_Start
begin

text \<open>
  The running broker: the watcher, the requests being handled and the answers sent, as one step
  relation over the models of the parts. A request reads the live state once, when its handler
  starts, and is answered from what it read; reloads and other requests may happen in between.
\<close>

section \<open>States\<close>

text \<open>
  A running request carries the watcher as its handler read it, and the number of the configuration
  manager it runs with: the cache of compiled expressions belongs to a manager and is shared by the
  requests that run with it. An answer is kept with the watcher its request had read.
\<close>

record ('t, 'p) system =
  sy_watcher :: "('t, 'p) watcher"
  sy_manager :: nat
  sy_caches :: "nat \<Rightarrow> 'p expr_cache"
  sy_metrics :: "metrics option"
  sy_published :: "(string \<times> audit_event) list"
  sy_running :: "(micro_request \<times> ('t, 'p) watcher \<times> nat) list"
  sy_answers :: "(micro_request \<times> ('t, 'p) watcher \<times> reply) list"

definition system_start :: "('t, 'p) watcher \<Rightarrow> metrics option \<Rightarrow> ('t, 'p) system" where
  "system_start w m = \<lparr>sy_watcher = w, sy_manager = 0,
     sy_caches = (\<lambda>n. cm_exprCache (sn_configManager (State w))), sy_metrics = m, sy_published = [],
     sy_running = [], sy_answers = []\<rparr>"

definition request_state_for :: "('t, 'p) system \<Rightarrow> nat \<Rightarrow> 'p request_state" where
  "request_state_for s n = \<lparr>rq_metrics = sy_metrics s, rq_published = sy_published s, rq_cache = sy_caches s n\<rparr>"

definition answered ::
  "('t, 'p) system \<Rightarrow> (micro_request \<times> ('t, 'p) watcher \<times> nat) list \<Rightarrow> micro_request \<Rightarrow> ('t, 'p) watcher \<Rightarrow> nat
   \<Rightarrow> reply \<Rightarrow> 'p request_state \<Rightarrow> ('t, 'p) system" where
  "answered s running req w n reply q =
     s\<lparr>sy_running := running, sy_caches := (sy_caches s)(n := rq_cache q), sy_metrics := rq_metrics q,
       sy_published := rq_published q, sy_answers := sy_answers s @ [(req, w, reply)]\<rparr>"

section \<open>Steps\<close>

text \<open>
  The files may change between requests, so each request is handled in an environment \<open>ce\<close> of its
  own. A panic ends the process and is no step.
\<close>

inductive system_step ::
  "fsnotify_ops \<Rightarrow> file_system \<Rightarrow> string list \<Rightarrow> string list \<Rightarrow> ('t, 'p) broker_env \<Rightarrow> auth_service
   \<Rightarrow> ('t, 'p) system \<Rightarrow> ('t, 'p) system \<Rightarrow> bool"
  for ops :: fsnotify_ops and fs :: file_system and paths files :: "string list"
    and env :: "('t, 'p) broker_env" and a :: auth_service where
  Watching: "watch_step ops fs paths files (sy_watcher s) w \<Longrightarrow> State w = State (sy_watcher s) \<Longrightarrow>
    system_step ops fs paths files env a s (s\<lparr>sy_watcher := w\<rparr>)"
| Reloading: "watch_step ops fs paths files (sy_watcher s) w \<Longrightarrow> State w \<noteq> State (sy_watcher s) \<Longrightarrow>
    system_step ops fs paths files env a s
      (s\<lparr>sy_watcher := w, sy_manager := Suc (sy_manager s),
         sy_caches := (sy_caches s)(Suc (sy_manager s) := cm_exprCache (sn_configManager (State w)))\<rparr>)"
| Request: "system_step ops fs paths files env a s
    (s\<lparr>sy_running := sy_running s @ [(req, sy_watcher s, sy_manager s)]\<rparr>)"
| Answer: "sy_running s = xs @ (req, w, n) # ys \<Longrightarrow>
    Handle (be_jwt env) a (\<lambda>r q. newAuthCallbackWithWatcher (env\<lparr>be_config := ce\<rparr>) vNow mNow w r q) req
      (request_state_for s n) = Done (reply, q) \<Longrightarrow>
    system_step ops fs paths files env a s (answered s (xs @ ys) req w n reply q)"

definition system_run ::
  "fsnotify_ops \<Rightarrow> file_system \<Rightarrow> string list \<Rightarrow> string list \<Rightarrow> ('t, 'p) broker_env \<Rightarrow> auth_service
   \<Rightarrow> ('t, 'p) system \<Rightarrow> ('t, 'p) system \<Rightarrow> bool" where
  "system_run ops fs paths files env a = rtranclp (system_step ops fs paths files env a)"

section \<open>What a request does\<close>

text \<open>A response with a given token and error, signed by the service and sealed if the request was.\<close>

definition sends ::
  "jwt_lib \<Rightarrow> auth_service \<Rightarrow> micro_request \<Rightarrow> auth_request \<Rightarrow> string \<Rightarrow> go_error option \<Rightarrow> reply \<Rightarrow> bool" where
  "sends jw a req rc userJwt err reply \<longleftrightarrow>
     (\<exists>data. data = (case jw_encode_response jw (response_for jw (ar_UserNkey rc) (ar_ServerID rc) userJwt err)
                       (as_serviceAccountKey a) of Inl _ \<Rightarrow> [] | Inr d \<Rightarrow> d)
        \<and> (if mr_xkey req = [] then reply = ReplyData data
           else \<exists>k. as_encryptionKey a = Some k
              \<and> reply = (case kp_Seal k data (mr_xkey req) of Inl _ \<Rightarrow> ReplyNil | Inr d \<Rightarrow> ReplyData d)))"

text \<open>
  A token for the requesting user, signed by a key of an account of the given configuration, with an
  event on the audit record that says what it grants.
\<close>

definition issued ::
  "jwt_lib \<Rightarrow> config \<Rightarrow> (string \<times> audit_event) list \<Rightarrow> auth_request \<Rightarrow> string \<Rightarrow> bool" where
  "issued jw cfg pub rc userJwt \<longleftrightarrow>
     (\<exists>claims k info name. jw_encode_user jw claims k = Ok userJwt \<and> jw_validate jw claims = []
        \<and> uc_Subject claims = ar_UserNkey rc \<and> uc_IssuerAccount claims = ua_PublicKey info
        \<and> lookupAccountInfo cfg name = Ok info \<and> key_of_account k info
        \<and> (\<exists>subj ev. (subj, ev) \<in> set pub \<and> records_grant ev claims))"

definition justified ::
  "jwt_lib \<Rightarrow> auth_service \<Rightarrow> (string \<times> audit_event) list \<Rightarrow> micro_request \<Rightarrow> ('t, 'p) watcher \<Rightarrow> reply \<Rightarrow> bool" where
  "justified jw a pub req w reply \<longleftrightarrow>
     (\<forall>token rc. plain_token a req = Ok token \<longrightarrow> jw_decode_request jw token = Ok rc \<longrightarrow>
        (\<exists>userJwt err. sends jw a req rc userJwt err reply
           \<and> (userJwt = [] \<and> err \<noteq> None \<or> err = None \<and> issued jw (sn_config (State w)) pub rc userJwt)))"

lemma issued_later: "issued jw cfg pub rc t \<Longrightarrow> set pub \<subseteq> set pub' \<Longrightarrow> issued jw cfg pub' rc t"
  unfolding issued_def by blast

lemma justified_later:
  assumes "justified jw a pub req w reply" and "set pub \<subseteq> set pub'"
  shows "justified jw a pub' req w reply"
  unfolding justified_def
proof (intro allI impI)
  fix token rc
  assume "plain_token a req = Ok token" and "jw_decode_request jw token = Ok rc"
  with assms(1) obtain userJwt err where "sends jw a req rc userJwt err reply"
    "userJwt = [] \<and> err \<noteq> None \<or> err = None \<and> issued jw (sn_config (State w)) pub rc userJwt"
    unfolding justified_def by meson
  with issued_later [OF _ assms(2)] show "\<exists>userJwt err. sends jw a req rc userJwt err reply
      \<and> (userJwt = [] \<and> err \<noteq> None \<or> err = None \<and> issued jw (sn_config (State w)) pub' rc userJwt)"
    by metis
qed

lemma Respond_sends:
  "Respond jw a req (ar_UserNkey rc) (ar_ServerID rc) userJwt err s = Done (reply, s') \<Longrightarrow>
   sends jw a req rc userJwt err reply"
  unfolding sends_def by (rule Respond_Done)

lemma Handle_justified:
  assumes "Handle (be_jwt env) a (\<lambda>r q. newAuthCallbackWithWatcher (env\<lparr>be_config := ce\<rparr>) vNow mNow w r q) req q0
      = Done (reply, q)"
  shows "justified (be_jwt env) a (rq_published q) req w reply"
  unfolding justified_def
proof (intro allI impI)
  fix token rc
  let ?h = "\<lambda>r q. newAuthCallbackWithWatcher (env\<lparr>be_config := ce\<rparr>) vNow mNow w r q"
  assume t: "plain_token a req = Ok token" "jw_decode_request (be_jwt env) token = Ok rc"
  have "handle_token (be_jwt env) a ?h req token q0 = Done (reply, q)"
    using assms unfolding Handle_plain [OF t(1)] .
  from audited_callback.handle_token_audited [OF this t(2)] obtain userJwt err s1 where
    g: "userJwt = [] \<and> err \<noteq> None \<or> err = None \<and> (\<exists>claims k info. jw_encode_user (be_jwt env) claims k = Ok userJwt
          \<and> jw_validate (be_jwt env) claims = []
          \<and> uc_Subject claims = ar_UserNkey rc \<and> uc_IssuerAccount claims = ua_PublicKey info
          \<and> (\<exists>name. lookupAccountInfo (sn_config (State w)) name = Ok info) \<and> key_of_account k info
          \<and> (\<exists>subj ev. (subj, ev) \<in> set (rq_published q) \<and> records_grant ev claims))"
    and r: "Respond (be_jwt env) a req (ar_UserNkey rc) (ar_ServerID rc) userJwt err s1 = Done (reply, q)"
    unfolding audited_callback.audited_response_def by (elim exE conjE)
  have "userJwt = [] \<and> err \<noteq> None
      \<or> err = None \<and> issued (be_jwt env) (sn_config (State w)) (rq_published q) rc userJwt"
    using g
  proof (elim disjE)
    assume "err = None \<and> (\<exists>claims k info. jw_encode_user (be_jwt env) claims k = Ok userJwt
          \<and> jw_validate (be_jwt env) claims = []
          \<and> uc_Subject claims = ar_UserNkey rc \<and> uc_IssuerAccount claims = ua_PublicKey info
          \<and> (\<exists>name. lookupAccountInfo (sn_config (State w)) name = Ok info) \<and> key_of_account k info
          \<and> (\<exists>subj ev. (subj, ev) \<in> set (rq_published q) \<and> records_grant ev claims))"
    then show ?thesis
      unfolding issued_def by (elim conjE exE) (intro disjI2 conjI exI; assumption)
  qed (rule disjI1)
  with Respond_sends [OF r] show "\<exists>userJwt err. sends (be_jwt env) a req rc userJwt err reply
      \<and> (userJwt = [] \<and> err \<noteq> None
         \<or> err = None \<and> issued (be_jwt env) (sn_config (State w)) (rq_published q) rc userJwt)" by blast
qed

text \<open>The audit record of a request: unchanged, or one event more.\<close>

lemma callback_published:
  assumes "newAuthCallbackWithWatcher env vNow mNow w rc s = Done (r, s')"
  shows "\<exists>xs. rq_published s' = rq_published s @ xs"
  using audit_of_answer [of env vNow mNow "State w" rc s r s'] assms
  by (cases r) (auto simp: newAuthCallbackWithWatcher_def Let_def)

lemma handle_token_published:
  assumes "handle_token jw a (\<lambda>r q. newAuthCallbackWithWatcher env vNow mNow w r q) req token s = Done (reply, s')"
  shows "\<exists>xs. rq_published s' = rq_published s @ xs"
proof (cases "jw_decode_request jw token")
  case (Inl e)
  with assms show ?thesis by (auto simp: handle_token_def request_error_def)
next
  case (Inr rc)
  then have d: "jw_decode_request jw token = Ok rc" by simp
  from assms d show ?thesis
  proof (cases rule: handle_token_cases)
    case (refused e s1)
    with Respond_state [OF refused(2)] callback_published [OF refused(1)] show ?thesis by simp
  next
    case (unsigned claims kp info s1 e)
    with Respond_state [OF unsigned(3)] callback_published [OF unsigned(1)] show ?thesis
      by (simp add: response_error_def)
  next
    case (granted claims kp info s1 t)
    with Respond_state [OF granted(3)] callback_published [OF granted(1)] show ?thesis by simp
  qed
qed

lemma Handle_published:
  assumes "Handle jw a (\<lambda>r q. newAuthCallbackWithWatcher env vNow mNow w r q) req s = Done (reply, s')"
  shows "set (rq_published s) \<subseteq> set (rq_published s')"
proof (cases "plain_token a req")
  case (Inl e)
  with assms show ?thesis
    by (auto simp: plain_token_def Handle_def request_error_def split: if_splits option.splits)
next
  case (Inr token)
  from handle_token_published [OF assms [unfolded Handle_plain [OF Inr]]] show ?thesis by auto
qed

section \<open>Invariants\<close>

text \<open>
  Each request ran with a state that the watcher went through, and each answer is justified by the
  state its request ran with.
\<close>

definition system_ok ::
  "('t, 'p) watcher set \<Rightarrow> jwt_lib \<Rightarrow> auth_service \<Rightarrow> ('t, 'p) system \<Rightarrow> bool" where
  "system_ok reached jw a s \<longleftrightarrow>
     sy_watcher s \<in> reached
     \<and> (\<forall>(req, w, n)\<in>set (sy_running s). w \<in> reached)
     \<and> (\<forall>(req, w, reply)\<in>set (sy_answers s). w \<in> reached \<and> justified jw a (sy_published s) req w reply)"

interpretation system: step_invariant "system_step ops fs paths files env a"
    "system_ok {w. reachable ops fs paths files w0 w} (be_jwt env) a"
  for ops fs paths files and env :: "('t, 'p) broker_env" and a w0
proof
  let ?R = "{w. reachable ops fs paths files w0 w}"
  have step: "w \<in> ?R \<Longrightarrow> watch_step ops fs paths files w w' \<Longrightarrow> w' \<in> ?R" for w w'
    by (simp add: reachable_def)
  fix s s' :: "('t, 'p) system"
  assume "system_step ops fs paths files env a s s'" and ok: "system_ok ?R (be_jwt env) a s"
  then show "system_ok ?R (be_jwt env) a s'"
  proof (cases rule: system_step.cases)
    case (Watching w)
    with ok step [OF _ Watching(2)] show ?thesis by (auto simp: system_ok_def)
  next
    case (Reloading w)
    with ok step [OF _ Reloading(2)] show ?thesis by (auto simp: system_ok_def)
  next
    case (Request req)
    with ok show ?thesis by (auto simp: system_ok_def)
  next
    case (Answer xs req w n ys ce vNow mNow reply q)
    have w: "w \<in> ?R" and run: "\<forall>(r, v, n)\<in>set (xs @ ys). v \<in> ?R" and live: "sy_watcher s \<in> ?R"
      using ok Answer(2) by (auto simp: system_ok_def)
    have old: "\<forall>(r, v, p)\<in>set (sy_answers s). v \<in> ?R \<and> justified (be_jwt env) a (rq_published q) r v p"
      using ok justified_later Handle_published [OF Answer(3)]
      by (fastforce simp: system_ok_def request_state_for_def)
    show ?thesis
      using live w run old Handle_justified [OF Answer(3)] by (auto simp: Answer(1) answered_def system_ok_def)
  qed
qed

lemma system_start_ok: "w0 \<in> reached \<Longrightarrow> system_ok reached jw a (system_start w0 m)"
  by (simp add: system_start_def system_ok_def)

section \<open>Accounting\<close>

text \<open>What answering one request adds to the counters and to the audit record.\<close>

definition one_more :: "metrics \<Rightarrow> metrics \<Rightarrow> nat \<Rightarrow> bool" where
  "one_more m m' events \<longleftrightarrow> AuthRequestsInFlight m' = AuthRequestsInFlight m
     \<and> ((\<exists>status\<in>{StatusSuccess, StatusError, StatusDenied}.
           AuthRequestsTotal m' = inc [status] (AuthRequestsTotal m) \<and> RequestErrors m' = RequestErrors m
           \<and> events = (if status = StatusSuccess then 1 else 0))
        \<or> (\<exists>stage\<in>{StageDecrypt, StageDecode}. RequestErrors m' = inc [stage] (RequestErrors m)
           \<and> AuthRequestsTotal m' = AuthRequestsTotal m \<and> events = 0))"

lemma Respond_metrics:
  assumes "Respond jw a req u sv t err s = Done (reply, s')" and "rq_metrics s = Some m"
  shows "\<exists>m'. rq_metrics s' = Some m' \<and> AuthRequestsTotal m' = AuthRequestsTotal m
    \<and> AuthRequestsInFlight m' = AuthRequestsInFlight m \<and> RequestErrors m' = RequestErrors m
    \<and> rq_published s' = rq_published s"
  using assms
  by (auto simp: Respond_def response_error_def split: if_splits option.splits sum.splits)

lemma callback_counts:
  assumes "newAuthCallbackWithWatcher env vNow mNow w rc s = Done (r, s1)" and "rq_metrics s = Some m"
  shows "\<exists>m1 k. rq_metrics s1 = Some m1 \<and> one_more m m1 k \<and> length (rq_published s1) = length (rq_published s) + k"
proof -
  have h: "handleAuthRequest env vNow mNow (State w) rc s = Done (r, s1)"
    using assms(1) by (simp add: newAuthCallbackWithWatcher_def Let_def)
  from count_of_answer [OF h assms(2)] obtain m1 status where
    m: "rq_metrics s1 = Some m1" "status \<in> {StatusSuccess, StatusError, StatusDenied}"
      "AuthRequestsTotal m1 = inc [status] (AuthRequestsTotal m)"
      "AuthRequestsInFlight m1 = AuthRequestsInFlight m" "RequestErrors m1 = RequestErrors m"
      "status = StatusSuccess \<longleftrightarrow> (\<exists>g. r = Ok g)"
    by (cases r) auto
  have "length (rq_published s1) = length (rq_published s) + (if status = StatusSuccess then 1 else 0)"
    using audit_of_answer [OF h] m(6) by (cases r) auto
  with m show ?thesis unfolding one_more_def by blast
qed

lemma handle_token_counts:
  assumes "handle_token jw a (\<lambda>r q. newAuthCallbackWithWatcher env vNow mNow w r q) req token s = Done (reply, s')"
    and "rq_metrics s = Some m"
  shows "\<exists>m' k. rq_metrics s' = Some m' \<and> one_more m m' k \<and> length (rq_published s') = length (rq_published s) + k"
proof (cases "jw_decode_request jw token")
  case (Inl e)
  with assms show ?thesis
    by (intro exI [of _ "the (rq_metrics s')"] exI [of _ 0]) (auto simp: handle_token_def request_error_def one_more_def)
next
  case (Inr rc)
  have step: "\<exists>m' k. rq_metrics s' = Some m' \<and> one_more m m' k \<and> length (rq_published s') = length (rq_published s) + k"
    if h: "newAuthCallbackWithWatcher env vNow mNow w rc s = Done (r, s1)"
      and s2: "rq_metrics s2 = map_option f (rq_metrics s1)" "rq_published s2 = rq_published s1"
        "\<And>m. AuthRequestsTotal (f m) = AuthRequestsTotal m \<and> AuthRequestsInFlight (f m) = AuthRequestsInFlight m
          \<and> RequestErrors (f m) = RequestErrors m"
      and r: "Respond jw a req u sv t err s2 = Done (reply, s')" for r s1 s2 f u sv t err
  proof -
    from callback_counts [OF h assms(2)] obtain m1 k where
      m1: "rq_metrics s1 = Some m1" "one_more m m1 k" "length (rq_published s1) = length (rq_published s) + k" by blast
    with s2 have "rq_metrics s2 = Some (f m1)" by simp
    from Respond_metrics [OF r this] m1 s2 show ?thesis
      by (intro exI [of _ "the (rq_metrics s')"] exI [of _ k]) (auto simp: one_more_def)
  qed
  from Inr have d: "jw_decode_request jw token = Ok rc" by simp
  from assms(1) d show ?thesis
  proof (cases rule: handle_token_cases)
    case (refused e s1)
    then show ?thesis by (intro step [where f = id]) (auto simp: option.map_id)
  next
    case (unsigned claims kp info s1 e)
    from unsigned(3) show ?thesis
      by (intro step [OF unsigned(1), of "response_error StageSign s1"
            "\<lambda>m. m\<lparr>ResponseErrors := inc [StageSign] (ResponseErrors m)\<rparr>"])
        (auto simp: response_error_def)
  next
    case (granted claims kp info s1 t)
    then show ?thesis by (intro step [where f = id]) (auto simp: option.map_id)
  qed
qed

lemma Handle_counts:
  assumes "Handle jw a (\<lambda>r q. newAuthCallbackWithWatcher env vNow mNow w r q) req s = Done (reply, s')"
    and "rq_metrics s = Some m"
  shows "\<exists>m' k. rq_metrics s' = Some m' \<and> one_more m m' k \<and> length (rq_published s') = length (rq_published s) + k"
proof (cases "plain_token a req")
  case (Inl e)
  with assms show ?thesis
    by (intro exI [of _ "the (rq_metrics s')"] exI [of _ 0])
      (auto simp: plain_token_def Handle_def request_error_def one_more_def split: if_splits option.splits)
next
  case (Inr token)
  from handle_token_counts [OF assms(1) [unfolded Handle_plain [OF Inr]] assms(2)] show ?thesis .
qed

definition accounted :: "('t, 'p) system \<Rightarrow> bool" where
  "accounted s \<longleftrightarrow>
     (\<exists>m. sy_metrics s = Some m \<and> AuthRequestsInFlight m = 0
        \<and> AuthRequestsTotal m [StatusSuccess] = length (sy_published s)
        \<and> AuthRequestsTotal m [StatusSuccess] + AuthRequestsTotal m [StatusError] + AuthRequestsTotal m [StatusDenied]
          + RequestErrors m [StageDecrypt] + RequestErrors m [StageDecode] = length (sy_answers s))"

lemma one_more_accounts:
  assumes "one_more m m' k"
  shows "AuthRequestsInFlight m' = AuthRequestsInFlight m
    \<and> AuthRequestsTotal m' [StatusSuccess] = AuthRequestsTotal m [StatusSuccess] + k
    \<and> AuthRequestsTotal m' [StatusSuccess] + AuthRequestsTotal m' [StatusError] + AuthRequestsTotal m' [StatusDenied]
          + RequestErrors m' [StageDecrypt] + RequestErrors m' [StageDecode]
      = Suc (AuthRequestsTotal m [StatusSuccess] + AuthRequestsTotal m [StatusError] + AuthRequestsTotal m [StatusDenied]
          + RequestErrors m [StageDecrypt] + RequestErrors m [StageDecode])"
  using assms by (auto simp: one_more_def inc_def status_defs stage_defs)

interpretation accounts: step_invariant "system_step ops fs paths files env a" accounted
  for ops fs paths files and env :: "('t, 'p) broker_env" and a
proof
  fix s s' :: "('t, 'p) system"
  assume "system_step ops fs paths files env a s s'" and ok: "accounted s"
  then show "accounted s'"
  proof (cases rule: system_step.cases)
    case (Answer xs req w n ys ce vNow mNow reply q)
    from ok obtain m where m: "rq_metrics (request_state_for s n) = Some m"
      by (auto simp: accounted_def request_state_for_def)
    from Handle_counts [OF Answer(3) m] obtain m' k where
      "rq_metrics q = Some m'" "one_more m m' k" "length (rq_published q) = length (sy_published s) + k"
      by (auto simp: request_state_for_def)
    with ok m one_more_accounts [of m m' k] show ?thesis
      by (auto simp: Answer(1) answered_def accounted_def request_state_for_def)
  qed (use ok in \<open>simp_all add: accounted_def\<close>)
qed

section \<open>Properties\<close>

lemma started_consistent:
  assumes "StartWithContext te se cenv now files cliOpts cliFlags = (res, r)" and "rn_serving r = Some (w0, a)"
  shows "consistent (State w0)"
proof -
  from started_serves [OF assms(1)] assms(2) obtain cm c vs where
    "GetConfig te cenv cm [] = Ok c" "NewIdpVerifiers (se_new_provider se) c = Ok vs"
    "w0 = NewConfigWatcher now (initial_state c cm vs)" by blast
  then show ?thesis by (auto simp: consistent_def State_def NewConfigWatcher_def initial_state_def)
qed

text \<open>A sample broker: started, one request read, one answer sent.\<close>

lemma sample_system:
  "\<exists>(r :: (string, string) run) w0 s data.
     StartWithContext sample_templates sample_start sample_plain_env 0 [''base'', ''overlay''] metrics_flag
       (\<lambda>f. f = ''metrics'') = (Ok (), r)
     \<and> rn_serving r = Some (w0, sample_service)
     \<and> system_run sample_ops sample_fs [] [''base'', ''overlay''] sample_broker_env sample_service (system_start w0 (Some new_metrics)) s
     \<and> sy_answers s = [(sample_micro, w0, ReplyData data)]"
proof -
  obtain r :: "(string, string) run" where
    r: "StartWithContext sample_templates sample_start sample_plain_env 0 [''base'', ''overlay''] metrics_flag
      (\<lambda>f. f = ''metrics'') = (Ok (), r)"
    using sample_started by (metis prod.collapse)
  then obtain w0 a where wa: "rn_serving r = Some (w0, a)" using started_serves [OF r] by auto
  from started_serves [OF r] wa obtain cm :: "(string, string) config_manager" and c vs where
    f: "NewConfigManager sample_templates sample_plain_env [''base'', ''overlay''] = Ok cm"
    "GetConfig sample_templates sample_plain_env cm [] = Ok c"
    "NewIdpVerifiers (se_new_provider sample_start) c = Ok vs"
    "w0 = NewConfigWatcher 0 (initial_state c cm vs)"
    "a = NewAuthService (sa_SigningNKey (sv_Account (cfg_Service c))) (serviceEncryptionXkey c)" by blast
  have cm: "cm_baseConfig cm = sample_config StrategyStrict" "cm_exprCache cm = Some []"
    using sample_new_manager f(1) by auto
  with f(2) have c: "c = sample_config StrategyStrict" by (simp add: sample_get_config_from)
  with f(3) have vs: "vs = [(sample_verifier, sample_idp)]" by (simp add: sample_start_def sample_verifiers)
  have a: "a = sample_service"
    unfolding f(5) c by (simp add: NewAuthService_def serviceEncryptionXkey_def sample_config_def sample_service_def)
  let ?s0 = "system_start w0 (Some new_metrics)"
  let ?s1 = "?s0\<lparr>sy_running := [(sample_micro, w0, 0)]\<rparr>"
  have st: "State w0 = initial_state c cm vs" by (simp add: f(4) State_def NewConfigWatcher_def)
  have env: "sample_broker_env\<lparr>be_config := sample_plain_env\<rparr> = sample_broker_env"
    by (simp add: sample_broker_env_def)
  have jwt: "be_jwt sample_broker_env = sample_jwt" by (simp add: sample_broker_env_def)
  obtain data q where h: "Handle sample_jwt sample_service
     (\<lambda>r s. newAuthCallbackWithWatcher sample_broker_env (1100 * second) (1100 * second) w0 r s)
     sample_micro (request_state_for ?s1 0) = Done (ReplyData data, q)"
    using sample_handled_from [of w0 "request_state_for ?s1 0"] st c vs cm
    by (auto simp: initial_state_def request_state_for_def system_start_def)
  have "system_step sample_ops sample_fs [] [''base'', ''overlay''] sample_broker_env sample_service ?s0 ?s1"
    using system_step.Request [of sample_ops sample_fs "[]" "[''base'', ''overlay'']" sample_broker_env sample_service ?s0 sample_micro]
    by (simp add: system_start_def)
  moreover have "system_step sample_ops sample_fs [] [''base'', ''overlay''] sample_broker_env sample_service ?s1
      (answered ?s1 ([] @ []) sample_micro w0 0 (ReplyData data) q)"
    by (rule system_step.Answer [where ce = sample_plain_env]) (simp, unfold env jwt, rule h)
  ultimately have "system_run sample_ops sample_fs [] [''base'', ''overlay''] sample_broker_env sample_service ?s0
      (answered ?s1 ([] @ []) sample_micro w0 0 (ReplyData data) q)"
    unfolding system_run_def by (meson rtranclp.rtrancl_into_rtrancl rtranclp.rtrancl_refl)
  moreover have "sy_answers (answered ?s1 ([] @ []) sample_micro w0 0 (ReplyData data) q) = [(sample_micro, w0, ReplyData data)]"
    by (simp add: answered_def system_start_def)
  ultimately show ?thesis using r wa a by blast
qed





end
