(* ===== verification/Request_Spans.thy ===== *)
theory Request_Spans
  imports Broker_System
begin

text \<open>
  The tracing spans of one request: those of \<open>AuthService.Handle\<close>
  (\<open>internal/broker/auth_service.go\<close>) and of \<open>handleAuthRequest\<close>
  (\<open>internal/broker/auth_callback.go\<close>), as the list of the calls made on them. The definitions follow
  the control flow of the models of these functions; what the functions return is taken from there.
\<close>

section \<open>Calls on spans\<close>

datatype span = HandleSpan | ExtractSpan | VerifySpan | BuildSpan | AuditSpan

primrec span_name :: "span \<Rightarrow> string" where
  "span_name HandleSpan = ''auth.callout.handle''"
| "span_name ExtractSpan = ''auth.callout.extract_jwt''"
| "span_name VerifySpan = ''auth.callout.verify_idp''"
| "span_name BuildSpan = ''auth.callout.build_claims''"
| "span_name AuditSpan = ''auth.callout.audit''"

datatype span_status = StatusOk | StatusFailed string

type_synonym attributes = "(string \<times> string) list"

text \<open>A span is started in a context: that of the client, or of a span of the request.\<close>

datatype 'ctx span_parent = Client 'ctx | Under span

datatype 'ctx span_call =
    Start span "'ctx span_parent" attributes
  | SetAttributes span attributes
  | SetStatus span span_status
  | RecordError span go_error
  | End span

text \<open>A failed stage: status, the error, the end.\<close>

definition failed :: "jwt_lib \<Rightarrow> span \<Rightarrow> go_error \<Rightarrow> 'ctx span_call list" where
  "failed jw sp e = [SetStatus sp (StatusFailed (jw_error_text jw e)), RecordError sp e, End sp]"

definition email_attribute :: "bool \<Rightarrow> idp_claims \<Rightarrow> attributes" where
  "email_attribute logSensitive reqClaims =
     (if logSensitive then [(''auth.user.email'', cl_Email reqClaims)] else [])"

section \<open>The callback\<close>

definition audit_spans ::
  "('t, 'p) broker_env \<Rightarrow> bool \<Rightarrow> int \<Rightarrow> ('t, 'p) snapshot \<Rightarrow> auth_request \<Rightarrow> idp_claims \<Rightarrow> idp
   \<Rightarrow> user_claims \<Rightarrow> user_account_info \<Rightarrow> 'p request_state \<Rightarrow> 'ctx span_call list" where
  "audit_spans env logSensitive now sn request reqClaims i claims info s =
     Start AuditSpan (Under HandleSpan) [] #
     (case publishAuditEvent (be_jwt env) now (sn_auditSubject sn) (sn_config sn) claims request reqClaims i info s of
        Panic p \<Rightarrow> []
      | Done s' \<Rightarrow>
          [End AuditSpan,
           SetAttributes HandleSpan
             ([(''auth.idp'', idp_Description i), (''auth.account'', uc_Audience claims),
               (''auth.result'', StatusSuccess),
               (''auth.token.expires_at'', jw_rfc3339 (be_jwt env) (uc_Expires claims))]
              @ email_attribute logSensitive reqClaims)])"

definition build_spans ::
  "('t, 'p) broker_env \<Rightarrow> bool \<Rightarrow> int \<Rightarrow> ('t, 'p) snapshot \<Rightarrow> auth_request \<Rightarrow> idp_claims \<Rightarrow> idp
   \<Rightarrow> 'p request_state \<Rightarrow> 'ctx span_call list" where
  "build_spans env logSensitive now sn request reqClaims i s =
     Start BuildSpan (Under HandleSpan) [] #
     (case buildUserClaims env now (sn_config sn) (sn_configManager sn) reqClaims i request (rq_cache s) of
        (Inl (status, e), cache') \<Rightarrow> failed (be_jwt env) BuildSpan e
      | (Inr (claims, kp, info), cache') \<Rightarrow>
          [SetAttributes BuildSpan ((''auth.account'', uc_Audience claims) # email_attribute logSensitive reqClaims),
           End BuildSpan]
          @ audit_spans env logSensitive now sn request reqClaims i claims info (s\<lparr>rq_cache := cache'\<rparr>))"

definition verify_spans ::
  "('t, 'p) broker_env \<Rightarrow> bool \<Rightarrow> int \<Rightarrow> int \<Rightarrow> ('t, 'p) snapshot \<Rightarrow> auth_request \<Rightarrow> string \<Rightarrow> token_request
   \<Rightarrow> 'p request_state \<Rightarrow> 'ctx span_call list" where
  "verify_spans env logSensitive verifyNow mintNow sn request idpRawJwt tokenReq s =
     Start VerifySpan (Under HandleSpan) [] #
     (case verifyAndEnrich (be_rt env) verifyNow idpRawJwt tokenReq (sn_idpVerifiers sn) s of
        Panic p \<Rightarrow> []
      | Done (Inl e, s1) \<Rightarrow> failed (be_jwt env) VerifySpan e
      | Done (Inr (reqClaims, item), s1) \<Rightarrow>
          [SetAttributes VerifySpan [(''auth.idp'', idp_Description (snd item))], End VerifySpan]
          @ (case fromMap (be_rt env) reqClaims (with_client_info request (toMap reqClaims)) (idp_CustomMapping (snd item)) of
               Panic p \<Rightarrow> []
             | Done reqClaims' \<Rightarrow> build_spans env logSensitive mintNow sn request reqClaims' (snd item) s1))"

definition callback_spans ::
  "('t, 'p) broker_env \<Rightarrow> bool \<Rightarrow> int \<Rightarrow> int \<Rightarrow> ('t, 'p) snapshot \<Rightarrow> auth_request \<Rightarrow> 'p request_state
   \<Rightarrow> 'ctx span_call list" where
  "callback_spans env logSensitive verifyNow mintNow sn request s0 =
     (let s = inFlight 1 s0; (idpRawJwt, tokenReq) = extractJWT request in
      Start ExtractSpan (Under HandleSpan) [] #
      (if idpRawJwt = []
       then [SetStatus ExtractSpan (StatusFailed ''no valid JWT token found''), End ExtractSpan]
       else End ExtractSpan # verify_spans env logSensitive verifyNow mintNow sn request idpRawJwt tokenReq s))"

section \<open>The service\<close>

text \<open>
  The span of the request is ended by a deferred call: after the answer, and also when a call
  panics. What the service sets on it depends on the answer of the handler.
\<close>

definition outcome_calls :: "jwt_lib \<Rightarrow> (grant_answer \<times> 'p request_state) outcome \<Rightarrow> 'ctx span_call list" where
  "outcome_calls jw r =
     (case r of
        Panic p \<Rightarrow> []
      | Done (Inl e, s1) \<Rightarrow> [SetStatus HandleSpan (StatusFailed (jw_error_text jw e)), RecordError HandleSpan e]
      | Done (Inr (claims, sk, accountInfo), s1) \<Rightarrow>
          (case ValidateAndSign jw (Some claims) sk (Some accountInfo) of
             Panic p \<Rightarrow> []
           | Done (Inl e) \<Rightarrow> [SetStatus HandleSpan (StatusFailed (jw_error_text jw e)), RecordError HandleSpan e]
           | Done (Inr t) \<Rightarrow> [SetStatus HandleSpan StatusOk]))"

definition decoded_spans ::
  "'ctx propagator \<Rightarrow> ('t, 'p) broker_env \<Rightarrow> bool \<Rightarrow> int \<Rightarrow> int \<Rightarrow> ('t, 'p) watcher \<Rightarrow> auth_request \<Rightarrow> 'p request_state
   \<Rightarrow> 'ctx span_call list" where
  "decoded_spans pg env logSensitive verifyNow mintNow w rc s =
     Start HandleSpan (Client (extractTraceContext pg rc)) [(''nats.user_nkey'', ar_UserNkey rc), (''nats.server_id'', ar_ServerID rc)]
     # callback_spans env logSensitive verifyNow mintNow (State w) rc s
     @ outcome_calls (be_jwt env) (newAuthCallbackWithWatcher env verifyNow mintNow w rc s)
     @ [End HandleSpan]"

text \<open>A request that cannot be decrypted or decoded has no span.\<close>

definition handle_spans ::
  "'ctx propagator \<Rightarrow> ('t, 'p) broker_env \<Rightarrow> bool \<Rightarrow> int \<Rightarrow> int \<Rightarrow> auth_service \<Rightarrow> ('t, 'p) watcher \<Rightarrow> micro_request
   \<Rightarrow> 'p request_state \<Rightarrow> 'ctx span_call list" where
  "handle_spans pg env logSensitive verifyNow mintNow a w inRequest s =
     (case plain_token a inRequest of
        Inl e \<Rightarrow> []
      | Inr token \<Rightarrow>
          (case jw_decode_request (be_jwt env) token of
             Inl e \<Rightarrow> []
           | Inr rc \<Rightarrow> decoded_spans pg env logSensitive verifyNow mintNow w rc s))"

section \<open>Nesting\<close>

text \<open>
  The open spans as a stack: a span is started under the innermost open one, calls are made on open
  spans only, and the innermost span ends first.
\<close>

fun span_step :: "'ctx span_call \<Rightarrow> span list \<Rightarrow> span list option" where
  "span_step (Start sp parent attrs) active =
     (if sp \<notin> set active \<and> (case parent of Client ctx \<Rightarrow> active = [] | Under p \<Rightarrow> active \<noteq> [] \<and> hd active = p)
      then Some (sp # active) else None)"
| "span_step (End sp) active = (case active of [] \<Rightarrow> None | p # ps \<Rightarrow> if p = sp then Some ps else None)"
| "span_step (SetAttributes sp attrs) active = (if sp \<in> set active then Some active else None)"
| "span_step (SetStatus sp st) active = (if sp \<in> set active then Some active else None)"
| "span_step (RecordError sp e) active = (if sp \<in> set active then Some active else None)"

fun span_run :: "'ctx span_call list \<Rightarrow> span list \<Rightarrow> span list option" where
  "span_run [] active = Some active"
| "span_run (c # cs) active = Option.bind (span_step c active) (span_run cs)"

lemma span_run_append: "span_run (cs @ ds) active = Option.bind (span_run cs active) (span_run ds)"
proof (induction cs arbitrary: active)
  case (Cons c cs)
  then show ?case by (cases "span_step c active") simp_all
qed simp

lemma failed_run: "span_run (failed jw sp e) [sp, HandleSpan] = Some [HandleSpan]"
  by (simp add: failed_def)

lemma finish_request_spans:
  "finish_request env now sn req rc i s = Done r \<Longrightarrow>
   span_run (build_spans env sens now sn req rc i s) [HandleSpan] = Some [HandleSpan]"
  by (auto simp: finish_request_def build_spans_def audit_spans_def failed_run bind_outcome_Done_iff
      split: prod.splits sum.splits outcome.splits)

lemma callback_spans_nested:
  assumes "handleAuthRequest env vNow mNow sn req s0 = Done r"
  shows "span_run (callback_spans env sens vNow mNow sn req s0) [HandleSpan] = Some [HandleSpan]"
proof -
  obtain raw tok where x: "extractJWT req = (raw, tok)" by (metis prod.exhaust)
  show ?thesis
  proof (cases "raw = []")
    case True
    then show ?thesis by (simp add: callback_spans_def x)
  next
    case False
    with assms obtain v s1 where v: "verifyAndEnrich (be_rt env) vNow raw tok (sn_idpVerifiers sn) (inFlight 1 s0) = Done (v, s1)"
      by (auto simp: handleAuthRequest_def x Let_def bind_outcome_Done_iff)
    show ?thesis
    proof (cases v)
      case (Inl e)
      with False v show ?thesis by (simp add: callback_spans_def x verify_spans_def failed_run)
    next
      case (Inr ci)
      obtain c item where ci: "ci = (c, item)" by (cases ci)
      from assms False v Inr ci obtain c' r' where
        "fromMap (be_rt env) c (with_client_info req (toMap c)) (idp_CustomMapping (snd item)) = Done c'"
        "finish_request env mNow sn req c' (snd item) s1 = Done r'"
        by (auto simp: handleAuthRequest_def x Let_def bind_outcome_Done_iff)
      with False v Inr ci show ?thesis
        by (simp add: callback_spans_def x verify_spans_def finish_request_spans [of env mNow sn req c' "snd item" s1])
    qed
  qed
qed

lemma outcome_calls_run: "span_run (outcome_calls jw r) [HandleSpan] = Some [HandleSpan]"
  by (auto simp: outcome_calls_def split: outcome.split prod.split sum.split)

lemma handler_done:
  assumes "Handle jw a h req s = Done x" and "plain_token a req = Ok token" and "jw_decode_request jw token = Ok rc"
  obtains r s1 where "h rc s = Done (r, s1)"
  using assms by (cases "h rc s") (auto simp: Handle_plain handle_token_def)

section \<open>Attributes\<close>

fun call_attributes :: "'ctx span_call \<Rightarrow> attributes" where
  "call_attributes (Start sp parent attrs) = attrs"
| "call_attributes (SetAttributes sp attrs) = attrs"
| "call_attributes _ = []"

definition attribute_keys :: "'ctx span_call list \<Rightarrow> string set" where
  "attribute_keys cs = fst ` set (concat (map call_attributes cs))"

definition plain_keys :: "string set" where
  "plain_keys = {''nats.user_nkey'', ''nats.server_id'', ''auth.idp'', ''auth.account'', ''auth.result'',
     ''auth.token.expires_at''}"

lemma attribute_keys_simps [simp]:
  "attribute_keys [] = {}"
  "attribute_keys (c # cs) = fst ` set (call_attributes c) \<union> attribute_keys cs"
  "attribute_keys (cs @ ds) = attribute_keys cs \<union> attribute_keys ds"
  by (auto simp: attribute_keys_def)

lemma keys_of_failed: "attribute_keys (failed jw sp e) = {}"
  by (simp add: failed_def)

lemma keys_of_outcome: "attribute_keys (outcome_calls jw r) = {}"
  by (auto simp: outcome_calls_def split: outcome.split prod.split sum.split)

lemma keys_of_build:
  "attribute_keys (build_spans env b now sn req rc i s) \<subseteq> plain_keys \<union> (if b then {''auth.user.email''} else {})"
  by (cases b) (auto simp: build_spans_def audit_spans_def keys_of_failed plain_keys_def email_attribute_def
      split: prod.splits sum.splits outcome.splits)

lemma keys_of_verify:
  "attribute_keys (verify_spans env b vNow mNow sn req raw tok s) \<subseteq> plain_keys \<union> (if b then {''auth.user.email''} else {})"
  using keys_of_build [of env b mNow sn req]
  by (fastforce simp: verify_spans_def keys_of_failed plain_keys_def split: prod.splits sum.splits outcome.splits)

lemma keys_of_callback:
  "attribute_keys (callback_spans env b vNow mNow sn req s) \<subseteq> plain_keys \<union> (if b then {''auth.user.email''} else {})"
proof -
  obtain raw tok where x: "extractJWT req = (raw, tok)" by (metis prod.exhaust)
  show ?thesis
  proof (cases "raw = []")
    case True
    then show ?thesis by (simp add: callback_spans_def x)
  next
    case False
    then show ?thesis by (simp add: callback_spans_def x keys_of_verify split del: if_split)
  qed
qed

lemma keys_of_decoded:
  "attribute_keys (decoded_spans pg env b vNow mNow w rc s) \<subseteq> plain_keys \<union> (if b then {''auth.user.email''} else {})"
  using keys_of_callback [of env b vNow mNow "State w" rc s]
  by (auto simp: decoded_spans_def keys_of_outcome plain_keys_def)

lemma keys_of_handle:
  "attribute_keys (handle_spans pg env b vNow mNow a w req s) \<subseteq> plain_keys \<union> (if b then {''auth.user.email''} else {})"
proof (cases "plain_token a req")
  case (Inr token)
  with keys_of_decoded [of pg env b vNow mNow w _ s] show ?thesis
    by (cases "jw_decode_request (be_jwt env) token") (simp_all add: handle_spans_def)
qed (simp add: handle_spans_def)

text \<open>Only the span of the request is started in the client's context.\<close>

lemma callback_parents: "Start sp (Client ctx) attrs \<notin> set (callback_spans env b vNow mNow sn req s)"
  by (auto simp: callback_spans_def verify_spans_def build_spans_def audit_spans_def failed_def Let_def
      split: prod.splits sum.splits outcome.splits)

lemma outcome_parents: "Start sp parent attrs \<notin> set (outcome_calls jw r)"
  by (auto simp: outcome_calls_def split: outcome.split prod.split sum.split)

lemma handle_parents:
  assumes "Start sp (Client ctx) attrs \<in> set (handle_spans pg env b vNow mNow a w req s)"
  shows "\<exists>token rc. plain_token a req = Ok token \<and> jw_decode_request (be_jwt env) token = Ok rc
    \<and> sp = HandleSpan \<and> ctx = extractTraceContext pg rc"
proof (cases "plain_token a req")
  case (Inl e)
  with assms show ?thesis by (simp add: handle_spans_def)
next
  case (Inr token)
  with assms show ?thesis
    by (cases "jw_decode_request (be_jwt env) token")
      (auto simp: handle_spans_def decoded_spans_def callback_parents outcome_parents)
qed

lemma no_root_status:
  "SetStatus HandleSpan st \<notin> set (callback_spans env b vNow mNow sn req s)"
  by (auto simp: callback_spans_def verify_spans_def build_spans_def audit_spans_def failed_def Let_def
      split: prod.splits sum.splits outcome.splits)

text \<open>
  The span of a request tells what was sent: its status is set to ok exactly when the answer carries
  a signed token and no error.
\<close>

lemma root_span_tells_the_outcome:
  fixes pg :: "'ctx propagator"
  assumes "Handle (be_jwt env) a (\<lambda>r q. newAuthCallbackWithWatcher env vNow mNow w r q) req s = Done (reply, s')"
    and "plain_token a req = Ok token" and "jw_decode_request (be_jwt env) token = Ok rc"
  shows "\<exists>userJwt err. sends (be_jwt env) a req rc userJwt err reply
     \<and> (err = None \<longleftrightarrow> SetStatus HandleSpan StatusOk \<in> set (handle_spans pg env logSensitive vNow mNow a w req s))"
proof -
  let ?h = "\<lambda>r q. newAuthCallbackWithWatcher env vNow mNow w r q"
  let ?spans = "handle_spans pg env logSensitive vNow mNow a w req s"
  have spans: "?spans = decoded_spans pg env logSensitive vNow mNow w rc s"
    using assms(2,3) by (simp add: handle_spans_def)
  have ok: "SetStatus HandleSpan StatusOk \<in> set ?spans
      \<longleftrightarrow> SetStatus HandleSpan StatusOk \<in> set (outcome_calls (be_jwt env) (?h rc s) :: 'ctx span_call list)"
    by (simp add: spans decoded_spans_def no_root_status)
  have "handle_token (be_jwt env) a ?h req token s = Done (reply, s')"
    using assms(1) unfolding Handle_plain [OF assms(2)] .
  from this assms(3) show ?thesis
  proof (cases rule: handle_token_cases)
    case (refused e s1)
    with Respond_sends [OF refused(2)] show ?thesis
      by (intro exI [of _ "[]"] exI [of _ "Some e"]) (simp add: ok outcome_calls_def)
  next
    case (unsigned claims kp info s1 e)
    with Respond_sends [OF unsigned(3)] show ?thesis
      by (intro exI [of _ "[]"] exI [of _ "Some e"]) (simp add: ok outcome_calls_def)
  next
    case (granted claims kp info s1 t)
    with Respond_sends [OF granted(3)] show ?thesis
      by (intro exI [of _ t] exI [of _ None]) (simp add: ok outcome_calls_def)
  qed
qed

section \<open>Properties\<close>

text \<open>
  Property C23. The spans of an answered request are nested, on every path through the service and
  the callback: every span is started under the innermost one still open, every call is made on an
  open span, and each span is ended exactly once and before the one it was started under. The span of
  the request alone is started in the trace of the client's credentials. They have the attributes
  listed here; the user's mail address is among them only where sensitive logging was asked for.
\<close>

theorem request_spans_are_nested:
  assumes "Handle (be_jwt env) a (\<lambda>r q. newAuthCallbackWithWatcher env vNow mNow w r q) req s = Done (reply, s')"
  shows "span_run (handle_spans pg env logSensitive vNow mNow a w req s) [] = Some []
    \<and> (\<forall>sp ctx attrs. Start sp (Client ctx) attrs \<in> set (handle_spans pg env logSensitive vNow mNow a w req s) \<longrightarrow>
        (\<exists>token rc. plain_token a req = Ok token \<and> jw_decode_request (be_jwt env) token = Ok rc
          \<and> sp = HandleSpan \<and> ctx = extractTraceContext pg rc))
    \<and> attribute_keys (handle_spans pg env logSensitive vNow mNow a w req s)
        \<subseteq> plain_keys \<union> (if logSensitive then {''auth.user.email''} else {})"
proof (intro conjI allI impI)
  show "attribute_keys (handle_spans pg env logSensitive vNow mNow a w req s)
        \<subseteq> plain_keys \<union> (if logSensitive then {''auth.user.email''} else {})"
    by (rule keys_of_handle)
  show "span_run (handle_spans pg env logSensitive vNow mNow a w req s) [] = Some []"
  proof (cases "plain_token a req")
    case (Inr token)
    show ?thesis
    proof (cases "jw_decode_request (be_jwt env) token")
      case rc: (Inr rc)
      with assms Inr obtain r where r: "newAuthCallbackWithWatcher env vNow mNow w rc s = Done r"
        by (metis handler_done)
      then have "handleAuthRequest env vNow mNow (State w) rc s = Done r"
        by (simp add: newAuthCallbackWithWatcher_def Let_def)
      with Inr rc show ?thesis
        by (simp add: handle_spans_def decoded_spans_def span_run_append outcome_calls_run callback_spans_nested)
    qed (simp add: handle_spans_def Inr)
  qed (simp add: handle_spans_def)
qed (rule handle_parents)

definition sample_propagator :: "string propagator" where
  "sample_propagator = \<lparr>pg_entries = (\<lambda>c. [(''traceparent'', c)]), pg_extract = (\<lambda>get. get ''traceparent''), pg_background = []\<rparr>"

theorem request_spans_are_nested_witness:
  "span_run (handle_spans sample_propagator sample_broker_env False (1100 * second) (1100 * second) sample_service sample_watcher sample_micro sample_state) [] = Some []
   \<and> attribute_keys (handle_spans sample_propagator sample_broker_env False (1100 * second) (1100 * second) sample_service sample_watcher sample_micro sample_state) \<subseteq> plain_keys"
proof -
  obtain data s' where "Handle (be_jwt sample_broker_env) sample_service
     (\<lambda>r s. newAuthCallbackWithWatcher sample_broker_env (1100 * second) (1100 * second) sample_watcher r s)
     sample_micro sample_state = Done (ReplyData data, s')"
    using sample_handled by (auto simp: sample_broker_env_def)
  from request_spans_are_nested [OF this, of sample_propagator False] show ?thesis by (simp only: if_False Un_empty_right)
qed

end
