(* ===== verification/Broker_Progress.thy ===== *)
theory Broker_Progress
  imports Broker_System "HOL-Library.Multiset"
begin

text \<open>
  When every request is answered. A panic anywhere in a request ends the process, so this asks that
  no call on the way panics: the lemmas follow the claims from the provider's token through
  \<open>fromMap\<close> and \<open>toMap\<close>, and the signing key of the account through the audit event. Over the system
  relation it gives that the requests being handled can be answered, in any order, until none is left.
\<close>

section \<open>Claims without null\<close>

definition null_free :: "go_map \<Rightarrow> bool" where
  "null_free m \<longleftrightarrow> GNil \<notin> snd ` set m"

text \<open>
  The claims and the user info that a provider answers with hold no \<open>null\<close> at their top level. A
  \<open>null\<close> under any name matters: the custom mapping may rename it to \<open>groups\<close> or \<open>roles\<close>.
\<close>

definition answers_without_null :: "idp_verifier \<Rightarrow> bool" where
  "answers_without_null item \<longleftrightarrow>
     (\<forall>clientID token t m. pv_verify (jv_provider (fst item)) clientID token = Ok t \<longrightarrow>
        it_claims_map t = Ok m \<longrightarrow> null_free m)
     \<and> (\<forall>accessToken m. pv_userinfo_claims (jv_provider (fst item)) accessToken = Ok m \<longrightarrow> null_free m)"

definition answerable :: "('t, 'p) snapshot \<Rightarrow> bool" where
  "answerable sn \<longleftrightarrow>
     (\<forall>account\<in>set (rbac_Accounts (cfg_Rbac (sn_config sn))). ua_SigningNKey account \<noteq> None)
     \<and> (\<forall>item\<in>set (sn_idpVerifiers sn). answers_without_null item)"

lemma null_free_simps [simp]:
  "null_free []"
  "null_free ((k, v) # m) \<longleftrightarrow> v \<noteq> GNil \<and> null_free m"
  by (auto simp: null_free_def)

lemma null_free_mput: "null_free m \<Longrightarrow> v \<noteq> GNil \<Longrightarrow> null_free (mput k v m)"
proof (induction m)
  case (Cons x m)
  then show ?case by (cases x) (simp add: mput_def)
qed (simp add: mput_def)

lemma null_free_overlay: "null_free src \<Longrightarrow> null_free dst \<Longrightarrow> null_free (overlay dst src)"
proof (induction src arbitrary: dst)
  case (Cons x src)
  then show ?case by (cases x) (simp add: overlay_def null_free_mput)
qed (simp add: overlay_def)

lemma null_free_nil_collections: "null_free m \<Longrightarrow> \<not> nil_collections m"
  by (force simp: null_free_def nil_collections_def mget_def dest: map_of_SomeD)

lemma null_free_present: "(\<forall>k. (k, Some GNil) \<notin> set fs) \<Longrightarrow> null_free (present fs)"
  by (induction fs rule: present.induct) auto

lemma null_free_std: "null_free (present (std_fields c))"
  by (rule null_free_present)
    (simp add: std_fields_def omit_string_def omit_int_def omit_any_def eq_commute [of GNil])

lemma null_free_toMap: "null_free (cl_CustomClaims c) \<Longrightarrow> null_free (toMap c)"
  by (simp add: toMap_def null_free_overlay null_free_std)

lemma fromMap_null_free:
  assumes "null_free m"
  obtains c where "fromMap rt j m mapping = Done c" and "null_free (cl_CustomClaims c)"
proof -
  have "null_free (custom_entries mapping m)"
    using assms by (force simp: null_free_def custom_entries_def)
  then have n: "null_free (custom_claims mapping m)"
    by (simp add: custom_claims_overlay null_free_overlay)
  have "fromMap rt j m mapping = Done ((assigned rt m (set_audience rt m (j\<lparr>cl_CustomClaims := []\<rparr>)))
      \<lparr>cl_CustomClaims := custom_claims mapping m\<rparr>)"
    using null_free_nil_collections [OF assms] by (simp add: fromMap_eq)
  then show thesis by (rule that) (simp add: n)
qed

section \<open>A request in the callback\<close>

lemma verifyJWT_answers:
  assumes "answers_without_null (v, i)"
  shows "\<exists>r. verifyJWT rt now v token mapping = Done r \<and> (\<forall>c t. r = Ok (c, t) \<longrightarrow> null_free (cl_CustomClaims c))"
proof (cases "pv_verify (jv_provider v) (jv_clientID v) token")
  case verified: (Inr t)
  show ?thesis
  proof (cases "it_claims_map t")
    case raw: (Inr m)
    with verified assms have "null_free m" by (simp add: answers_without_null_def)
    show ?thesis
    proof (cases "it_claims_struct t")
      case (Inr c0)
      from fromMap_null_free [OF \<open>null_free m\<close>, of rt c0 mapping] obtain c where
        "fromMap rt c0 m mapping = Done c" "null_free (cl_CustomClaims c)" .
      with verified raw Inr show ?thesis by (simp add: verifyJWT_def split: sum.split)
    qed (use verified raw in \<open>simp add: verifyJWT_def\<close>)
  qed (use verified in \<open>simp add: verifyJWT_def\<close>)
qed (simp add: verifyJWT_def)

lemma verify_one_answers:
  assumes "answers_without_null item"
  shows "\<exists>r. verify_one rt now token item = Done r \<and> (\<forall>c t. r = Ok (c, t) \<longrightarrow> null_free (cl_CustomClaims c))"
proof -
  obtain v i where item: "item = (v, i)" by (cases item)
  from verifyJWT_answers [OF assms [unfolded item], of rt now token "idp_CustomMapping i"] obtain r where
    "verifyJWT rt now v token (idp_CustomMapping i) = Done r"
    "\<forall>c t. r = Ok (c, t) \<longrightarrow> null_free (cl_CustomClaims c)" by blast
  then show ?thesis
    by (cases r) (auto simp: verify_one_def item split: sum.split)
qed

lemma verification_answers:
  assumes "\<forall>item\<in>set items. answers_without_null item"
  shows "\<exists>r. verification_loop rt now token items errs = Done r
    \<and> (\<forall>c item t. r = Ok (c, item, t) \<longrightarrow> item \<in> set items \<and> null_free (cl_CustomClaims c))"
  using assms
proof (induction items arbitrary: errs)
  case (Cons x items)
  from Cons.prems verify_one_answers [of x rt now token] obtain r where
    r: "verify_one rt now token x = Done r" "\<forall>c t. r = Ok (c, t) \<longrightarrow> null_free (cl_CustomClaims c)" by auto
  show ?case
  proof (cases r)
    case (Inl e)
    from Cons.IH [of "errs @ [e]"] Cons.prems Inl r show ?thesis by (auto simp: verification_loop_Cons)
  next
    case (Inr ct)
    with r show ?thesis by (cases ct) (auto simp: verification_loop_Cons)
  qed
qed simp

lemma enrich_answers:
  assumes "answers_without_null item" and "null_free (cl_CustomClaims c)"
  shows "\<exists>c'. enrich rt tokenReq (c, item, t) = Done c' \<and> null_free (cl_CustomClaims c')"
proof -
  obtain v i where item: "item = (v, i)" by (cases item)
  have info: "null_free m" if "GetUserInfo v (tr_AccessToken tokenReq) (Some t) = Ok m" for m
    using that assms(1) by (auto simp: GetUserInfo_def answers_without_null_def item split: if_splits sum.splits)
  show ?thesis
  proof (cases "GetUserInfo v (tr_AccessToken tokenReq) (Some t)")
    case (Inr m)
    from null_free_overlay [OF info [OF Inr] null_free_toMap [OF assms(2)]] show ?thesis
      by (rule fromMap_null_free [of _ rt c "idp_CustomMapping i"]) (use assms(2) Inr in \<open>simp add: enrich_def item\<close>)
  qed (use assms(2) in \<open>simp add: enrich_def item\<close>)
qed

lemma finish_request_answers:
  assumes "answerable sn"
  shows "\<exists>r. finish_request env now sn req c i s = Done r"
proof (cases "finish_request env now sn req c i s")
  case (Panic p)
  from finish_request_Panic [OF this] assms show ?thesis by (auto simp: answerable_def)
qed blast

lemma verifyAndEnrich_answers:
  assumes "answerable sn"
  shows "\<exists>r s'. verifyAndEnrich rt now raw tokenReq (sn_idpVerifiers sn) s = Done (r, s')
    \<and> (\<forall>c item. r = Ok (c, item) \<longrightarrow> null_free (cl_CustomClaims c))"
proof -
  from assms have "\<forall>item\<in>set (sn_idpVerifiers sn). answers_without_null item" by (simp add: answerable_def)
  from verification_answers [OF this, of rt now raw "[]"] obtain r where
    r: "runVerification rt now raw (sn_idpVerifiers sn) = Done r"
      "\<forall>c item t. r = Ok (c, item, t) \<longrightarrow> item \<in> set (sn_idpVerifiers sn) \<and> null_free (cl_CustomClaims c)"
    unfolding runVerification_def by blast
  show ?thesis
  proof (cases r)
    case (Inr x)
    obtain c item t where x: "x = (c, item, t)" by (metis prod.exhaust)
    with r(2) Inr have "item \<in> set (sn_idpVerifiers sn)" "null_free (cl_CustomClaims c)" by blast+
    with assms have "answers_without_null item" "null_free (cl_CustomClaims c)" by (simp_all add: answerable_def)
    from enrich_answers [OF this, of rt tokenReq t] r(1) Inr x show ?thesis
      by (auto simp: verifyAndEnrich_def Let_def)
  qed (use r(1) in \<open>simp add: verifyAndEnrich_def\<close>)
qed

lemma handleAuthRequest_answers:
  assumes "answerable sn"
  shows "\<exists>r s'. handleAuthRequest env vNow mNow sn req s = Done (r, s')"
proof -
  obtain raw tok where x: "extractJWT req = (raw, tok)" by (metis prod.exhaust)
  from verifyAndEnrich_answers [OF assms, of "be_rt env" vNow raw tok "inFlight 1 s"] obtain r s1 where
    v: "verifyAndEnrich (be_rt env) vNow raw tok (sn_idpVerifiers sn) (inFlight 1 s) = Done (r, s1)"
      "\<forall>c item. r = Ok (c, item) \<longrightarrow> null_free (cl_CustomClaims c)" by blast
  show ?thesis
  proof (cases r)
    case (Inl e)
    with v show ?thesis by (simp add: handleAuthRequest_def x Let_def)
  next
    case (Inr ci)
    obtain c item where ci: "ci = (c, item)" by (cases ci)
    with v Inr have "null_free (with_client_info req (toMap c))"
      by (simp add: with_client_info_def null_free_mput null_free_toMap)
    then obtain c' where f: "fromMap (be_rt env) c (with_client_info req (toMap c)) (idp_CustomMapping (snd item)) = Done c'"
      by (rule fromMap_null_free)
    obtain g s2 where "finish_request env mNow sn req c' (snd item) s1 = Done (g, s2)"
      using finish_request_answers [OF assms] by fast
    with v(1) Inr ci f show ?thesis by (simp add: handleAuthRequest_def x Let_def)
  qed
qed

section \<open>The service around a handler that answers\<close>

locale answering_handler =
  fixes handler :: "'p auth_handler_fn" and ready :: bool
  assumes handler_answers: "ready \<Longrightarrow> \<exists>r s'. handler req s = Done (r, s')"
begin

text \<open>The service answers a sealed request only after it opened it, so it has the key to answer with.\<close>

lemma Respond_answers:
  "mr_xkey req \<noteq> [] \<longrightarrow> as_encryptionKey a \<noteq> None \<Longrightarrow> \<exists>reply s'. Respond jw a req u sv t e s = Done (reply, s')"
  by (auto simp: Respond_def split: sum.split)

lemma handle_token_answers:
  assumes "ready" and key: "mr_xkey req \<noteq> [] \<longrightarrow> as_encryptionKey a \<noteq> None"
  shows "\<exists>reply s'. handle_token jw a handler req token s = Done (reply, s')"
proof (cases "jw_decode_request jw token")
  case (Inr rc)
  from handler_answers [OF assms(1)] obtain r s1 where h: "handler rc s = Done (r, s1)" by blast
  show ?thesis
  proof (cases r)
    case (Inl e)
    with Inr h Respond_answers [OF key] show ?thesis by (simp add: handle_token_def)
  next
    case ok: (Inr g)
    obtain claims kp info where g: "g = (claims, kp, info)" by (metis prod.exhaust)
    obtain signed where "ValidateAndSign jw (Some claims) kp (Some info) = Done signed"
      using ValidateAndSign_total by blast
    with Inr h ok g Respond_answers [OF key] show ?thesis by (cases signed) (simp_all add: handle_token_def)
  qed
qed (simp add: handle_token_def)

lemma Handle_answers:
  assumes "ready"
  shows "\<exists>reply s'. Handle jw a handler req s = Done (reply, s')"
  using handle_token_answers [OF assms, of req a] by (auto simp: Handle_def split: option.split sum.split)

end

interpretation answering_callback: answering_handler
  "\<lambda>req s. newAuthCallbackWithWatcher env vNow mNow w req s" "answerable (State w)"
  for env :: "('t, 'p) broker_env" and vNow mNow :: int and w :: "('t, 'p) watcher"
  by unfold_locales (simp add: newAuthCallbackWithWatcher_def Let_def handleAuthRequest_answers)

section \<open>Properties\<close>

text \<open>
  Property C14. Every request is answered when each account of the live configuration has its signing
  key and the providers' claims hold no \<open>null\<close>: whatever the request, encrypted or not, decodable or
  not, granted or refused, the handler returns a reply and does not bring the broker down.
\<close>

theorem every_request_is_answered:
  assumes "answerable (State w)"
  shows "\<exists>reply s'. Handle (be_jwt env) a (\<lambda>r q. newAuthCallbackWithWatcher env vNow mNow w r q) req s = Done (reply, s')"
  by (rule answering_callback.Handle_answers) (rule assms)

lemma sample_answerable: "answerable (State sample_watcher)"
proof -
  have "null_free sample_raw" "null_free [(''email'', GStr ''joe@x'')]" by (simp_all add: sample_raw_def)
  then have "answers_without_null (sample_verifier, sample_idp)"
    by (auto simp: answers_without_null_def sample_verifier_def sample_provider_def sample_token_def split: if_splits)
  then show ?thesis
    by (simp add: answerable_def State_def sample_watcher_def NewConfigWatcher_def sample_snapshot_def sample_config_def)
qed

theorem every_request_is_answered_witness:
  "\<exists>reply s'. Handle sample_jwt sample_service
     (\<lambda>r q. newAuthCallbackWithWatcher sample_broker_env (1100 * second) (1100 * second) sample_watcher r q)
     \<lparr>mr_data = ''garbled'', mr_xkey = ''XSRV''\<rparr> sample_state = Done (reply, s')"
  using every_request_is_answered [OF sample_answerable, of sample_broker_env] by (simp add: sample_broker_env_def)

text \<open>One running request can be answered now, whichever it is.\<close>

lemma answer_step:
  assumes "sy_running s = xs @ (req, w, n) # ys" and "answerable (State w)"
  shows "\<exists>reply q. system_step ops fs paths files env a s (answered s (xs @ ys) req w n reply q)"
  using system_step.Answer [OF assms(1), of env a "be_config env"]
    answering_callback.Handle_answers [OF assms(2), of "be_jwt env" a env]
  by fastforce



end
