(* ===== verification/Auth_Refusals.thy ===== *)
theory Auth_Refusals
  imports Auth_Callback_Properties
begin

text \<open>
  Why the callback refuses a request: the reasons as a relation, read off the parts the handler
  calls, and the handler's answer in terms of it.
\<close>

section \<open>Reasons\<close>

text \<open>
  The identity a request is handled with: its token accepted for the provider, the claims enriched
  and given the client's identity.
\<close>

definition identified ::
  "('t, 'p) broker_env \<Rightarrow> int \<Rightarrow> ('t, 'p) snapshot \<Rightarrow> auth_request \<Rightarrow> idp_claims \<Rightarrow> idp \<Rightarrow> bool" where
  "identified env vNow sn req c2 i \<longleftrightarrow>
     fst (extractJWT req) \<noteq> []
     \<and> (\<exists>c v t c1.
          runVerification (be_rt env) vNow (fst (extractJWT req)) (sn_idpVerifiers sn) = Done (Ok (c, (v, i), t))
          \<and> enrich (be_rt env) (snd (extractJWT req)) (c, (v, i), t) = Done c1
          \<and> fromMap (be_rt env) c1 (with_client_info req (toMap c1)) (idp_CustomMapping i) = Done c2)"

text \<open>The reasons, with the status that a refusal is counted under and the error it is answered with.\<close>

inductive refusal ::
  "('t, 'p) broker_env \<Rightarrow> int \<Rightarrow> ('t, 'p) snapshot \<Rightarrow> auth_request \<Rightarrow> 'p expr_cache \<Rightarrow> string \<Rightarrow> go_error \<Rightarrow> bool"
  for env :: "('t, 'p) broker_env" and vNow :: int and sn :: "('t, 'p) snapshot" and req :: auth_request
    and cache :: "'p expr_cache" where
  NoToken: "fst (extractJWT req) = [] \<Longrightarrow> refusal env vNow sn req cache StatusError NoJwtInRequest"
| NotVerified: "fst (extractJWT req) \<noteq> [] \<Longrightarrow>
    runVerification (be_rt env) vNow (fst (extractJWT req)) (sn_idpVerifiers sn) = Done (Err e) \<Longrightarrow>
    refusal env vNow sn req cache StatusDenied e"
| NotRendered: "identified env vNow sn req c i \<Longrightarrow>
    GetConfig (be_templates env) (be_config env) (sn_configManager sn) (toMap c) = Err e \<Longrightarrow>
    refusal env vNow sn req cache StatusError e"
| NotBound: "identified env vNow sn req c i \<Longrightarrow>
    GetConfig (be_templates env) (be_config env) (sn_configManager sn) (toMap c) = Ok cfg \<Longrightarrow>
    fst (lookupUserAccount (be_engine env) (jw_lists (be_jwt env)) cfg (toMap c) cache) = Err e \<Longrightarrow>
    refusal env vNow sn req cache StatusDenied e"
| NoAccount: "identified env vNow sn req c i \<Longrightarrow>
    GetConfig (be_templates env) (be_config env) (sn_configManager sn) (toMap c) = Ok cfg \<Longrightarrow>
    fst (lookupUserAccount (be_engine env) (jw_lists (be_jwt env)) cfg (toMap c) cache) = Ok ([], terms) \<Longrightarrow>
    refusal env vNow sn req cache StatusError EmptyAccountName"
| AccountUnknown: "identified env vNow sn req c i \<Longrightarrow>
    GetConfig (be_templates env) (be_config env) (sn_configManager sn) (toMap c) = Ok cfg \<Longrightarrow>
    fst (lookupUserAccount (be_engine env) (jw_lists (be_jwt env)) cfg (toMap c) cache) = Ok (name, terms) \<Longrightarrow>
    name \<noteq> [] \<Longrightarrow> lookupAccountInfo (sn_config sn) name = Err e \<Longrightarrow>
    refusal env vNow sn req cache StatusError e"

lemma identified_unique:
  "identified env vNow sn req c i \<Longrightarrow> identified env vNow sn req c' i' \<Longrightarrow> c' = c \<and> i' = i"
  unfolding identified_def by fastforce

text \<open>The reasons left once the identity is known are the errors of \<open>buildUserClaims\<close>.\<close>

lemma refusal_of_identified:
  assumes "identified env vNow sn req c i"
  shows "refusal env vNow sn req cache st e \<longleftrightarrow>
    (\<exists>cache'. buildUserClaims env mNow (sn_config sn) (sn_configManager sn) c i req cache = (Inl (st, e), cache'))"
proof -
  from assms have id: "identified env vNow sn req c' i' \<longleftrightarrow> c' = c \<and> i' = i" for c' i'
    using identified_unique [OF assms] by blast
  from assms have raw: "fst (extractJWT req) \<noteq> []"
    "\<nexists>e. runVerification (be_rt env) vNow (fst (extractJWT req)) (sn_idpVerifiers sn) = Done (Err e)"
    by (auto simp: identified_def)
  show ?thesis
    unfolding refusal.simps [of env vNow sn req cache] id
    using raw
    by (auto simp: buildUserClaims_def split: sum.split prod.split)
qed

section \<open>Properties\<close>

text \<open>
  Property C5. A request is refused exactly when there is one of these reasons, with that reason's
  error, and it is counted under that reason's status: no token in the request; a token that no
  provider accepts; a configuration that cannot be rendered with the claims; no role binding for
  them; a binding without an account, or with one that is not configured. A request without such a
  reason is granted.
\<close>

theorem refused_for_a_reason:
  assumes "handleAuthRequest env vNow mNow sn req s0 = Done (r, s1)"
  shows "(r = Err e \<longleftrightarrow> (\<exists>st. refusal env vNow sn req (rq_cache s0) st e))
    \<and> (refusal env vNow sn req (rq_cache s0) st e \<longrightarrow> rq_metrics s0 = Some m \<longrightarrow>
         (\<exists>m1. rq_metrics s1 = Some m1 \<and> AuthRequestsTotal m1 = inc [st] (AuthRequestsTotal m)))"
  using assms
proof (cases rule: handleAuthRequest_cases)
  case nojwt
  then have "refusal env vNow sn req (rq_cache s0) st' e' \<longleftrightarrow> st' = StatusError \<and> e' = NoJwtInRequest" for st' e'
    by (auto simp: identified_def refusal.simps [of env vNow sn req "rq_cache s0"])
  with nojwt show ?thesis by (auto simp: inFlight_def recordResult_def with_metrics_def)
next
  case (refused e0)
  from refused(2,4) have "refusal env vNow sn req (rq_cache s0) st' e' \<longleftrightarrow> st' = StatusDenied \<and> e' = e0" for st' e'
    by (auto simp: identified_def refusal.simps [of env vNow sn req "rq_cache s0"])
  with refused show ?thesis by (auto simp: inFlight_def recordResult_def with_metrics_def)
next
  case (verified c v i t c1 c2 s2)
  then have "identified env vNow sn req c2 i" unfolding identified_def by blast
  note reasons = refusal_of_identified [OF this, of "rq_cache s0" _ _ mNow]
  let ?b = "buildUserClaims env mNow (sn_config sn) (sn_configManager sn) c2 i req (rq_cache s0)"
  show ?thesis
  proof (cases "fst ?b")
    case (Inl se)
    then obtain st0 e0 cache' where b: "?b = (Inl (st0, e0), cache')" by (cases se; cases ?b) auto
    with verified(5) have "r = Err e0"
      "s2 = recordResult st0 ((with_metrics (\<lambda>m. m\<lparr>IDPVerifyTotal := inc [idp_Description i, StatusSuccess] (IDPVerifyTotal m),
              IDPVerifyDuration := inc [idp_Description i] (IDPVerifyDuration m)\<rparr>) (inFlight 1 s0))\<lparr>rq_cache := cache'\<rparr>)"
      by (simp_all add: finish_request_def inFlight_def)
    with verified(6) b show ?thesis by (auto simp: reasons inFlight_def recordResult_def)
  next
    case (Inr g)
    then have "\<not> refusal env vNow sn req (rq_cache s0) st' e'" for st' e'
      by (auto simp: reasons)
    moreover have "r \<noteq> Err e" using Inr verified(5)
      by (cases ?b) (auto simp: finish_request_def inFlight_def with_metrics_def dest!: bind_Done split: prod.splits)
    ultimately show ?thesis by blast
  qed
qed

theorem refused_for_a_reason_witness:
  "\<exists>s1 m1. handleAuthRequest sample_broker_env 0 0 sample_snapshot (sample_request\<lparr>ar_Password := []\<rparr>) sample_state
       = Done (Err NoJwtInRequest, s1)
     \<and> rq_metrics s1 = Some m1 \<and> AuthRequestsTotal m1 = inc [StatusError] no_counts"
proof -
  let ?req = "sample_request\<lparr>ar_Password := []\<rparr>"
  have x: "fst (extractJWT ?req) = []"
    by (simp add: extractJWT_def sample_request_def no_password)
  then have "\<exists>r s1. handleAuthRequest sample_broker_env 0 0 sample_snapshot ?req sample_state = Done (r, s1)"
    by (auto simp: handleAuthRequest_def Let_def split: prod.split)
  then obtain r s1 where h: "handleAuthRequest sample_broker_env 0 0 sample_snapshot ?req sample_state = Done (r, s1)" by blast
  have why: "refusal sample_broker_env 0 sample_snapshot ?req (rq_cache sample_state) StatusError NoJwtInRequest"
    by (rule refusal.NoToken) (rule x)
  have "rq_metrics sample_state = Some new_metrics" "AuthRequestsTotal new_metrics = no_counts"
    by (simp_all add: sample_state_def new_metrics_def)
  with refused_for_a_reason [OF h, of NoJwtInRequest StatusError new_metrics] why h show ?thesis by auto
qed

end
