(* ===== verification/Audit_Message.thy ===== *)
theory Audit_Message
  imports Auth_Callback_Properties
begin

text \<open>
  The message on the audit subject: \<open>publishAuditEvent\<close> of \<open>internal/broker/auth_callback.go\<close> puts the
  event into a map and marshals it. The forms that \<open>nats-io/jwt\<close> gives permissions and limits are
  arguments. The message is read back by whoever listens on the subject.
\<close>

definition event_value :: "(permissions \<Rightarrow> go_value) \<Rightarrow> (limits \<Rightarrow> go_value) \<Rightarrow> audit_event \<Rightarrow> go_map" where
  "event_value pv lv ev =
     [(''account'', GStr (ev_account ev)), (''account_pub_nkey'', GStr (ev_account_pub_nkey ev)),
      (''user_pub_nkey'', GStr (ev_user_pub_nkey ev)), (''username'', GStr (ev_username ev)),
      (''email'', GStr (ev_email ev)), (''name'', GStr (ev_name ev)), (''idp'', GStr (ev_idp ev)),
      (''created_at'', GStr (ev_created_at ev)), (''expires_at'', GStr (ev_expires_at ev)),
      (''permissions'', pv (ev_permissions ev)), (''limits'', lv (ev_limits ev)),
      (''signing_account'', GStr (ev_signing_account ev))]
     @ (case ev_signing_key ev of
          None \<Rightarrow> []
        | Some k \<Rightarrow> [(''signing_key_type'', GStr (sk_Type k)), (''signing_key_pub_nkey'', GStr (sk_PublicKey k))])"

definition event_message :: "go_runtime \<Rightarrow> (permissions \<Rightarrow> go_value) \<Rightarrow> (limits \<Rightarrow> go_value) \<Rightarrow> audit_event \<Rightarrow> string result" where
  "event_message rt pv lv ev = Marshal rt (GMap (event_value pv lv ev))"

text \<open>The texts in an event.\<close>

definition event_texts :: "audit_event \<Rightarrow> string list" where
  "event_texts ev =
     [ev_account ev, ev_account_pub_nkey ev, ev_user_pub_nkey ev, ev_username ev, ev_email ev, ev_name ev, ev_idp ev,
      ev_created_at ev, ev_expires_at ev, ev_signing_account ev]
     @ (case ev_signing_key ev of None \<Rightarrow> [] | Some k \<Rightarrow> [sk_Type k, sk_PublicKey k])"

lemma wf_event: "wf_map (event_value pv lv ev)"
  by (cases "ev_signing_key ev") (simp_all add: event_value_def wf_map_def)

lemma event_keys_utf8:
  "list_all valid_utf8 [''account'', ''account_pub_nkey'', ''user_pub_nkey'', ''username'', ''email'', ''name'', ''idp'',
     ''created_at'', ''expires_at'', ''permissions'', ''limits'', ''signing_account'', ''signing_key_type'',
     ''signing_key_pub_nkey'']"
  by code_simp

lemma event_faithful:
  assumes "list_all valid_utf8 (event_texts ev)" and "json_faithful rt (pv (ev_permissions ev))"
    and "json_faithful rt (lv (ev_limits ev))"
  shows "json_faithful rt (GMap (event_value pv lv ev))"
  using assms event_keys_utf8 wf_event [of pv lv ev]
  by (simp add: event_value_def event_texts_def split: option.splits)

lemma value_map_depth:
  "json_depth (value_json rt (GMap m)) \<le> Suc n \<longleftrightarrow> (\<forall>(k, v)\<in>set m. json_depth (value_json rt v) \<le> n)"
  by (auto simp: depth_le simp del: json_depth.simps(1,2))

lemma event_nests:
  assumes "json_depth (value_json rt (pv (ev_permissions ev))) < max_nesting"
    and "json_depth (value_json rt (lv (ev_limits ev))) < max_nesting"
  shows "nests rt (GMap (event_value pv lv ev))"
proof -
  obtain n where n: "max_nesting = Suc n" by (simp add: max_nesting_def)
  with assms show ?thesis
    unfolding nests_def n value_map_depth by (auto simp: event_value_def split: option.splits)
qed

text \<open>What a map holds after a passage through JSON.\<close>

lemma mget_normal_map: "wf_map m \<Longrightarrow> mget (normal_map m) k = map_option json_normal (mget m k)"
proof -
  assume "wf_map m"
  then have "wf_map (map (\<lambda>(k, v). (k, json_normal v)) m)" by (simp add: wf_map_def o_def case_prod_beta)
  then have "mget (normal_map m) k = mget (map (\<lambda>(k, v). (k, json_normal v)) m) k"
    unfolding normal_map_def by (rule mget_sort_keys)
  then show ?thesis by (simp add: mget_def map_of_map)
qed

text \<open>
  Property C18. The audit message can be read: marshalling it does not fail, and what a reader
  unmarshals has the account, the user's key and name, the mail address, the provider, the times, the
  permissions and the limits of the event, and the signing key exactly if its type was found out.
\<close>

theorem audit_message_reads_back:
  assumes "list_all valid_utf8 (event_texts ev)"
    and "json_faithful rt (pv (ev_permissions ev))" and "json_faithful rt (lv (ev_limits ev))"
    and "json_depth (value_json rt (pv (ev_permissions ev))) < max_nesting"
    and "json_depth (value_json rt (lv (ev_limits ev))) < max_nesting"
  shows "\<exists>msg m. event_message rt pv lv ev = Ok msg \<and> Unmarshal_map msg = Ok (Some m)
    \<and> mget m ''account'' = Some (GStr (ev_account ev)) \<and> mget m ''account_pub_nkey'' = Some (GStr (ev_account_pub_nkey ev))
    \<and> mget m ''user_pub_nkey'' = Some (GStr (ev_user_pub_nkey ev)) \<and> mget m ''username'' = Some (GStr (ev_username ev))
    \<and> mget m ''email'' = Some (GStr (ev_email ev)) \<and> mget m ''name'' = Some (GStr (ev_name ev))
    \<and> mget m ''idp'' = Some (GStr (ev_idp ev))
    \<and> mget m ''created_at'' = Some (GStr (ev_created_at ev)) \<and> mget m ''expires_at'' = Some (GStr (ev_expires_at ev))
    \<and> mget m ''permissions'' = Some (json_normal (pv (ev_permissions ev)))
    \<and> mget m ''limits'' = Some (json_normal (lv (ev_limits ev)))
    \<and> mget m ''signing_account'' = Some (GStr (ev_signing_account ev))
    \<and> mget m ''signing_key_type'' = map_option (GStr \<circ> sk_Type) (ev_signing_key ev)
    \<and> mget m ''signing_key_pub_nkey'' = map_option (GStr \<circ> sk_PublicKey) (ev_signing_key ev)"
proof -
  have f: "json_faithful rt (GMap (event_value pv lv ev))" using assms(1-3) by (rule event_faithful)
  have n: "nests rt (GMap (event_value pv lv ev))" using assms(4,5) by (rule event_nests)
  obtain msg where t: "event_message rt pv lv ev = Ok msg"
    unfolding event_message_def using marshal_faithful [OF f] by blast
  have u: "Unmarshal_map msg = Ok (Some (normal_map (event_value pv lv ev)))"
    using unmarshal_marshal [OF f n] t by (simp add: event_message_def)
  have g: "mget (event_value pv lv ev) k = map_of (event_value pv lv ev) k" for k by (simp add: mget_def)
  show ?thesis
    by (intro exI conjI, rule t, rule u)
      (simp_all add: mget_normal_map [OF wf_event] g, simp_all add: event_value_def split: option.split)
qed

definition sample_event :: audit_event where
  "sample_event = \<lparr>ev_account = ''SALES'', ev_account_pub_nkey = ''ASALES'', ev_user_pub_nkey = ''UKEY'', ev_username = ''joe'',
     ev_email = [], ev_name = ''Joe'', ev_idp = ''sso'', ev_created_at = ''2024-01-01T00:00:00Z'',
     ev_expires_at = ''2024-01-01T01:00:00Z'', ev_permissions = no_permissions, ev_limits = no_limits,
     ev_signing_account = ''SYS'', ev_signing_key = Some \<lparr>sk_Type = ''pub_key'', sk_PublicKey = ''ASALES''\<rparr>\<rparr>"

definition sample_permissions_value :: "permissions \<Rightarrow> go_value" where
  "sample_permissions_value p = GMap [(''pub'', GMap []), (''sub'', GMap [])]"

definition sample_limits_value :: "limits \<Rightarrow> go_value" where
  "sample_limits_value l = GMap [(''subs'', GI64 (- 1)), (''data'', GI64 (- 1)), (''payload'', GI64 (- 1))]"

theorem audit_message_reads_back_witness:
  "\<exists>msg m. event_message sample_runtime sample_permissions_value sample_limits_value sample_event = Ok msg
     \<and> Unmarshal_map msg = Ok (Some m) \<and> mget m ''account'' = Some (GStr ''SALES'')
     \<and> mget m ''signing_key_type'' = Some (GStr ''pub_key'')"
proof -
  have texts: "list_all valid_utf8 (event_texts sample_event)" by code_simp
  have keys: "valid_utf8 ''pub''" "valid_utf8 ''sub''" "valid_utf8 ''subs''" "valid_utf8 ''data''" "valid_utf8 ''payload''"
    by code_simp+
  have p: "json_faithful sample_runtime (sample_permissions_value x)" "json_faithful sample_runtime (sample_limits_value y)" for x y
    using keys by (simp_all add: sample_permissions_value_def sample_limits_value_def wf_map_def)
  have "json_depth (value_json sample_runtime (sample_permissions_value x)) < max_nesting"
    "json_depth (value_json sample_runtime (sample_limits_value y)) < max_nesting" for x y
    by (simp_all add: sample_permissions_value_def sample_limits_value_def sort_keys_def max_nesting_def)
  note r = audit_message_reads_back [where ev = sample_event and pv = sample_permissions_value and lv = sample_limits_value, OF texts p this]
  have "ev_account sample_event = ''SALES''" "ev_signing_key sample_event = Some \<lparr>sk_Type = ''pub_key'', sk_PublicKey = ''ASALES''\<rparr>"
    by (simp_all add: sample_event_def)
  with r show ?thesis by (elim exE conjE, intro exI conjI) auto
qed

end
