(* ===== verification/Credentials.thy ===== *)
theory Credentials
  imports Auth_Service Token_Request
begin

text \<open>
  What the broker takes from the credentials of a connection: the provider's token, the access token
  for the user-info endpoint and the trace context. \<open>extractJWT\<close> of \<open>internal/broker/auth_callback.go\<close>
  and \<open>extractTraceContext\<close> of \<open>internal/broker/auth_service.go\<close> read the same text.
\<close>

definition credentials :: "auth_request \<Rightarrow> string" where
  "credentials req = (if ar_Token req \<noteq> [] then ar_Token req else ar_Password req)"

lemma extractJWT_credentials:
  "extractJWT req =
     (case unmarshal_token_request (credentials req) of
        (t, None) \<Rightarrow> (tr_IDToken t, t)
      | (t, Some e) \<Rightarrow> (credentials req, t))"
  unfolding extractJWT_def credentials_def [symmetric] Let_def by (rule refl)

lemma trace_credentials:
  "extractTraceContext pg req =
     (case unmarshal_token_request (credentials req) of
        (t, None) \<Rightarrow> if tr_Traceparent t \<noteq> [] then ExtractFromTraceparent pg (tr_Traceparent t) else pg_background pg
      | (t, Some e) \<Rightarrow> pg_background pg)"
  by (auto simp: extractTraceContext_def credentials_def Let_def no_password)

section \<open>A token request\<close>

lemma token_members_read:
  assumes "parse_json text = Some (JObj kvs)"
  shows "unmarshal_token_request text = fold (decode_member token_fields) kvs (zero_token_request, None)"
  by (simp add: unmarshal_token_request_def unmarshal_struct_def assms decode_struct_def)

lemma read_fields:
  assumes "unmarshal_token_request text = (t, e)" and "parse_json text = Some (JObj kvs)"
  shows "tr_IDToken t = last_string ''id_token'' kvs" "tr_AccessToken t = last_string ''access_token'' kvs"
    "tr_Traceparent t = last_string ''traceparent'' kvs" "e = None \<longleftrightarrow> list_all member_fits kvs"
proof -
  have t: "t = fst (fold (decode_member token_fields) kvs (zero_token_request, None))"
    and e: "e = snd (fold (decode_member token_fields) kvs (zero_token_request, None))"
    using assms token_members_read by (simp_all add: prod_eq_iff)
  show "tr_IDToken t = last_string ''id_token'' kvs"
    unfolding t id_token.get_members fold_decode_string by (simp only: last_string_def zero_token_request_def fst_conv token_request.simps)
  show "tr_AccessToken t = last_string ''access_token'' kvs"
    unfolding t access_token.get_members fold_decode_string by (simp only: last_string_def zero_token_request_def fst_conv token_request.simps)
  show "tr_Traceparent t = last_string ''traceparent'' kvs"
    unfolding t traceparent.get_members fold_decode_string by (simp only: last_string_def zero_token_request_def fst_conv token_request.simps)
  show "e = None \<longleftrightarrow> list_all member_fits kvs"
    unfolding e decode_members_error by simp
qed

text \<open>
  Property C20. Credentials that are a JSON object are a token request when each member of it fits the
  field it names, whatever else it holds: then the token is the last \<open>id_token\<close> given, and the trace
  context that of the last \<open>traceparent\<close>, if any. With a member that does not fit the whole text is
  taken for the token and no trace context is read; but the access token is the last one given in
  either case. Names are matched without case.
\<close>

theorem token_request_members_decide:
  assumes "parse_json (credentials req) = Some (JObj kvs)"
  shows "fst (extractJWT req) = (if list_all member_fits kvs then last_string ''id_token'' kvs else credentials req)
     \<and> tr_AccessToken (snd (extractJWT req)) = last_string ''access_token'' kvs
     \<and> extractTraceContext pg req =
         (if list_all member_fits kvs \<and> last_string ''traceparent'' kvs \<noteq> []
          then ExtractFromTraceparent pg (last_string ''traceparent'' kvs) else pg_background pg)"
proof -
  obtain t e where u: "unmarshal_token_request (credentials req) = (t, e)" by (metis prod.exhaust)
  note r = read_fields [OF u assms]
  show ?thesis
    unfolding extractJWT_credentials trace_credentials u using r by (cases e) auto
qed

definition sample_members :: "(string \<times> json) list" where
  "sample_members = [(''id_token'', JStr ''old''), (''scope'', JArr []), (''ID_Token'', JStr ''new''), (''access_token'', JNull)]"

lemma sample_members_read:
  "parse_json (compact_text (JObj sample_members)) = Some (JObj sample_members)"
  "list_all member_fits sample_members" "last_string ''id_token'' sample_members = ''new''"
  by code_simp+

theorem token_request_members_decide_witness:
  "fst (extractJWT (sample_request\<lparr>ar_Password := compact_text (JObj sample_members)\<rparr>)) = ''new''"
proof -
  have c: "credentials (sample_request\<lparr>ar_Password := compact_text (JObj sample_members)\<rparr>) = compact_text (JObj sample_members)"
    by (simp add: credentials_def sample_request_def)
  from token_request_members_decide [of "sample_request\<lparr>ar_Password := compact_text (JObj sample_members)\<rparr>" sample_members]
  show ?thesis unfolding c by (simp add: sample_members_read) blast
qed

section \<open>What a client sends\<close>

lemma jwt_first_char: "\<exists>t. raw_url_encode (CHR ''{'' # h) = CHR ''e'' # t"
proof -
  have "bytes_of (CHR ''{'' # h) = 123 # bytes_of h" by (simp add: bytes_of_def)
  moreover have "\<exists>ds. b64_digits (123 # bs) = 30 # ds" for bs
    by (cases bs rule: b64_digits.cases) auto
  moreover have "url_alphabet ! 30 = CHR ''e''" by code_simp
  ultimately show ?thesis unfolding raw_url_encode_def by (metis list.simps(9))
qed

lemma jwt_not_json: "parse_json (CHR ''e'' # t) = None"
proof -
  have "json_value (Suc n) (CHR ''e'' # t) = None" for n
    by (simp add: json_value.simps(2) json_space_def has_prefix_def scan_number_def scan_int_def is_digit_def)
  then show ?thesis by (simp add: parse_json_def)
qed

text \<open>
  Property C21. What a client sends arrives: a token request whose strings are UTF-8, marshalled compact or in
  lines, is read back field by field, and its \<open>id_token\<close> is the token; and a bare JWT, which starts
  with the encoded JSON object of its header, is the token itself, with no access token beside it.
\<close>

theorem sent_credentials_arrive:
  "(token_request_text t \<and> credentials req \<in> {compact_text (token_request_json t), indented_text (token_request_json t)}
      \<longrightarrow> extractJWT req = (tr_IDToken t, t))
   \<and> (credentials req = raw_url_encode (CHR ''{'' # header) @ rest \<longrightarrow> extractJWT req = (credentials req, zero_token_request))"
proof (intro conjI impI)
  assume t: "token_request_text t \<and> credentials req \<in> {compact_text (token_request_json t), indented_text (token_request_json t)}"
  then have "parse_json (credentials req) = Some (token_request_json t)"
    using parse_compact [OF token_json_ok] parse_indented [OF token_json_ok] by auto
  then have "unmarshal_token_request (credentials req) = (t, None)"
    using t by (simp add: unmarshal_token_request_def unmarshal_struct_def decode_token_request)
  then show "extractJWT req = (tr_IDToken t, t)" by (simp add: extractJWT_credentials)
next
  assume c: "credentials req = raw_url_encode (CHR ''{'' # header) @ rest"
  obtain u where "raw_url_encode (CHR ''{'' # header) = CHR ''e'' # u" using jwt_first_char by blast
  then have "parse_json (credentials req) = None" by (simp add: c jwt_not_json)
  then show "extractJWT req = (credentials req, zero_token_request)"
    by (simp add: extractJWT_credentials unmarshal_token_request_def unmarshal_struct_def)
qed

definition sample_token_request :: token_request where
  "sample_token_request = \<lparr>tr_AccessToken = ''at'', tr_ExpiresIn = 300, tr_IDToken = ''jwt'', tr_RefreshToken = [],
     tr_TokenType = ''Bearer'', tr_Traceparent = []\<rparr>"

theorem sent_credentials_arrive_witness:
  "extractJWT (sample_request\<lparr>ar_Password := indented_text (token_request_json sample_token_request)\<rparr>) = (''jwt'', sample_token_request)
   \<and> extractJWT (sample_request\<lparr>ar_Token := raw_url_encode ''{}'' @ ''.e30.c2ln''\<rparr>) = (''e30.e30.c2ln'', zero_token_request)"
proof -
  let ?p = "sample_request\<lparr>ar_Password := indented_text (token_request_json sample_token_request)\<rparr>"
  let ?q = "sample_request\<lparr>ar_Token := raw_url_encode ''{}'' @ ''.e30.c2ln''\<rparr>"
  have t: "token_request_text sample_token_request" "tr_IDToken sample_token_request = ''jwt''" by code_simp+
  have p: "credentials ?p = indented_text (token_request_json sample_token_request)" by (simp add: credentials_def sample_request_def)
  have "raw_url_encode ''{}'' = ''e30''" by code_simp
  then have q: "credentials ?q = ''e30.e30.c2ln''" "credentials ?q = raw_url_encode ''{}'' @ ''.e30.c2ln''"
    by (simp_all add: credentials_def)
  show ?thesis
    using sent_credentials_arrive [of sample_token_request ?p] sent_credentials_arrive [of _ ?q "''}''" "''.e30.c2ln''"] t p q by simp
qed

end
