(* ===== verification/Claims_Json.thy ===== *)
theory Claims_Json
  imports Idp_Claims Go_Json_Roundtrip
begin

text \<open>
  \<open>toMap\<close> as \<open>internal/broker/idp_jwt_claim.go\<close> writes it: the struct is marshalled with the tags of
  its fields, the text is unmarshalled into a map, and the custom claims are put over it. The map is
  the one that \<open>toMap\<close> of \<open>Idp_Claims\<close> computes without the text.
\<close>

section \<open>The text\<close>

definition tagged_string :: "string \<Rightarrow> go_value option" where
  "tagged_string s = (if s = [] then None else Some (GStr s))"

definition tagged_int :: "int \<Rightarrow> go_value option" where
  "tagged_int i = (if i = 0 then None else Some (GI64 i))"

definition tagged_any :: "go_value \<Rightarrow> go_value option" where
  "tagged_any v = (if v = GNil then None else Some v)"

definition tagged_fields :: "idp_claims \<Rightarrow> (string \<times> go_value option) list" where
  "tagged_fields c =
    [(''name'', tagged_string (cl_Name c)),
     (''given_name'', tagged_string (cl_GivenName c)),
     (''family_name'', tagged_string (cl_FamilyName c)),
     (''preferred_username'', tagged_string (cl_PreferredUsername c)),
     (''nickname'', tagged_string (cl_Nickname c)),
     (''gender'', tagged_string (cl_Gender c)),
     (''zoneinfo'', tagged_string (cl_ZoneInfo c)),
     (''locale'', tagged_string (cl_Locale c)),
     (''client_id'', tagged_string (cl_ClientID c)),
     (''groups'', tagged_any (cl_Groups c)),
     (''roles'', tagged_any (cl_Roles c)),
     (''email'', tagged_string (cl_Email c)),
     (''email_verified'', (if cl_EmailVerified c then Some (GBool True) else None)),
     (''picture'', tagged_string (cl_Picture c)),
     (''sub'', tagged_string (cl_Subject c)),
     (''aud'', (if cl_Audience c = [] then None else Some (GStrs (cl_Audience c)))),
     (''exp'', tagged_int (cl_Expiry c)),
     (''iat'', tagged_int (cl_IssuedAt c)),
     (''nbf'', tagged_int (cl_NotBeforeTime c)),
     (''jti'', tagged_string (cl_JwtID c)),
     (''at_hash'', tagged_string (cl_AccessTokenHash c)),
     (''also_known_as'', tagged_string (cl_AlsoKnownAs c))]"

text \<open>\<open>json.Marshal\<close> writes the members of a struct in the order of its fields.\<close>

definition claims_json :: "go_runtime \<Rightarrow> idp_claims \<Rightarrow> json" where
  "claims_json rt c = JObj (map (\<lambda>(k, v). (json_quote k, value_json rt v)) (present (tagged_fields c)))"

definition Marshal_claims :: "go_runtime \<Rightarrow> idp_claims \<Rightarrow> string result" where
  "Marshal_claims rt c =
     (if json_marshals (cl_Groups c) \<and> json_marshals (cl_Roles c) then Ok (compact_text (claims_json rt c))
      else Err JsonUnsupportedValue)"

definition toMap_by_text :: "go_runtime \<Rightarrow> idp_claims \<Rightarrow> go_map" where
  "toMap_by_text rt c =
     (case Marshal_claims rt c of
        Inl e \<Rightarrow> []
      | Inr jsonBytes \<Rightarrow>
          (case Unmarshal_map jsonBytes of
             Inr (Some result) \<Rightarrow> overlay result (cl_CustomClaims c)
           | _ \<Rightarrow> []))"

section \<open>Claims that pass through the text\<close>

definition claims_faithful :: "go_runtime \<Rightarrow> idp_claims \<Rightarrow> bool" where
  "claims_faithful rt c \<longleftrightarrow>
     list_all valid_utf8 [cl_Name c, cl_GivenName c, cl_FamilyName c, cl_PreferredUsername c, cl_Nickname c, cl_Gender c,
       cl_ZoneInfo c, cl_Locale c, cl_ClientID c, cl_Email c, cl_Picture c, cl_Subject c, cl_JwtID c,
       cl_AccessTokenHash c, cl_AlsoKnownAs c]
     \<and> list_all valid_utf8 (cl_Audience c)
     \<and> list_all in_i64 [cl_Expiry c, cl_IssuedAt c, cl_NotBeforeTime c]
     \<and> json_faithful rt (cl_Groups c) \<and> json_faithful rt (cl_Roles c)
     \<and> json_depth (claims_json rt c) \<le> max_nesting"

lemma in_i64_bits: "in_i64 i \<Longrightarrow> \<bar>i\<bar> < 2 ^ 64"
  by (auto simp: in_i64_def)

lemma tagged_keys: "map fst (tagged_fields c) = map fst (std_fields c)"
  by (simp add: tagged_fields_def std_fields_def)

lemma std_keys_utf8: "list_all valid_utf8 standardClaims"
  by code_simp

lemma tagged_normal: "std_fields c = map (\<lambda>(k, v). (k, map_option json_normal v)) (tagged_fields c)"
  by (simp add: std_fields_def tagged_fields_def tagged_string_def omit_string_def tagged_int_def omit_int_def
      tagged_any_def omit_any_def)

lemma present_map: "present (map (\<lambda>(k, v). (k, map_option f v)) fs) = map (\<lambda>(k, v). (k, f v)) (present fs)"
  by (induction fs rule: present.induct) auto

lemma present_mem: "(k, v) \<in> set (present fs) \<longleftrightarrow> (k, Some v) \<in> set fs"
  by (induction fs rule: present.induct) auto

definition faithful_if_any :: "go_runtime \<Rightarrow> go_value option \<Rightarrow> bool" where
  "faithful_if_any rt x \<longleftrightarrow> (case x of None \<Rightarrow> True | Some v \<Rightarrow> json_faithful rt v)"

lemma faithful_tagged:
  "valid_utf8 s \<Longrightarrow> faithful_if_any rt (tagged_string s)"
  "in_i64 n \<Longrightarrow> faithful_if_any rt (tagged_int n)"
  "json_faithful rt v \<Longrightarrow> faithful_if_any rt (tagged_any v)"
  "json_faithful rt v \<Longrightarrow> faithful_if_any rt (if b then Some v else None)"
  "json_faithful rt v \<Longrightarrow> faithful_if_any rt (if b then None else Some v)"
  using in_i64_bits [of n]
  by (simp_all add: faithful_if_any_def tagged_string_def tagged_int_def tagged_any_def)

lemma tagged_faithful:
  assumes "claims_faithful rt c" and "(k, v) \<in> set (present (tagged_fields c))"
  shows "valid_utf8 k \<and> json_faithful rt v"
proof
  from assms(2) have m: "(k, Some v) \<in> set (tagged_fields c)" by (simp add: present_mem)
  then have "k \<in> set (map fst (tagged_fields c))" by force
  then have "k \<in> set standardClaims" using keys_std_fields [of c] by (auto simp: tagged_keys)
  then show "valid_utf8 k" using std_keys_utf8 by (auto simp: list_all_iff)
  have "list_all (faithful_if_any rt) (map snd (tagged_fields c))"
    using assms(1) by (simp add: tagged_fields_def claims_faithful_def faithful_tagged)
  with m show "json_faithful rt v" by (force simp: list_all_iff faithful_if_any_def)
qed

lemma claims_json_reads:
  assumes "claims_faithful rt c"
  shows "json_ok (claims_json rt c)" and "json_go_value (claims_json rt c) = Some (GMap (present (std_fields c)))"
proof -
  note each = tagged_faithful [OF assms]
  show "json_ok (claims_json rt c)"
    using each value_json_ok by (auto simp: claims_json_def raw_ok_quote)
  have "wf_map (present (tagged_fields c))"
    by (rule wf_map_present) (simp add: tagged_keys distinct_std_fields)
  then show "json_go_value (claims_json rt c) = Some (GMap (present (std_fields c)))"
    unfolding claims_json_def tagged_normal present_map
    by (rule read_quoted_members) (use each read_back in blast)
qed

text \<open>
  Property C11. The passage through a JSON text that the code writes is exactly the computed map: for
  claims whose strings are UTF-8, whose times are \<open>int64\<close> and whose collections hold what JSON can
  hold, marshalling and unmarshalling succeed, and what they give with the custom claims over it is
  \<open>toMap\<close>, entry by entry. So no text can turn one claim into another.
\<close>

theorem toMap_is_unmarshal_of_marshal:
  assumes "claims_faithful rt c"
  shows "toMap_by_text rt c = toMap c"
proof -
  have m: "json_marshals (cl_Groups c)" "json_marshals (cl_Roles c)" and d: "json_depth (claims_json rt c) \<le> max_nesting"
    using assms faithful_marshals by (auto simp: claims_faithful_def)
  obtain kvs where kvs: "claims_json rt c = JObj kvs" by (simp add: claims_json_def)
  have "parse_json (compact_text (claims_json rt c)) = Some (claims_json rt c)"
    by (rule parse_compact [OF claims_json_reads(1) [OF assms] d])
  then have "Unmarshal_map (compact_text (claims_json rt c)) = Ok (Some (present (std_fields c)))"
    using claims_json_reads(2) [OF assms] unfolding kvs by (rule unmarshal_members)
  with m show ?thesis by (simp add: toMap_by_text_def Marshal_claims_def toMap_def)
qed

definition sample_text_claims :: idp_claims where
  "sample_text_claims = zero_claims\<lparr>cl_Subject := ''a<b'', cl_Expiry := 1700000000, cl_Groups := GArr [GStr ''ops'', GMap [(''n'', GF64 (Fin 3 0))]],
     cl_CustomClaims := [(''team'', GStr ''sales'')]\<rparr>"

definition sample_json_runtime :: go_runtime where
  "sample_json_runtime = \<lparr>rt_f64_oob = (\<lambda>f. 0), rt_show_f64 = (\<lambda>f. []), rt_json_f64 = (\<lambda>f. case f of Fin m e \<Rightarrow> show_int m | NonFin s \<Rightarrow> [])\<rparr>"

lemma sample_claims_faithful: "claims_faithful sample_json_runtime sample_text_claims"
proof -
  have "valid_utf8 ''a<b''" "valid_utf8 ''ops''" "valid_utf8 ''n''" by code_simp+
  moreover have "f64_reads_back sample_json_runtime (Fin 3 0)"
    using number_ok_int [of 3] int64_parse [of 3] by (simp add: f64_reads_back_def sample_json_runtime_def f64_of_int_def)
  moreover have "json_depth (claims_json sample_json_runtime sample_text_claims) \<le> max_nesting"
    by (simp add: claims_json_def sample_text_claims_def zero_claims_def tagged_fields_def tagged_string_def tagged_int_def
        tagged_any_def sort_keys_def max_nesting_def)
  ultimately show ?thesis
    by (simp add: claims_faithful_def sample_text_claims_def zero_claims_def in_i64_def wf_map_def)
qed

theorem toMap_is_unmarshal_of_marshal_witness:
  "toMap_by_text sample_json_runtime sample_text_claims = toMap sample_text_claims"
  by (rule toMap_is_unmarshal_of_marshal [OF sample_claims_faithful])

end
