(* ===== verification/Go_Time.thy ===== *)
theory Go_Time
  imports Go_Strings
begin

text \<open>
  What the broker uses of Go's \<open>time\<close> formatting: \<open>time.Unix(t, 0).UTC().Format(time.RFC3339)\<close>,
  with the 64-bit count of seconds Go computes dates from.
\<close>

section \<open>Dates\<close>

definition leap_year :: "int \<Rightarrow> bool" where
  "leap_year y \<longleftrightarrow> y mod 4 = 0 \<and> (y mod 100 \<noteq> 0 \<or> y mod 400 = 0)"

definition month_lengths :: "int \<Rightarrow> int list" where
  "month_lengths y = [31, if leap_year y then 29 else 28, 31, 30, 31, 30, 31, 31, 30, 31, 30, 31]"

text \<open>The month (counted from \<open>m\<close>) and the day of the month of a day of the year.\<close>

fun month_day :: "int list \<Rightarrow> int \<Rightarrow> int \<Rightarrow> int \<times> int" where
  "month_day [] m yday = (m, yday + 1)"
| "month_day (l # ls) m yday = (if yday < l then (m, yday + 1) else month_day ls (m + 1) (yday - l))"

text \<open>Year and day of the year of a day, counted from the first of January of year 1.\<close>

definition year_yday :: "int \<Rightarrow> int \<times> int" where
  "year_yday days =
     (let n400 = days div 146097; d400 = days mod 146097;
          n100 = min 3 (d400 div 36524); d100 = d400 - 36524 * n100;
          n4 = d100 div 1461; d4 = d100 mod 1461;
          n1 = min 3 (d4 div 365)
      in (400 * n400 + 100 * n100 + 4 * n4 + n1 + 1, d4 - 365 * n1))"

definition date_of :: "int \<Rightarrow> int \<times> int \<times> int" where
  "date_of days = (case year_yday days of (y, yday) \<Rightarrow> (y, month_day (month_lengths y) 1 yday))"

section \<open>Seconds\<close>

text \<open>
  Go counts seconds, as a \<open>uint64\<close>, from the first of March of the year -292277022400:
  \<open>absolute_epoch\<close> days before year 1.
\<close>

definition absolute_epoch :: int where
  "absolute_epoch = 106751990354238"

definition unix_epoch :: int where
  "unix_epoch = 719162"

definition abs_seconds :: "int \<Rightarrow> int" where
  "abs_seconds t = (t + (unix_epoch + absolute_epoch) * 86400) mod 2 ^ 64"

section \<open>RFC 3339\<close>

definition pad_int :: "nat \<Rightarrow> int \<Rightarrow> string" where
  "pad_int w i =
     (let ds = show_nat (nat \<bar>i\<bar>)
      in (if i < 0 then ''-'' else []) @ replicate (w - length ds) CHR ''0'' @ ds)"

definition rfc3339 :: "int \<Rightarrow> int \<Rightarrow> int \<Rightarrow> int \<Rightarrow> int \<Rightarrow> int \<Rightarrow> string" where
  "rfc3339 y mo d h mi s =
     pad_int 4 y @ ''-'' @ pad_int 2 mo @ ''-'' @ pad_int 2 d @ ''T''
     @ pad_int 2 h @ '':'' @ pad_int 2 mi @ '':'' @ pad_int 2 s @ ''Z''"

definition format_utc :: "int \<Rightarrow> string" where
  "format_utc t =
     (let a = abs_seconds t; sec = a mod 86400
      in case date_of (a div 86400 - absolute_epoch) of
           (y, mo, d) \<Rightarrow> rfc3339 y mo d (sec div 3600) (sec mod 3600 div 60) (sec mod 60))"

section \<open>The calendar\<close>

text \<open>The reference: the number of a date, by counting the years, leap days and months before it.\<close>

definition days_before_year :: "int \<Rightarrow> int" where
  "days_before_year y = 365 * (y - 1) + (y - 1) div 4 - (y - 1) div 100 + (y - 1) div 400"

definition valid_date :: "int \<Rightarrow> int \<Rightarrow> int \<Rightarrow> bool" where
  "valid_date y mo d \<longleftrightarrow> 1 \<le> mo \<and> mo \<le> 12 \<and> 1 \<le> d \<and> d \<le> month_lengths y ! nat (mo - 1)"

definition day_number :: "int \<Rightarrow> int \<Rightarrow> int \<Rightarrow> int" where
  "day_number y mo d = days_before_year y + sum_list (take (nat (mo - 1)) (month_lengths y)) + d - 1"

lemma month_day_correct:
  assumes "month_day ls m yday = (mo, d)" "0 \<le> yday" "yday < sum_list ls"
  shows "m \<le> mo \<and> mo < m + int (length ls) \<and> 1 \<le> d \<and> d \<le> ls ! nat (mo - m)
    \<and> yday = sum_list (take (nat (mo - m)) ls) + d - 1"
  using assms
proof (induction ls m yday rule: month_day.induct)
  case (2 l ls m yday)
  show ?case
  proof (cases "yday < l")
    case True
    with 2 show ?thesis by auto
  next
    case False
    with 2 have "m + 1 \<le> mo \<and> mo < m + 1 + int (length ls) \<and> 1 \<le> d \<and> d \<le> ls ! nat (mo - (m + 1))
      \<and> yday - l = sum_list (take (nat (mo - (m + 1))) ls) + d - 1" by simp
    moreover from this have "nat (mo - m) = Suc (nat (mo - (m + 1)))" by linarith
    ultimately show ?thesis by simp
  qed
qed simp

lemma length_month_lengths: "length (month_lengths y) = 12"
  by (simp add: month_lengths_def)

lemma sum_month_lengths: "sum_list (month_lengths y) = (if leap_year y then 366 else 365)"
  by (simp add: month_lengths_def)

lemma days_before_year_mixed:
  fixes a b c e :: int
  assumes "0 \<le> b" "b \<le> 3" "0 \<le> c" "c \<le> 24" "0 \<le> e" "e \<le> 3"
  shows "days_before_year (400 * a + 100 * b + 4 * c + e + 1) = 146097 * a + 36524 * b + 1461 * c + 365 * e"
proof -
  let ?z = "400 * a + 100 * b + 4 * c + e"
  have "?z div 4 = 100 * a + 25 * b + c" by (rule int_div_pos_eq [of _ _ _ e]) (use assms in auto)
  moreover have "?z div 100 = 4 * a + b" by (rule int_div_pos_eq [of _ _ _ "4 * c + e"]) (use assms in auto)
  moreover have "?z div 400 = a" by (rule int_div_pos_eq [of _ _ _ "100 * b + 4 * c + e"]) (use assms in auto)
  ultimately show ?thesis by (simp add: days_before_year_def)
qed

lemma leap_mixed:
  fixes a b c :: int
  assumes "0 \<le> b" "b \<le> 3" "0 \<le> c" "c \<le> 24" "c = 24 \<Longrightarrow> b = 3"
  shows "leap_year (400 * a + 100 * b + 4 * c + 3 + 1)"
proof -
  let ?y = "400 * a + 100 * b + 4 * c + 3 + 1"
  have "?y = 4 * (100 * a + 25 * b + c + 1)" by simp
  then have "?y mod 4 = 0" by (metis mod_mult_self1_is_0)
  moreover have "?y mod 100 \<noteq> 0 \<or> ?y mod 400 = 0"
  proof (cases "c = 24")
    case True
    with assms have "?y = 400 * (a + 1)" by simp
    then have "?y mod 400 = 0" by (metis mod_mult_self1_is_0)
    then show ?thesis ..
  next
    case False
    then have "?y mod 100 = 4 * c + 4" by (intro int_mod_pos_eq [of _ _ "4 * a + b"]) (use assms in auto)
    with assms show ?thesis by simp
  qed
  ultimately show ?thesis by (simp add: leap_year_def)
qed

text \<open>Quotients are cut off at 3: the fourth century and the fourth year may be a day longer.\<close>

lemma capped_div:
  fixes n r :: int
  assumes "0 \<le> r" "0 < n" "r < 4 * n + k" "0 \<le> k"
  defines "b \<equiv> min 3 (r div n)"
  shows "0 \<le> b" "b \<le> 3" "0 \<le> r - n * b" "r - n * b < n + k" "b < 3 \<Longrightarrow> r - n * b < n"
proof -
  have q: "0 \<le> r div n" "r = n * (r div n) + r mod n" "0 \<le> r mod n" "r mod n < n"
    using assms(1,2) by (simp_all add: pos_imp_zdiv_nonneg_iff)
  show "0 \<le> b" "b \<le> 3" using q(1) by (simp_all add: b_def)
  have "0 \<le> r - n * b \<and> r - n * b < n + k \<and> (b < 3 \<longrightarrow> r - n * b < n)"
  proof (cases "r div n < 3")
    case True
    then have "r - n * b = r mod n" by (simp add: b_def minus_mult_div_eq_mod)
    with q assms(4) show ?thesis by simp
  next
    case False
    then have b: "b = 3" by (simp add: b_def)
    have "n * 3 \<le> n * (r div n)" using False assms(2) by (intro mult_left_mono) simp_all
    then have "n * 3 \<le> r" using q(2,3) by linarith
    with assms(3) show ?thesis unfolding b by simp
  qed
  then show "0 \<le> r - n * b" "r - n * b < n + k" "b < 3 \<Longrightarrow> r - n * b < n" by simp_all
qed

lemma year_yday_correct:
  assumes "year_yday days = (y, yday)"
  shows "0 \<le> yday \<and> yday < (if leap_year y then 366 else 365) \<and> days = days_before_year y + yday"
proof -
  define a where "a = days div 146097"
  define r where "r = days mod 146097"
  define b where "b = min 3 (r div 36524)"
  define q where "q = r - 36524 * b"
  define c where "c = q div 1461"
  define u where "u = q mod 1461"
  define e where "e = min 3 (u div 365)"
  have y: "y = 400 * a + 100 * b + 4 * c + e + 1" and yd: "yday = u - 365 * e"
    using assms [unfolded year_yday_def Let_def, folded a_def r_def, folded b_def, folded q_def, folded c_def u_def, folded e_def]
    by (simp_all only: prod.inject)
  have r: "0 \<le> r" "r < 4 * 36524 + 1" "days = 146097 * a + r" by (simp_all add: r_def a_def)
  have b: "0 \<le> b" "b \<le> 3" "0 \<le> q" "q \<le> 36524" "b < 3 \<Longrightarrow> q < 36524"
    using capped_div [of r 36524 1] r by (simp_all add: b_def q_def)
  have u: "0 \<le> u" "u < 4 * 365 + 1" and cu: "q = 1461 * c + u" by (simp_all add: u_def c_def)
  have "c \<le> 36524 div 1461" unfolding c_def using b(4) by (rule zdiv_mono1) simp
  then have c: "0 \<le> c" "c \<le> 24" using b(3) by (simp_all add: c_def pos_imp_zdiv_nonneg_iff)
  have e: "0 \<le> e" "e \<le> 3" "0 \<le> yday" "yday \<le> 365" "e < 3 \<Longrightarrow> yday < 365"
    using capped_div [of u 365 1] u by (simp_all add: e_def yd)
  have "leap_year y" if "yday = 365"
  proof -
    have e3: "e = 3" using e(2,5) that by (cases "e < 3") simp_all
    then have "u = 1460" using yd that by simp
    then have "b = 3" if "c = 24" using b(2,5) cu that by (cases "b < 3") simp_all
    with b c show ?thesis unfolding y e3 by (intro leap_mixed) simp_all
  qed
  then have "yday < (if leap_year y then 366 else 365)" using e(4) by (cases "yday = 365") simp_all
  moreover have "days = days_before_year y + yday"
    unfolding y days_before_year_mixed [OF b(1,2) c e(1,2)] yd using r(3) cu q_def by simp
  ultimately show ?thesis using e(3) by simp
qed

lemma date_of_correct:
  assumes "date_of days = (y, mo, d)"
  shows "valid_date y mo d \<and> day_number y mo d = days"
proof -
  obtain yday where y: "year_yday days = (y, yday)" and md: "month_day (month_lengths y) 1 yday = (mo, d)"
    using assms by (auto simp: date_of_def split: prod.splits)
  from year_yday_correct [OF y] have "0 \<le> yday" "yday < sum_list (month_lengths y)" "days = days_before_year y + yday"
    by (simp_all add: sum_month_lengths)
  with month_day_correct [OF md] show ?thesis
    by (simp add: valid_date_def day_number_def length_month_lengths)
qed

text \<open>In range the seconds are not wrapped: about 292 billion years before and after 1970.\<close>

lemma abs_seconds_in_range:
  assumes "- 9223372028741760000 \<le> t" "t < 2 ^ 63"
  shows "abs_seconds t = t + (unix_epoch + absolute_epoch) * 86400"
  using assms by (simp add: abs_seconds_def unix_epoch_def absolute_epoch_def)

lemma format_utc_correct:
  assumes "- 9223372028741760000 \<le> t" "t < 2 ^ 63"
  shows "\<exists>y mo d h mi s. format_utc t = rfc3339 y mo d h mi s \<and> valid_date y mo d
     \<and> 0 \<le> h \<and> h < 24 \<and> 0 \<le> mi \<and> mi < 60 \<and> 0 \<le> s \<and> s < 60
     \<and> t = (day_number y mo d - unix_epoch) * 86400 + h * 3600 + mi * 60 + s"
proof -
  define a where "a = abs_seconds t"
  define z where "z = a mod 86400"
  obtain y mo d where ymd: "date_of (a div 86400 - absolute_epoch) = (y, mo, d)" by (metis prod_cases3)
  from date_of_correct [OF this] have day: "valid_date y mo d" "day_number y mo d = a div 86400 - absolute_epoch" by simp_all
  have a: "a = a div 86400 * 86400 + z" "t = a - (unix_epoch + absolute_epoch) * 86400"
    using abs_seconds_in_range [OF assms] by (simp_all add: a_def z_def)
  have z: "0 \<le> z" "z < 86400" "z = z div 3600 * 3600 + z mod 3600 div 60 * 60 + z mod 60"
    using div_mult_mod_eq [of "z mod 3600" 60] div_mult_mod_eq [of z 3600] by (simp_all add: z_def mod_mod_cancel)
  have "format_utc t = rfc3339 y mo d (z div 3600) (z mod 3600 div 60) (z mod 60)"
    by (simp add: format_utc_def ymd flip: a_def z_def)
  moreover have "0 \<le> z div 3600 \<and> z div 3600 < 24 \<and> 0 \<le> z mod 3600 div 60 \<and> z mod 3600 div 60 < 60 \<and> 0 \<le> z mod 60 \<and> z mod 60 < 60"
    using z by auto
  moreover have "t = (day_number y mo d - unix_epoch) * 86400 + z div 3600 * 3600 + z mod 3600 div 60 * 60 + z mod 60"
    using a z day(2) by (simp add: algebra_simps)
  ultimately show ?thesis using day(1) by blast
qed

end
