(* ===== verification/Go_Json_Escape.thy ===== *)
theory Go_Json_Escape
  imports Go_Json_Roundtrip
begin

text \<open>
  Laying out a raw message: some characters of its strings are escaped, and they still stand for the
  same strings.
\<close>

section \<open>The text of a string, piece by piece\<close>

inductive raw_text :: "string \<Rightarrow> bool" where
  Empty: "raw_text []"
| Plain: "c \<noteq> dquote \<Longrightarrow> c \<noteq> backslash \<Longrightarrow> 32 \<le> (of_char c :: nat) \<Longrightarrow> raw_text s \<Longrightarrow> raw_text (c # s)"
| Letter: "d \<in> set escape_letters \<Longrightarrow> raw_text s \<Longrightarrow> raw_text (backslash # d # s)"
| Unicode: "hex4 [h1, h2, h3, h4] = Some x \<Longrightarrow> raw_text s \<Longrightarrow> raw_text (backslash # CHR ''u'' # h1 # h2 # h3 # h4 # s)"

inductive_cases raw_text_Cons: "raw_text (c # s)"

lemma hex4_Cons: "hex4 (h1 # h2 # h3 # h4 # s) = hex4 [h1, h2, h3, h4]"
  by (simp add: hex4_def)

lemma hex4_parts:
  assumes "hex4 t = Some x"
  shows "\<exists>h1 h2 h3 h4 s. t = h1 # h2 # h3 # h4 # s \<and> hex4 [h1, h2, h3, h4] = Some x"
proof -
  from assms obtain a b c d where "map hex_val (take 4 t) = [Some a, Some b, Some c, Some d]"
    by (auto simp: hex4_def split: list.splits option.splits)
  then obtain h1 h2 h3 h4 where four: "take 4 t = [h1, h2, h3, h4]" by (auto simp: map_eq_Cons_conv)
  have "t = h1 # h2 # h3 # h4 # drop 4 t" using append_take_drop_id [of 4 t] unfolding four by simp
  with assms show ?thesis by (metis hex4_Cons)
qed

lemma scanned_raw_text: "scan_chars s = Some (raw, t) \<Longrightarrow> raw_text raw"
proof (induction s arbitrary: raw rule: scan_chars.induct)
  case (1 s)
  show ?case
  proof (cases "char_len s")
    case 0
    with "1.prems" have "raw = []" by (subst (asm) scan_chars.simps) (auto split: list.splits if_splits)
    then show ?thesis by (simp add: raw_text.Empty)
  next
    case (Suc n)
    with "1.prems" obtain raw' where rest: "scan_chars (drop (Suc n) s) = Some (raw', t)" and raw: "raw = take (Suc n) s @ raw'"
      by (auto simp: scan_chars_step)
    note ih = "1.IH" [OF Suc rest]
    obtain c r where s: "s = c # r" using Suc by (cases s) (simp_all add: char_len_def)
    show ?thesis
    proof (cases "c = backslash")
      case False
      with Suc s have "c \<noteq> dquote" "n = 0" "32 \<le> (of_char c :: nat)" by (auto simp: char_len_def split: if_splits)
      with ih False s raw show ?thesis by (simp add: raw_text.Plain)
    next
      case True
      with Suc s obtain d r' where r: "r = d # r'" by (cases r) (auto simp: char_len_def split: if_splits)
      show ?thesis
      proof (cases "d \<in> set escape_letters")
        case True
        with Suc s r \<open>c = backslash\<close> have "n = 1" by (simp add: char_len_def)
        with ih s r raw True \<open>c = backslash\<close> show ?thesis by (simp add: raw_text.Letter)
      next
        case False
        with Suc s r \<open>c = backslash\<close> obtain x where u: "d = CHR ''u''" "hex4 r' = Some x" "n = 5"
          by (auto simp: char_len_def split: if_splits)
        obtain h1 h2 h3 h4 r'' where "r' = h1 # h2 # h3 # h4 # r''" "hex4 [h1, h2, h3, h4] = Some x"
          using hex4_parts [OF u(2)] by blast
        with ih s r raw u \<open>c = backslash\<close> show ?thesis by (simp add: raw_text.Unicode numeral_eq_Suc)
      qed
    qed
  qed
qed

lemma raw_ok_text: "raw_ok raw \<Longrightarrow> raw_text raw"
  unfolding raw_ok_def by (rule scanned_raw_text)

lemma letter_not_u: "d \<in> set escape_letters \<Longrightarrow> d \<noteq> CHR ''u''"
  by (auto simp: escape_letters_def)

lemma raw_text_ok: "raw_text raw \<Longrightarrow> raw_ok raw"
  unfolding raw_ok_def
proof (induction rule: raw_text.induct)
  case Empty
  then show ?case by (simp add: scan_chars_close)
next
  case (Plain c s)
  then have "char_len (c # s @ [dquote]) = Suc 0" by (simp add: char_len_def)
  from scan_chars_step [OF this] Plain show ?case by simp
next
  case (Letter d s)
  then have "char_len (backslash # d # s @ [dquote]) = Suc 1" by (simp add: char_len_def)
  from scan_chars_step [OF this] Letter show ?case by simp
next
  case (Unicode h1 h2 h3 h4 x s)
  have "hex4 (h1 # h2 # h3 # h4 # s @ [dquote]) \<noteq> None" using Unicode(1) hex4_Cons [of h1 h2 h3 h4 "s @ [dquote]"] by simp
  from scan_u_escape [OF this] Unicode(3) show ?case by simp
qed

section \<open>Characters of several bytes\<close>

definition conts :: "string \<Rightarrow> string" where
  "conts s = takeWhile (\<lambda>c. cont_byte (of_char c)) (take 3 s)"

lemma not_cont:
  "\<not> cont_byte b \<Longrightarrow> \<not> utf8_two a b" "\<not> cont_byte b \<Longrightarrow> \<not> utf8_three a b c" "\<not> cont_byte c \<Longrightarrow> \<not> utf8_three a b c"
  "\<not> cont_byte b \<Longrightarrow> \<not> utf8_four a b c d" "\<not> cont_byte c \<Longrightarrow> \<not> utf8_four a b c d" "\<not> cont_byte d \<Longrightarrow> \<not> utf8_four a b c d"
  by (auto simp: utf8_two_def utf8_three_def utf8_four_def cont_byte_def)

lemma utf8_len_conts: "utf8_len (c # s) = utf8_len (c # conts s)"
proof (cases s)
  case Nil
  then show ?thesis by (simp add: conts_def)
next
  case s: (Cons x s1)
  show ?thesis
  proof (cases "cont_byte (of_char x)")
    case False
    then show ?thesis by (cases s1; cases "tl s1") (simp_all add: s conts_def utf8_len_def not_cont)
  next
    case x: True
    show ?thesis
    proof (cases s1)
      case Nil
      with x show ?thesis by (simp add: s conts_def)
    next
      case s1: (Cons y s2)
      show ?thesis
      proof (cases "cont_byte (of_char y)")
        case False
        with x show ?thesis by (cases s2) (simp_all add: s s1 conts_def utf8_len_def not_cont)
      next
        case y: True
        with x show ?thesis by (cases s2) (simp_all add: s s1 conts_def utf8_len_def not_cont)
      qed
    qed
  qed
qed

lemma utf8_bytes_conts:
  assumes "utf8_len (c # s) = Suc n"
  shows "take n s = take n (conts s)" and "\<forall>x\<in>set (take n s). cont_byte (of_char x)"
proof -
  have "take n s = take n (conts s) \<and> (\<forall>x\<in>set (take n s). cont_byte (of_char x))"
    using assms
  proof (cases rule: utf8_len_cases)
    case (two c0 c1 r)
    then show ?thesis by (simp add: conts_def utf8_two_def)
  next
    case (three c0 c1 c2 r)
    then have "cont_byte (of_char c1)" "cont_byte (of_char c2)" using not_cont by blast+
    with three show ?thesis by (simp add: conts_def numeral_2_eq_2)
  next
    case (four c0 c1 c2 c3 r)
    then have "cont_byte (of_char c1)" "cont_byte (of_char c2)" "cont_byte (of_char c3)" using not_cont by blast+
    with four show ?thesis by (simp add: conts_def)
  qed
  then show "take n s = take n (conts s)" and "\<forall>x\<in>set (take n s). cont_byte (of_char x)" by blast+
qed

section \<open>Escaping\<close>

definition html_char :: "char \<Rightarrow> bool" where
  "html_char c \<longleftrightarrow> c = CHR ''<'' \<or> c = CHR ''>'' \<or> c = CHR ''&''"

definition line_separators :: "string list" where
  "line_separators = [utf8_encode 8232, utf8_encode 8233]"

lemma separator_bytes:
  "utf8_encode 8232 = map char_of [226 :: nat, 128, 168]" "utf8_encode 8233 = map char_of [226 :: nat, 128, 169]"
  by (simp_all add: utf8_encode_def)

lemma separator_len: "w \<in> set line_separators \<Longrightarrow> length w = 3 \<and> utf8_len (w @ r) = 3"
  by (auto simp: line_separators_def separator_bytes utf8_len_def utf8_two_def utf8_three_def cont_byte_def)

lemma separator_first: "w \<in> set line_separators \<Longrightarrow> \<exists>c t. w = c # t \<and> (of_char c :: nat) = 226"
  by (auto simp: line_separators_def separator_bytes)

lemma escape_html_char: "html_char c \<Longrightarrow> html_escape (c # r) = quote_byte c @ html_escape r"
  by (subst html_escape.simps) (auto simp: html_char_def)

lemma escape_separator:
  assumes "w \<in> set line_separators"
  shows "html_escape (w @ r) = quote_rune w @ html_escape r"
proof -
  obtain c t where w: "w = c # t" and c: "(of_char c :: nat) = 226" using separator_first [OF assms] by blast
  have "\<not> html_char c" using c by (auto simp: html_char_def)
  moreover have "has_prefix (w @ r) (utf8_encode 8232) \<or> has_prefix (w @ r) (utf8_encode 8233)"
    using assms by (auto simp: line_separators_def)
  moreover have "length w = 3" using separator_len [OF assms] by blast
  ultimately show ?thesis
    by (subst html_escape.simps) (simp add: w html_char_def)
qed

definition escaped_at :: "string \<Rightarrow> bool" where
  "escaped_at s \<longleftrightarrow> (\<exists>c r. s = c # r \<and> html_char c) \<or> (\<exists>w\<in>set line_separators. has_prefix s w)"

lemma escape_other: "\<not> escaped_at (c # r) \<Longrightarrow> html_escape (c # r) = c # html_escape r"
  by (subst html_escape.simps) (auto simp: escaped_at_def html_char_def line_separators_def)

lemma escape_cases:
  obtains (none) "s = []"
  | (html) c r where "s = c # r" "html_char c" "html_escape s = quote_byte c @ html_escape r"
  | (separator) w r where "s = w @ r" "w \<in> set line_separators" "html_escape s = quote_rune w @ html_escape r"
  | (other) c r where "s = c # r" "\<not> escaped_at s" "html_escape s = c # html_escape r"
proof (cases s)
  case (Cons c r)
  show thesis
  proof (cases "escaped_at s")
    case False
    with Cons show ?thesis using other escape_other by simp
  next
    case True
    then show ?thesis
      using html separator escape_html_char escape_separator unfolding escaped_at_def has_prefix_iff by metis
  qed
qed (rule none)

text \<open>What an escape starts with: a backslash, where there was no backslash.\<close>

lemma quoted_start: "html_char c \<Longrightarrow> \<exists>t. quote_byte c = backslash # CHR ''u'' # t"
  "w \<in> set line_separators \<Longrightarrow> \<exists>t. quote_rune w = backslash # CHR ''u'' # t"
  by (auto simp: html_char_def quote_byte_def quote_rune_def line_separators_def)

lemma escaped_not_cont: "escaped_at (c # r) \<Longrightarrow> \<not> cont_byte (of_char c) \<and> c \<noteq> backslash"
  using separator_first by (fastforce simp: escaped_at_def html_char_def cont_byte_def has_prefix_iff)

lemma takeWhile_escape:
  "takeWhile (\<lambda>c. cont_byte (of_char c)) (take n (html_escape s)) = takeWhile (\<lambda>c. cont_byte (of_char c)) (take n s)"
proof (induction n arbitrary: s)
  case (Suc n)
  have b: "\<not> cont_byte (of_char backslash)" by (simp add: cont_byte_def)
  show ?case
  proof (cases s rule: escape_cases)
    case (html c r)
    then have "\<not> cont_byte (of_char c)" using escaped_not_cont [of c r] by (auto simp: escaped_at_def)
    with html quoted_start(1) [OF html(2)] b show ?thesis by auto
  next
    case (separator w r)
    obtain c t where w: "w = c # t" using separator_first [OF separator(2)] by blast
    have "escaped_at (w @ r)" unfolding escaped_at_def using separator(2) has_prefix_append by blast
    then have "escaped_at (c # t @ r)" by (simp add: w)
    then have "\<not> cont_byte (of_char c)" using escaped_not_cont by blast
    with separator w quoted_start(2) [OF separator(2)] b show ?thesis by auto
  next
    case (other c r)
    with Suc show ?thesis by simp
  qed (simp add: html_escape.simps)
qed simp

lemma conts_escape: "conts (html_escape s) = conts s"
  unfolding conts_def by (rule takeWhile_escape)

text \<open>Bytes that are never escaped.\<close>

definition inert :: "char \<Rightarrow> bool" where
  "inert c \<longleftrightarrow> \<not> html_char c \<and> (of_char c :: nat) \<noteq> 226"

lemma inert_not_escaped: "inert c \<Longrightarrow> \<not> escaped_at (c # r)"
  using separator_first by (fastforce simp: escaped_at_def inert_def has_prefix_iff)

lemma escape_inert: "list_all inert w \<Longrightarrow> html_escape (w @ r) = w @ html_escape r"
  by (induction w) (simp_all add: escape_other inert_not_escaped)

lemma cont_inert: "cont_byte (of_char c) \<Longrightarrow> inert c"
  by (auto simp: inert_def html_char_def cont_byte_def)

lemma hex_inert: "hex4 [h1, h2, h3, h4] = Some x \<Longrightarrow> list_all inert [h1, h2, h3, h4]"
proof -
  have "hex_val h = Some v \<Longrightarrow> inert h" for h v
    by (auto simp: inert_def html_char_def hex_val.simps Let_def split: if_splits)
  then show "hex4 [h1, h2, h3, h4] = Some x \<Longrightarrow> list_all inert [h1, h2, h3, h4]"
    by (auto simp: hex4_def split: option.splits)
qed

lemma letter_inert: "d \<in> set escape_letters \<Longrightarrow> list_all inert [backslash, d]"
  by (auto simp: escape_letters_def inert_def html_char_def)

section \<open>An escaped string is the same string\<close>

lemma raw_text_high:
  "raw_text (w @ r) \<Longrightarrow> \<forall>c\<in>set w. 128 \<le> (of_char c :: nat) \<Longrightarrow> raw_text r"
  by (induction w) (auto elim!: raw_text_Cons)

lemma separator_high: "w \<in> set line_separators \<Longrightarrow> \<forall>c\<in>set w. 128 \<le> (of_char c :: nat)"
  by (auto simp: line_separators_def separator_bytes)

lemma quoted_raw_text:
  assumes "raw_text r"
  shows "html_char c \<Longrightarrow> raw_text (quote_byte c @ r)" and "w \<in> set line_separators \<Longrightarrow> raw_text (quote_rune w @ r)"
proof -
  show "raw_text (quote_byte c @ r)" if c: "html_char c"
  proof -
    define n :: nat where "n = of_char c"
    have q: "quote_byte c = [backslash, CHR ''u'', CHR ''0'', CHR ''0'', hex_digit (n div 16), hex_digit (n mod 16)]"
      using c by (auto simp: quote_byte_def html_char_def n_def)
    have "hex4 [CHR ''0'', CHR ''0'', hex_digit (n div 16), hex_digit (n mod 16)] = Some (n div 16 * 16 + n mod 16)"
      using c by (intro hex4_byte) (auto simp: html_char_def n_def)
    from raw_text.Unicode [OF this assms] show ?thesis by (simp add: q)
  qed
  show "raw_text (quote_rune w @ r)" if "w \<in> set line_separators"
    using that raw_text.Unicode [OF hex4_codes(1) [of "[]"] assms] raw_text.Unicode [OF hex4_codes(2) [of "[]"] assms]
    by (auto simp: quote_rune_def line_separators_def)
qed

lemma escape_raw_text: "raw_text s \<Longrightarrow> raw_text (html_escape s)"
proof (induction s rule: length_induct)
  case (1 s)
  show ?case
  proof (cases s rule: escape_cases)
    case none
    with 1 show ?thesis by (simp add: html_escape.simps)
  next
    case (html c r)
    then have "c \<noteq> backslash" by (auto simp: html_char_def)
    with "1.prems" html(1) have "raw_text r" by (auto elim: raw_text_Cons)
    with 1 html quoted_raw_text(1) show ?thesis by simp
  next
    case (separator w r)
    then have "raw_text r" using raw_text_high [OF _ separator_high] "1.prems" by blast
    with 1 separator quoted_raw_text(2) separator_len [OF separator(2)] show ?thesis by simp
  next
    case (other c r)
    from "1.prems" show ?thesis
    proof (cases rule: raw_text.cases)
      case (Plain c' s')
      with "1.IH" other raw_text.Plain show ?thesis by simp
    next
      case (Letter d s')
      then have "html_escape s = backslash # d # html_escape s'"
        using escape_inert [OF letter_inert [of d], of s'] by simp
      with Letter "1.IH" raw_text.Letter show ?thesis by simp
    next
      case (Unicode h1 h2 h3 h4 x s')
      have "list_all inert (backslash # CHR ''u'' # [h1, h2, h3, h4])"
        using hex_inert [OF Unicode(2)] by (simp add: inert_def html_char_def)
      from escape_inert [OF this, of s'] Unicode "1.IH" raw_text.Unicode show ?thesis by simp
    qed (simp add: other(1))
  qed
qed

text \<open>The second half of a surrogate pair, where the text goes on with an escape.\<close>

definition next_escape :: "string \<Rightarrow> nat option" where
  "next_escape s = (if take 2 s = [backslash, CHR ''u''] then hex4 (drop 2 s) else None)"

definition low_half :: "nat option \<Rightarrow> nat option" where
  "low_half h = (case h of Some y \<Rightarrow> if 56320 \<le> y \<and> y < 57344 then Some y else None | None \<Rightarrow> None)"

lemma next_rune_unicode:
  assumes "hex4 [h1, h2, h3, h4] = Some x"
  shows "next_rune (backslash # CHR ''u'' # h1 # h2 # h3 # h4 # s) =
     (if 55296 \<le> x \<and> x < 57344 then
        (case low_half (next_escape s) of
           Some y \<Rightarrow> if x < 56320 then (utf8_encode ((x - 55296) * 1024 + (y - 56320) + 65536), 12) else (replacement, 6)
         | None \<Rightarrow> (replacement, 6))
      else (utf8_encode x, 6))"
  using assms hex4_Cons [of h1 h2 h3 h4 s]
  by (simp add: next_rune_def next_escape_def low_half_def split: option.split)

lemma escape_unicode:
  assumes "hex4 [h1, h2, h3, h4] = Some x"
  shows "html_escape (backslash # CHR ''u'' # h1 # h2 # h3 # h4 # s) = backslash # CHR ''u'' # h1 # h2 # h3 # h4 # html_escape s"
proof -
  have "list_all inert (backslash # CHR ''u'' # [h1, h2, h3, h4])"
    using hex_inert [OF assms] by (simp add: inert_def html_char_def)
  from escape_inert [OF this, of s] show ?thesis by simp
qed

lemma escape_letter: "d \<in> set escape_letters \<Longrightarrow> html_escape (backslash # d # s) = backslash # d # html_escape s"
  using escape_inert [OF letter_inert [of d], of s] by simp

lemma html_char_code: "html_char c \<Longrightarrow> next_escape (quote_byte c @ r) = Some (of_char c)"
proof -
  assume c: "html_char c"
  define n :: nat where "n = of_char c"
  have q: "quote_byte c = [backslash, CHR ''u'', CHR ''0'', CHR ''0'', hex_digit (n div 16), hex_digit (n mod 16)]"
    using c by (auto simp: quote_byte_def html_char_def n_def)
  have "hex4 (CHR ''0'' # CHR ''0'' # hex_digit (n div 16) # hex_digit (n mod 16) # r) = Some (n div 16 * 16 + n mod 16)"
    using c by (intro hex4_byte) (auto simp: html_char_def n_def)
  then show ?thesis by (simp add: q next_escape_def n_def)
qed

lemma low_half_escape:
  assumes "raw_text s"
  shows "low_half (next_escape (html_escape s)) = low_half (next_escape s)"
  using assms
proof (cases rule: raw_text.cases)
  case Empty
  then show ?thesis by (simp add: html_escape.simps)
next
  case (Letter d s')
  then show ?thesis using letter_not_u [of d] by (simp add: escape_letter next_escape_def)
next
  case (Unicode h1 h2 h3 h4 x s')
  from escape_unicode [OF Unicode(2), of s'] hex4_Cons [of h1 h2 h3 h4 s'] hex4_Cons [of h1 h2 h3 h4 "html_escape s'"]
  show ?thesis unfolding Unicode(1) by (simp add: next_escape_def)
next
  case (Plain c s')
  then have no: "next_escape s = None" by (simp add: next_escape_def)
  show ?thesis
  proof (cases s rule: escape_cases)
    case (html c r)
    then show ?thesis using no html_char_code [of c "html_escape r"]
      by (auto simp: low_half_def html_char_def)
  next
    case (separator w r)
    then show ?thesis using no
      by (auto simp: low_half_def line_separators_def quote_rune_def next_escape_def hex4_codes)
  next
    case (other c r)
    with Plain no show ?thesis by (simp add: next_escape_def)
  qed (simp add: html_escape.simps)
qed

lemma next_escape_Some: "next_escape s = Some y \<Longrightarrow> \<exists>t. s = backslash # CHR ''u'' # t \<and> hex4 t = Some y"
proof -
  assume "next_escape s = Some y"
  then have t: "take 2 s = [backslash, CHR ''u'']" "hex4 (drop 2 s) = Some y" by (auto simp: next_escape_def split: if_splits)
  have "s = take 2 s @ drop 2 s" by simp
  then have "s = backslash # CHR ''u'' # drop 2 s" unfolding t(1) by simp
  with t(2) show ?thesis by blast
qed

definition same_step :: "string \<Rightarrow> bool" where
  "same_step s \<longleftrightarrow>
     (\<exists>k. next_rune (html_escape s) = (fst (next_rune s), k) \<and> drop k (html_escape s) = html_escape (drop (snd (next_rune s)) s)
        \<and> raw_text (drop (snd (next_rune s)) s))"

lemma same_stepI:
  assumes "next_rune s = (w, j)" and "next_rune (html_escape s) = (w, k)"
    and "drop k (html_escape s) = html_escape (drop j s)" and "raw_text (drop j s)"
  shows "same_step s"
  using assms unfolding same_step_def by (intro exI [of _ k]) simp

lemma ascii_rune: "c \<noteq> backslash \<Longrightarrow> (of_char c :: nat) < 128 \<Longrightarrow> next_rune (c # r) = ([c], 1)"
  by (simp add: next_rune_def)

lemma same_step_plain:
  assumes "c \<noteq> backslash" and "raw_text r" and "html_escape (c # r) = c # html_escape r"
  shows "same_step (c # r)"
proof (cases "(of_char c :: nat) < 128")
  case True
  show ?thesis
    by (rule same_stepI [of _ "[c]" 1 1]) (simp_all add: assms ascii_rune True)
next
  case high: False
  have len: "utf8_len (c # html_escape r) = utf8_len (c # r)"
    by (subst (1 2) utf8_len_conts) (simp add: conts_escape)
  show ?thesis
  proof (cases "utf8_len (c # r)")
    case 0
    then have "next_rune (c # r) = (replacement, 1)" "next_rune (c # html_escape r) = (replacement, 1)"
      using assms(1) high len by (simp_all add: next_rune_def)
    then show ?thesis by (intro same_stepI [of _ replacement 1 1]) (simp_all add: assms)
  next
    case (Suc n)
    note bytes = utf8_bytes_conts [OF Suc]
    have n: "length (take n r) = n" using utf8_len_le [of "c # r"] Suc by simp
    have "list_all inert (take n r)" using bytes(2) cont_inert by (auto simp: list_all_iff)
    from escape_inert [OF this, of "drop n r"] have e: "html_escape r = take n r @ html_escape (drop n r)" by simp
    have "next_rune (c # r) = (c # take n r, Suc n)" "next_rune (c # html_escape r) = (c # take n r, Suc n)"
      using assms(1) high Suc len n by (simp_all add: next_rune_def) (simp add: e)
    moreover have "drop n (html_escape r) = html_escape (drop n r)" using n by (subst e) simp
    moreover have "raw_text (drop n r)"
      using raw_text_high [of "take n r" "drop n r"] assms(2) bytes(2) by (auto simp: cont_byte_def)
    ultimately show ?thesis by (intro same_stepI [of _ "c # take n r" "Suc n" "Suc n"]) (simp_all add: assms)
  qed
qed

lemma same_step_unicode:
  assumes x: "hex4 [h1, h2, h3, h4] = Some x" and raw: "raw_text s"
  shows "same_step (backslash # CHR ''u'' # h1 # h2 # h3 # h4 # s)"
proof -
  note e = escape_unicode [OF x, of s]
  note rune = next_rune_unicode [OF x, of s] next_rune_unicode [OF x, of "html_escape s"] low_half_escape [OF raw]
  show ?thesis
  proof (cases "\<exists>y. 55296 \<le> x \<and> x < 56320 \<and> low_half (next_escape s) = Some y")
    case False
    let ?w = "if 55296 \<le> x \<and> x < 57344 then replacement else utf8_encode x"
    have "next_rune (backslash # CHR ''u'' # h1 # h2 # h3 # h4 # s) = (?w, 6)"
      "next_rune (backslash # CHR ''u'' # h1 # h2 # h3 # h4 # html_escape s) = (?w, 6)"
      unfolding rune using False by (auto split: option.splits)
    then show ?thesis using raw by (intro same_stepI [of _ ?w 6 6]) (simp_all add: e)
  next
    case True
    then obtain y where y: "55296 \<le> x" "x < 56320" "low_half (next_escape s) = Some y" by blast
    then have "next_escape s = Some y" by (auto simp: low_half_def split: option.splits if_splits)
    then obtain t where t: "s = backslash # CHR ''u'' # t" "hex4 t = Some y" using next_escape_Some by blast
    then obtain g1 g2 g3 g4 u where g: "t = g1 # g2 # g3 # g4 # u" "hex4 [g1, g2, g3, g4] = Some y"
      using hex4_parts by blast
    have u: "raw_text u"
      using raw unfolding t(1) g(1) by (cases rule: raw_text.cases) (auto dest: letter_not_u)
    have d: "drop 6 (html_escape s) = html_escape u"
      unfolding t(1) g(1) escape_unicode [OF g(2)] by simp
    let ?w = "utf8_encode ((x - 55296) * 1024 + (y - 56320) + 65536)"
    have "next_rune (backslash # CHR ''u'' # h1 # h2 # h3 # h4 # s) = (?w, 12)"
      "next_rune (backslash # CHR ''u'' # h1 # h2 # h3 # h4 # html_escape s) = (?w, 12)"
      using rune y by simp_all
    moreover have "drop 6 s = u" by (simp add: t(1) g(1))
    ultimately show ?thesis using u d
      by (intro same_stepI [of _ ?w 12 12]) (simp_all add: e)
  qed
qed

lemma raw_same_step:
  assumes "raw_text s" and "s \<noteq> []"
  shows "same_step s"
proof (cases s rule: escape_cases)
  case (html c r)
  then have c: "c \<noteq> backslash" "(of_char c :: nat) < 128" by (auto simp: html_char_def)
  then have "raw_text r" using assms(1) html(1) by (auto elim: raw_text_Cons)
  then show ?thesis
    using html c quote_byte_read(1) [OF c(2), of "html_escape r"]
    by (intro same_stepI [of _ "[c]" 1 "length (quote_byte c)"]) (simp_all add: ascii_rune)
next
  case (separator w r)
  note len = separator_len [OF separator(2)]
  obtain c t where w: "w = c # t" "(of_char c :: nat) = 226" using separator_first [OF separator(2)] by blast
  then have "c \<noteq> backslash" by auto
  with w len [of r] have "next_rune s = (w, 3)" unfolding separator(1) by (simp add: next_rune_def numeral_eq_Suc)
  moreover have "next_rune (quote_rune w @ html_escape r) = (w, length (quote_rune w))"
    using quote_rune_read(1) [of w 2 "html_escape r"] len [of "[]"] by simp
  moreover have "raw_text r" using raw_text_high [OF _ separator_high [OF separator(2)]] assms(1) separator(1) by blast
  ultimately show ?thesis using separator len [of r]
    by (intro same_stepI [of _ w 3 "length (quote_rune w)"]) simp_all
next
  case (other c r)
  from assms(1) show ?thesis
  proof (cases rule: raw_text.cases)
    case (Plain c' s')
    with other same_step_plain [of c r] show ?thesis by simp
  next
    case (Letter d s')
    then have "next_rune (backslash # d # u) = ([unescape d], 2)" for u
      using letter_not_u by (auto simp: next_rune_def)
    with Letter show ?thesis by (intro same_stepI [of _ "[unescape d]" 2 2]) (simp_all add: escape_letter)
  next
    case (Unicode h1 h2 h3 h4 x s')
    with same_step_unicode show ?thesis by blast
  qed (simp add: assms(2))
qed (simp add: assms(2))

lemma escape_nonempty: "s \<noteq> [] \<Longrightarrow> html_escape s \<noteq> []"
  by (cases s rule: escape_cases) (auto dest: quoted_start)

lemma unquote_escape: "raw_text s \<Longrightarrow> json_unquote (html_escape s) = json_unquote s"
proof (induction s rule: length_induct)
  case (1 s)
  show ?case
  proof (cases "s = []")
    case True
    then show ?thesis by (simp add: html_escape.simps)
  next
    case False
    obtain k where k: "next_rune (html_escape s) = (fst (next_rune s), k)"
      "drop k (html_escape s) = html_escape (drop (snd (next_rune s)) s)" "raw_text (drop (snd (next_rune s)) s)"
      using raw_same_step [OF "1.prems" False] unfolding same_step_def by blast
    have "length (drop (snd (next_rune s)) s) < length s" using next_rune_pos [of s] False by simp
    with "1.IH" k(3) have "json_unquote (html_escape (drop (snd (next_rune s)) s)) = json_unquote (drop (snd (next_rune s)) s)"
      by blast
    with k False escape_nonempty [OF False] show ?thesis by (subst (1 2) json_unquote.simps) simp
  qed
qed

section \<open>An escaped message is the same message\<close>

lemma escaped_ok: "raw_ok raw \<Longrightarrow> raw_ok (html_escape raw)"
  by (rule raw_text_ok [OF escape_raw_text [OF raw_ok_text]])

lemma escaped_same: "raw_ok raw \<Longrightarrow> json_unquote (html_escape raw) = json_unquote raw"
  by (rule unquote_escape [OF raw_ok_text])

lemma escape_tree_ok: "json_ok j \<Longrightarrow> json_ok (escape_tree j)"
  by (induction j) (auto simp: escaped_ok)

lemma escape_tree_depth: "json_depth (escape_tree j) = json_depth j"
proof (induction j)
  case (JArr vs)
  then have "map (json_depth \<circ> escape_tree) vs = map json_depth vs" by simp
  then show ?case by (simp only: escape_tree.simps json_depth.simps map_map)
next
  case (JObj kvs)
  then have "map ((\<lambda>(k, v). json_depth v) \<circ> (\<lambda>(k, v). (html_escape k, escape_tree v))) kvs = map (\<lambda>(k, v). json_depth v) kvs"
    by (intro map_cong) auto
  then show ?case by (simp only: escape_tree.simps json_depth.simps map_map)
qed simp_all

lemma escape_tree_value: "json_ok j \<Longrightarrow> json_go_value (escape_tree j) = json_go_value j"
proof (induction j)
  case (JArr vs)
  then have "map (json_go_value \<circ> escape_tree) vs = map json_go_value vs" by simp
  then show ?case by (simp only: escape_tree.simps json_go_value.simps map_map)
next
  case (JObj kvs)
  then have "map ((\<lambda>(k, v). json_go_value v) \<circ> (\<lambda>(k, v). (html_escape k, escape_tree v))) kvs = map (\<lambda>(k, v). json_go_value v) kvs"
    by (intro map_cong) auto
  moreover have "map ((\<lambda>(k, v). json_unquote k) \<circ> (\<lambda>(k, v). (html_escape k, escape_tree v))) kvs = map (\<lambda>(k, v). json_unquote k) kvs"
    using JObj.prems by (intro map_cong) (auto simp: escaped_same)
  ultimately show ?case by (simp only: escape_tree.simps json_go_value.simps map_map)
qed (simp_all add: escaped_same)

lemma indented_raw_message:
  assumes "parse_json raw = Some j"
  shows "\<exists>text j'. MarshalIndent_raw raw = Ok text \<and> parse_json text = Some j' \<and> json_go_value j' = json_go_value j"
proof -
  have ok: "json_ok j" "json_depth j \<le> max_nesting" using parse_json_ok parse_json_depth assms by blast+
  have "parse_json (indented_text (escape_tree j)) = Some (escape_tree j)"
    using ok by (intro parse_indented escape_tree_ok) (simp_all only: escape_tree_depth)
  with assms escape_tree_value [OF ok(1)] show ?thesis
    by (intro exI [of _ "indented_text (escape_tree j)"]) (simp add: MarshalIndent_raw_def)
qed

end
