(* ===== verification/Command_Line.thy ===== *)
theory Command_Line
  imports Server_Start Go_Encoding Go_Time Go_Json_Escape
begin

text \<open>
  The program's commands, \<open>cmd/nats-iam-broker\<close>: \<open>serve\<close> with its flags (\<open>serve.go\<close>),
  \<open>version\<close> (\<open>version.go\<close>) and \<open>decrypt\<close> (\<open>decrypt.go\<close>).
\<close>

section \<open>serve\<close>

text \<open>The flags as the command line gives them, in order; cobra parses the text.\<close>

datatype serve_flag =
    LogLevelFlag string
  | LogFormatFlag string
  | LogSensitiveFlag bool
  | MetricsFlag bool
  | MetricsPortFlag int
  | WatchFlag bool

primrec flag_name :: "serve_flag \<Rightarrow> string" where
  "flag_name (LogLevelFlag v) = ''log-level''"
| "flag_name (LogFormatFlag v) = ''log-format''"
| "flag_name (LogSensitiveFlag v) = ''log-sensitive''"
| "flag_name (MetricsFlag v) = ''metrics''"
| "flag_name (MetricsPortFlag v) = ''metrics-port''"
| "flag_name (WatchFlag v) = ''watch''"

primrec set_flag :: "serve_flag \<Rightarrow> options \<Rightarrow> options" where
  "set_flag (LogLevelFlag v) opts = opts\<lparr>LogLevel := v\<rparr>"
| "set_flag (LogFormatFlag v) opts = opts\<lparr>LogFormat := v\<rparr>"
| "set_flag (LogSensitiveFlag v) opts = opts\<lparr>LogSensitive := v\<rparr>"
| "set_flag (MetricsFlag v) opts = opts\<lparr>MetricsEnabled := v\<rparr>"
| "set_flag (MetricsPortFlag v) opts = opts\<lparr>MetricsPort := v\<rparr>"
| "set_flag (WatchFlag v) opts = opts\<lparr>WatchConfig := v\<rparr>"

text \<open>
  The declared flags, each with its default and its usage. Declaring a flag stores its default in the
  variable.
\<close>

definition serve_flags :: "(serve_flag \<times> string) list" where
  "serve_flags =
    [(LogLevelFlag ''info'', ''set log level: disabled, panic, fatal, error, warn, info, debug, trace''),
     (LogFormatFlag ''json'', ''set log format: json, human''),
     (LogSensitiveFlag False, ''enable sensitive logging (for debugging)''),
     (MetricsFlag False, ''enable Prometheus metrics endpoint''),
     (MetricsPortFlag DefaultMetricsPort, ''port for the metrics HTTP server''),
     (WatchFlag False, ''enable hot-reload of config files via file watching'')]"

definition declared_options :: options where
  "declared_options = fold set_flag (map fst serve_flags) DefaultServerOptions"

definition serve_options :: "serve_flag list \<Rightarrow> options" where
  "serve_options flags = fold set_flag flags declared_options"

definition cli_flags :: "serve_flag list \<Rightarrow> string \<Rightarrow> bool" where
  "cli_flags flags n \<longleftrightarrow> n \<in> flag_name ` set flags"

definition serve_RunE ::
  "'t template_engine \<Rightarrow> start_env \<Rightarrow> config_env \<Rightarrow> int \<Rightarrow> serve_flag list \<Rightarrow> string list
   \<Rightarrow> unit result \<times> ('t, 'p) run" where
  "serve_RunE te se env now flags args =
     Start te se env now args (serve_options flags) (cli_flags flags)"

section \<open>version\<close>

text \<open>\<open>build\<close> is the linked version, \<open>module\<close> that of the build information, if there is any.\<close>

definition version_text :: "string \<Rightarrow> string option \<Rightarrow> string" where
  "version_text build module =
     (case module of
        None \<Rightarrow> build
      | Some v \<Rightarrow> if build = ''dev'' \<and> v \<noteq> [] \<and> v \<noteq> ''(devel)'' then v else build) @ line_feed"

section \<open>decrypt\<close>

text \<open>
  From outside the repository: decoding a NATS JWT (\<open>nats-io/jwt\<close>), whose data is \<open>None\<close> where the
  token has none, and decrypting a JWE (\<open>go-jose\<close>). A decoded header is \<open>None\<close> when the JSON text
  is \<open>null\<close>.
\<close>

record generic_claims =
  gc_ClaimType :: string
  gc_Issuer :: string
  gc_Subject :: string
  gc_IssuedAt :: int
  gc_Expires :: int
  gc_NotBefore :: int
  gc_Name :: string
  gc_Audience :: string
  gc_ID :: string
  gc_Data :: "go_map option"

record 'j decrypt_env =
  de_rt :: go_runtime
  de_decode_generic :: "string \<Rightarrow> generic_claims result"
  de_parse_encrypted :: "string \<Rightarrow> 'j result"
  de_decrypt :: "'j \<Rightarrow> string \<Rightarrow> string result"

definition jwePartCount :: nat where
  "jwePartCount = 5"

definition natsJWTPartCount :: nat where
  "natsJWTPartCount = 3"

definition formatUnixTime :: "int \<Rightarrow> string" where
  "formatUnixTime t = (if t = 0 then [] else format_utc t)"

definition claims_map :: "generic_claims \<Rightarrow> go_map" where
  "claims_map gc =
     [(''type'', GStr (gc_ClaimType gc)), (''issuer'', GStr (gc_Issuer gc)), (''subject'', GStr (gc_Subject gc)),
      (''issued_at'', GStr (formatUnixTime (gc_IssuedAt gc))), (''expires'', GStr (formatUnixTime (gc_Expires gc))),
      (''not_before'', GStr (formatUnixTime (gc_NotBefore gc))), (''name'', GStr (gc_Name gc)),
      (''audience'', GStr (gc_Audience gc)), (''id'', GStr (gc_ID gc)), (''nats'', map_value (gc_Data gc))]"

definition tryDecodeNATSJWT :: "'j decrypt_env \<Rightarrow> string \<Rightarrow> string result" where
  "tryDecodeNATSJWT env token =
     (case de_decode_generic env token of
        Inl e \<Rightarrow> Err e
      | Inr gc \<Rightarrow> MarshalIndent (de_rt env) (GMap (claims_map gc)))"

definition decryptJWE :: "'j decrypt_env \<Rightarrow> string \<Rightarrow> string \<Rightarrow> string result" where
  "decryptJWE env token key =
     (case de_parse_encrypted env token of
        Inl e \<Rightarrow> Err (Wrapped ''parsing JWE'' e)
      | Inr jwe \<Rightarrow>
          (case de_decrypt env jwe key of
             Inl e \<Rightarrow> Err (Wrapped ''decrypting'' e)
           | Inr plaintext \<Rightarrow> Ok plaintext))"

definition decodeJWEHeader :: "'j decrypt_env \<Rightarrow> string \<Rightarrow> go_map option result" where
  "decodeJWEHeader env token =
     (case index_byte token CHR ''.'' of
        None \<Rightarrow> Err InvalidJweFormat
      | Some idx \<Rightarrow>
          (case raw_url_decode (take idx token) of
             Inl e \<Rightarrow> Err (Wrapped ''invalid base64url header'' e)
           | Inr headerBytes \<Rightarrow>
               (case Unmarshal_map headerBytes of
                  Inl e \<Rightarrow> Err (Wrapped ''invalid JSON header'' e)
                | Inr header \<Rightarrow> Ok header)))"

text \<open>What a command prints, and the error it returns.\<close>

type_synonym printed = "string \<times> unit result"

definition titled :: "string \<Rightarrow> string \<Rightarrow> string" where
  "titled title body = ''=== '' @ title @ '' ==='' @ line_feed @ body @ line_feed"

definition runDecodeNATSJWT :: "'j decrypt_env \<Rightarrow> string \<Rightarrow> printed" where
  "runDecodeNATSJWT env token =
     (case tryDecodeNATSJWT env token of
        Inl e \<Rightarrow> ([], Err (Wrapped ''error decoding NATS JWT'' e))
      | Inr decoded \<Rightarrow> (titled ''NATS JWT'' decoded, Ok ()))"

text \<open>The forms a payload is shown in: NATS JWT, JSON, or as it is.\<close>

definition show_payload :: "'j decrypt_env \<Rightarrow> string \<Rightarrow> string" where
  "show_payload env plaintext = line_feed @
     (case tryDecodeNATSJWT env plaintext of
        Inr decoded \<Rightarrow> titled ''Decrypted NATS JWT'' decoded
      | Inl _ \<Rightarrow>
          (case parse_json plaintext of
             Some _ \<Rightarrow> (case MarshalIndent_raw plaintext of
                          Inr buf \<Rightarrow> titled ''Decrypted Payload (JSON)'' buf
                        | Inl _ \<Rightarrow> titled ''Decrypted Payload (raw)'' plaintext)
           | None \<Rightarrow> titled ''Decrypted Payload (raw)'' plaintext))"

definition no_key_text :: string where
  "no_key_text = line_feed @ ''No --key provided; only header shown. Provide --key to decrypt payload.'' @ line_feed"

definition runDecodeJWEToken :: "'j decrypt_env \<Rightarrow> string \<Rightarrow> string \<Rightarrow> printed" where
  "runDecodeJWEToken env token keyStr =
     (case decodeJWEHeader env token of
        Inl e \<Rightarrow> ([], Err (Wrapped ''error decoding JWE header'' e))
      | Inr header \<Rightarrow>
     (case MarshalIndent (de_rt env) (map_value header) of
        Inl e \<Rightarrow> ([], Err (Wrapped ''error marshalling JWE header'' e))
      | Inr headerJSON \<Rightarrow>
          let shown = titled ''JWE Header'' headerJSON in
          if keyStr = [] then (shown @ no_key_text, Ok ())
          else
            (case raw_url_decode keyStr of
               Inl e \<Rightarrow> (shown, Err (Wrapped ''error decoding key'' e))
             | Inr key \<Rightarrow>
                 (case decryptJWE env token key of
                    Inl e \<Rightarrow> (shown, Err (Wrapped ''error decrypting token'' e))
                  | Inr plaintext \<Rightarrow> (shown @ show_payload env plaintext, Ok ())))))"

definition decrypt_RunE :: "'j decrypt_env \<Rightarrow> string \<Rightarrow> string \<Rightarrow> printed" where
  "decrypt_RunE env keyStr token =
     (let parts = length (split_char CHR ''.'' token) in
      if parts = natsJWTPartCount then runDecodeNATSJWT env token
      else if parts = jwePartCount then runDecodeJWEToken env token keyStr
      else ([], Err (UnrecognisedToken parts)))"

section \<open>The root command\<close>

text \<open>
  The commands as they are declared, with the least and the greatest number of arguments they accept
  (\<open>None\<close>: any number). Cobra finds a command by the first word of its usage, parses its flags and
  checks the number of its arguments before it runs it.
\<close>

datatype subcommand = ServeCmd | DecryptCmd | VersionCmd

record command =
  co_Use :: string
  co_Short :: string
  co_Long :: "string list"
  co_SilenceUsage :: bool
  co_MinArgs :: nat
  co_MaxArgs :: "nat option"
  co_Flags :: "(string \<times> string) list"

definition newServeCmd :: command where
  "newServeCmd =
     \<lparr>co_Use = ''serve [flags] config1.yaml [config2.yaml ...]'',
      co_Short = ''Start the IAM broker service'',
      co_Long = [''Start the NATS IAM broker auth callout service.'', [],
        ''One or more YAML configuration files must be provided. Files are merged'',
        ''in order: maps merge recursively, arrays concatenate, and later primitive'',
        ''values override earlier ones. Glob patterns are supported.''],
      co_SilenceUsage = False, co_MinArgs = 1, co_MaxArgs = None,
      co_Flags = map (\<lambda>(f, usage). (flag_name f, usage)) serve_flags\<rparr>"

definition newDecryptCmd :: command where
  "newDecryptCmd =
     \<lparr>co_Use = ''decrypt [flags] <token>'',
      co_Short = ''Decode a NATS JWT or decrypt a JWE-encrypted token'',
      co_Long = [''Decode a NATS JWT (3 dot-separated parts) directly, or decrypt'',
        ''a JWE-encrypted token (5 dot-separated parts) using a symmetric key.'', [],
        ''For NATS JWTs, no key is needed. For JWE tokens, provide --key with'',
        ''the symmetric key in base64url encoding.''],
      co_SilenceUsage = False, co_MinArgs = 1, co_MaxArgs = Some 1,
      co_Flags = [(''key'', ''symmetric key in base64url encoding (for JWE decryption)'')]\<rparr>"

definition newVersionCmd :: command where
  "newVersionCmd =
     \<lparr>co_Use = ''version'', co_Short = ''Print the version of nats-iam-broker'', co_Long = [],
      co_SilenceUsage = False, co_MinArgs = 0, co_MaxArgs = None, co_Flags = []\<rparr>"

text \<open>The dash in the short text is written in UTF-8.\<close>

definition newRootCmd :: "command \<times> (command \<times> subcommand) list" where
  "newRootCmd =
     (\<lparr>co_Use = ''nats-iam-broker'',
       co_Short = ''NATS IAM Broker '' @ [CHR 0xE2, CHR 0x80, CHR 0x94] @ '' OIDC-to-NATS auth callout service'',
       co_Long = [''nats-iam-broker is a NATS auth callout microservice that validates'',
         ''OIDC tokens from identity providers and mints short-lived NATS JWTs'',
         ''with permissions defined by RBAC role bindings.''],
       co_SilenceUsage = True, co_MinArgs = 0, co_MaxArgs = None, co_Flags = []\<rparr>,
      [(newServeCmd, ServeCmd), (newDecryptCmd, DecryptCmd), (newVersionCmd, VersionCmd)])"

definition co_Name :: "command \<Rightarrow> string" where
  "co_Name c = takeWhile (\<lambda>x. x \<noteq> CHR '' '') (co_Use c)"

definition accepts_args :: "command \<Rightarrow> nat \<Rightarrow> bool" where
  "accepts_args c n \<longleftrightarrow> co_MinArgs c \<le> n \<and> (case co_MaxArgs c of None \<Rightarrow> True | Some k \<Rightarrow> n \<le> k)"

definition find_command :: "string \<Rightarrow> (command \<times> subcommand) option" where
  "find_command word = find (\<lambda>(c, s). co_Name c = word) (snd newRootCmd)"

definition exit_status :: "unit result \<Rightarrow> int" where
  "exit_status r = (case r of Inl e \<Rightarrow> 1 | Inr _ \<Rightarrow> 0)"

lemma commands_found:
  "find_command ''serve'' = Some (newServeCmd, ServeCmd)" "find_command ''decrypt'' = Some (newDecryptCmd, DecryptCmd)"
  "find_command ''version'' = Some (newVersionCmd, VersionCmd)" "find_command [] = None"
  by (simp_all add: find_command_def newRootCmd_def co_Name_def newServeCmd_def newDecryptCmd_def newVersionCmd_def)

lemma every_flag_declared: "flag_name f \<in> fst ` set (co_Flags newServeCmd)"
  by (cases f) (simp_all add: newServeCmd_def serve_flags_def)

lemma accepted_args:
  "accepts_args newServeCmd n \<longleftrightarrow> 1 \<le> n" "accepts_args newDecryptCmd n \<longleftrightarrow> n = 1" "accepts_args newVersionCmd n"
  by (auto simp: accepts_args_def newServeCmd_def newDecryptCmd_def newVersionCmd_def)

section \<open>Lemmas: the flags of serve\<close>

text \<open>The value of the last flag of a kind, and the layers an option is taken from.\<close>

definition last_given :: "(serve_flag \<Rightarrow> 'a option) \<Rightarrow> serve_flag list \<Rightarrow> 'a option" where
  "last_given val flags = (case rev (List.map_filter val flags) of [] \<Rightarrow> None | v # _ \<Rightarrow> Some v)"

definition layered :: "'a option \<Rightarrow> bool \<Rightarrow> 'a \<Rightarrow> 'a \<Rightarrow> 'a" where
  "layered given yaml_set y d = (case given of Some v \<Rightarrow> v | None \<Rightarrow> if yaml_set then y else d)"

lemma last_given_Nil [simp]: "last_given val [] = None"
  by (simp add: last_given_def List.map_filter_def)

lemma last_given_snoc [simp]:
  "last_given val (flags @ [f]) = (case val f of None \<Rightarrow> last_given val flags | Some v \<Rightarrow> Some v)"
  by (simp add: last_given_def List.map_filter_def split: option.split)

lemma last_given_None: "last_given val flags = None \<longleftrightarrow> (\<forall>f\<in>set flags. val f = None)"
  by (induction flags rule: rev_induct) (auto split: option.split)

text \<open>One option: its flag's name and value, and its field.\<close>

locale option_flag =
  fixes name :: string
    and val :: "serve_flag \<Rightarrow> 'a option"
    and get :: "options \<Rightarrow> 'a"
  assumes name_iff: "flag_name f = name \<longleftrightarrow> val f \<noteq> None"
    and get_set: "get (set_flag f opts) = (case val f of None \<Rightarrow> get opts | Some v \<Rightarrow> v)"
begin

lemma given_iff: "cli_flags flags name \<longleftrightarrow> last_given val flags \<noteq> None"
proof -
  have "cli_flags flags name \<longleftrightarrow> (\<exists>f\<in>set flags. flag_name f = name)" by (auto simp: cli_flags_def)
  then show ?thesis by (auto simp: name_iff last_given_None)
qed

lemma get_fold: "get (fold set_flag flags opts) = (case last_given val flags of None \<Rightarrow> get opts | Some v \<Rightarrow> v)"
  by (induction flags rule: rev_induct) (simp_all add: get_set split: option.split)

lemma layer: "first_set (cli_flags flags name) (get (serve_options flags)) ys y d = layered (last_given val flags) ys y d"
  by (cases "last_given val flags") (simp_all add: first_set_def layered_def given_iff serve_options_def get_fold)

end

primrec log_level_flag :: "serve_flag \<Rightarrow> string option" where
  "log_level_flag (LogLevelFlag v) = Some v" | "log_level_flag (LogFormatFlag v) = None"
| "log_level_flag (LogSensitiveFlag v) = None" | "log_level_flag (MetricsFlag v) = None"
| "log_level_flag (MetricsPortFlag v) = None" | "log_level_flag (WatchFlag v) = None"

primrec log_format_flag :: "serve_flag \<Rightarrow> string option" where
  "log_format_flag (LogFormatFlag v) = Some v" | "log_format_flag (LogLevelFlag v) = None"
| "log_format_flag (LogSensitiveFlag v) = None" | "log_format_flag (MetricsFlag v) = None"
| "log_format_flag (MetricsPortFlag v) = None" | "log_format_flag (WatchFlag v) = None"

primrec log_sensitive_flag :: "serve_flag \<Rightarrow> bool option" where
  "log_sensitive_flag (LogSensitiveFlag v) = Some v" | "log_sensitive_flag (LogLevelFlag v) = None"
| "log_sensitive_flag (LogFormatFlag v) = None" | "log_sensitive_flag (MetricsFlag v) = None"
| "log_sensitive_flag (MetricsPortFlag v) = None" | "log_sensitive_flag (WatchFlag v) = None"

primrec metrics_on_flag :: "serve_flag \<Rightarrow> bool option" where
  "metrics_on_flag (MetricsFlag v) = Some v" | "metrics_on_flag (LogLevelFlag v) = None"
| "metrics_on_flag (LogFormatFlag v) = None" | "metrics_on_flag (LogSensitiveFlag v) = None"
| "metrics_on_flag (MetricsPortFlag v) = None" | "metrics_on_flag (WatchFlag v) = None"

primrec metrics_port_flag :: "serve_flag \<Rightarrow> int option" where
  "metrics_port_flag (MetricsPortFlag v) = Some v" | "metrics_port_flag (LogLevelFlag v) = None"
| "metrics_port_flag (LogFormatFlag v) = None" | "metrics_port_flag (LogSensitiveFlag v) = None"
| "metrics_port_flag (MetricsFlag v) = None" | "metrics_port_flag (WatchFlag v) = None"

primrec watch_flag :: "serve_flag \<Rightarrow> bool option" where
  "watch_flag (WatchFlag v) = Some v" | "watch_flag (LogLevelFlag v) = None"
| "watch_flag (LogFormatFlag v) = None" | "watch_flag (LogSensitiveFlag v) = None"
| "watch_flag (MetricsFlag v) = None" | "watch_flag (MetricsPortFlag v) = None"

interpretation log_level_option: option_flag "''log-level''" log_level_flag LogLevel
proof
  show "flag_name f = ''log-level'' \<longleftrightarrow> log_level_flag f \<noteq> None" for f by (cases f) simp_all
  show "LogLevel (set_flag f opts) = (case log_level_flag f of None \<Rightarrow> LogLevel opts | Some v \<Rightarrow> v)" for f opts
    by (cases f) simp_all
qed

interpretation log_format_option: option_flag "''log-format''" log_format_flag LogFormat
proof
  show "flag_name f = ''log-format'' \<longleftrightarrow> log_format_flag f \<noteq> None" for f by (cases f) simp_all
  show "LogFormat (set_flag f opts) = (case log_format_flag f of None \<Rightarrow> LogFormat opts | Some v \<Rightarrow> v)" for f opts
    by (cases f) simp_all
qed

interpretation log_sensitive_option: option_flag "''log-sensitive''" log_sensitive_flag LogSensitive
proof
  show "flag_name f = ''log-sensitive'' \<longleftrightarrow> log_sensitive_flag f \<noteq> None" for f by (cases f) simp_all
  show "LogSensitive (set_flag f opts) = (case log_sensitive_flag f of None \<Rightarrow> LogSensitive opts | Some v \<Rightarrow> v)" for f opts
    by (cases f) simp_all
qed

interpretation metrics_option: option_flag "''metrics''" metrics_on_flag MetricsEnabled
proof
  show "flag_name f = ''metrics'' \<longleftrightarrow> metrics_on_flag f \<noteq> None" for f by (cases f) simp_all
  show "MetricsEnabled (set_flag f opts) = (case metrics_on_flag f of None \<Rightarrow> MetricsEnabled opts | Some v \<Rightarrow> v)" for f opts
    by (cases f) simp_all
qed

interpretation metrics_port_option: option_flag "''metrics-port''" metrics_port_flag MetricsPort
proof
  show "flag_name f = ''metrics-port'' \<longleftrightarrow> metrics_port_flag f \<noteq> None" for f by (cases f) simp_all
  show "MetricsPort (set_flag f opts) = (case metrics_port_flag f of None \<Rightarrow> MetricsPort opts | Some v \<Rightarrow> v)" for f opts
    by (cases f) simp_all
qed

interpretation watch_option: option_flag "''watch''" watch_flag WatchConfig
proof
  show "flag_name f = ''watch'' \<longleftrightarrow> watch_flag f \<noteq> None" for f by (cases f) simp_all
  show "WatchConfig (set_flag f opts) = (case watch_flag f of None \<Rightarrow> WatchConfig opts | Some v \<Rightarrow> v)" for f opts
    by (cases f) simp_all
qed

text \<open>
  The options the broker runs with: each comes from the last flag given for it, also
  one that sets it to false; without a flag from the YAML files when they set it to something else
  than zero; and otherwise from the defaults.
\<close>

lemma serve_options_layers:
  "MergeOptions y (serve_options flags) (cli_flags flags) =
    \<lparr>LogLevel = layered (last_given log_level_flag flags) (LogLevel y \<noteq> []) (LogLevel y) ''info'',
     LogFormat = layered (last_given log_format_flag flags) (LogFormat y \<noteq> []) (LogFormat y) ''json'',
     LogSensitive = layered (last_given log_sensitive_flag flags) (LogSensitive y) True False,
     MetricsEnabled = layered (last_given metrics_on_flag flags) (MetricsEnabled y) True False,
     MetricsPort = layered (last_given metrics_port_flag flags) (MetricsPort y \<noteq> 0) (MetricsPort y) 8080,
     WatchConfig = layered (last_given watch_flag flags) (WatchConfig y) True False\<rparr>"
  unfolding merge_options_layers log_level_option.layer log_format_option.layer log_sensitive_option.layer
    metrics_option.layer metrics_port_option.layer watch_option.layer ..

section \<open>Lemmas: decrypt\<close>

lemma decode_header:
  "decodeJWEHeader env (raw_url_encode h @ CHR ''.'' # rest) =
     (case Unmarshal_map h of Inl e \<Rightarrow> Err (Wrapped ''invalid JSON header'' e) | Inr m \<Rightarrow> Ok m)"
proof -
  have "CHR ''.'' \<notin> set url_alphabet" by (simp add: url_alphabet_def)
  then have "CHR ''.'' \<notin> set (raw_url_encode h)" using raw_url_encode_chars by blast
  then show ?thesis by (simp add: decodeJWEHeader_def index_byte_first raw_url_round_trip)
qed

lemma raw_url_encode_Nil: "raw_url_encode k = [] \<longleftrightarrow> k = []"
proof -
  have "b64_digits bs = [] \<longleftrightarrow> bs = []" for bs by (cases bs rule: b64_digits.cases) simp_all
  then show ?thesis by (simp add: raw_url_encode_def bytes_of_def)
qed

lemma encoded_header_parts:
  "length (split_char CHR ''.'' (raw_url_encode h @ CHR ''.'' # rest)) = Suc (Suc (count_list rest CHR ''.''))"
proof -
  have "CHR ''.'' \<notin> set url_alphabet" by (simp add: url_alphabet_def)
  then have "CHR ''.'' \<notin> set (raw_url_encode h)" using raw_url_encode_chars by blast
  then show ?thesis by (simp add: length_split_char count_list_0_iff)
qed

text \<open>
  Property C37. What was encrypted can be looked at: for a token of five parts whose first part is the
  base64url text of its header, and the base64url text of the key it was encrypted with, \<open>decrypt\<close>
  succeeds and prints the header and the payload, and without a key the header alone. The header is
  printed as JSON that reads back as the header of the token, with its names in order.
\<close>

theorem decrypt_shows_header_and_payload:
  assumes "Unmarshal_map header = Ok h"
    and "\<forall>f\<in>set (json_floats (map_value h)). f64_reads_back (de_rt env) f"
    and "count_list rest CHR ''.'' = 3"
    and "key \<noteq> []"
    and "decryptJWE env (raw_url_encode header @ CHR ''.'' # rest) key = Ok plaintext"
  shows "\<exists>headerJSON.
     decrypt_RunE env (raw_url_encode key) (raw_url_encode header @ CHR ''.'' # rest) =
         (titled ''JWE Header'' headerJSON @ show_payload env plaintext, Ok ())
     \<and> decrypt_RunE env [] (raw_url_encode header @ CHR ''.'' # rest) =
         (titled ''JWE Header'' headerJSON @ no_key_text, Ok ())
     \<and> Unmarshal_map headerJSON = Ok (map_option normal_map h)"
proof -
  obtain t where t: "MarshalIndent (de_rt env) (map_value h) = Ok t" "Unmarshal_map t = Ok (map_option normal_map h)"
    using indented_reads_back [OF assms(1,2)] by blast
  with assms show ?thesis
    by (intro exI [of _ t])
      (simp add: decrypt_RunE_def encoded_header_parts natsJWTPartCount_def jwePartCount_def
        runDecodeJWEToken_def decode_header raw_url_encode_Nil raw_url_round_trip)
qed

definition sample_decrypt_env :: "string decrypt_env" where
  "sample_decrypt_env = \<lparr>de_rt = sample_runtime,
     de_decode_generic = (\<lambda>t. Err (ExtErr ''no JWT'')), de_parse_encrypted = Ok,
     de_decrypt = (\<lambda>j k. if k = ''secret'' then Ok ''{}'' else Err (ExtErr ''wrong key''))\<rparr>"

definition sample_header :: string where
  "sample_header = compact_text (JObj [(''enc'', JStr ''A256CBC-HS512''), (''alg'', JStr ''dir'')])"

lemma sample_header_read:
  "Unmarshal_map sample_header = Ok (Some [(''enc'', GStr ''A256CBC-HS512''), (''alg'', GStr ''dir'')])"
  by code_simp

theorem decrypt_shows_header_and_payload_witness:
  "\<exists>headerJSON.
     decrypt_RunE sample_decrypt_env (raw_url_encode ''secret'') (raw_url_encode sample_header @ CHR ''.'' # ''a.b.c.d'') =
         (titled ''JWE Header'' headerJSON @ show_payload sample_decrypt_env ''{}'', Ok ())
     \<and> decrypt_RunE sample_decrypt_env [] (raw_url_encode sample_header @ CHR ''.'' # ''a.b.c.d'') =
         (titled ''JWE Header'' headerJSON @ no_key_text, Ok ())
     \<and> Unmarshal_map headerJSON =
         Ok (map_option normal_map (Some [(''enc'', GStr ''A256CBC-HS512''), (''alg'', GStr ''dir'')]))"
  by (rule decrypt_shows_header_and_payload [OF sample_header_read])
    (simp_all add: sample_decrypt_env_def decryptJWE_def map_value_def)

text \<open>
  Property C38. A payload that is JSON and no NATS JWT is printed as JSON of the same value, whatever its
  strings hold: the layout in lines, and the escapes put for characters of HTML and for Unicode's line
  separators, change the text but not what it says. A payload that is neither is printed as it is.
\<close>

theorem printed_payload_keeps_its_value:
  assumes "tryDecodeNATSJWT env plaintext = Err e"
  shows "case parse_json plaintext of
      None \<Rightarrow> show_payload env plaintext = line_feed @ titled ''Decrypted Payload (raw)'' plaintext
    | Some j \<Rightarrow> \<exists>text j'. show_payload env plaintext = line_feed @ titled ''Decrypted Payload (JSON)'' text
        \<and> parse_json text = Some j' \<and> json_go_value j' = json_go_value j"
proof (cases "parse_json plaintext")
  case None
  with assms show ?thesis by (simp add: show_payload_def)
next
  case (Some j)
  with assms indented_raw_message [OF Some] show ?thesis by (auto simp: show_payload_def)
qed

theorem printed_payload_keeps_its_value_witness:
  "\<exists>text j'. show_payload sample_decrypt_env sample_header = line_feed @ titled ''Decrypted Payload (JSON)'' text
     \<and> parse_json text = Some j'
     \<and> json_go_value j' = json_go_value (JObj [(''enc'', JStr ''A256CBC-HS512''), (''alg'', JStr ''dir'')])"
proof -
  have "tryDecodeNATSJWT sample_decrypt_env sample_header = Err (ExtErr ''no JWT'')"
    by (simp add: tryDecodeNATSJWT_def sample_decrypt_env_def)
  moreover have "parse_json sample_header = Some (JObj [(''enc'', JStr ''A256CBC-HS512''), (''alg'', JStr ''dir'')])"
    by code_simp
  ultimately show ?thesis using printed_payload_keeps_its_value [of sample_decrypt_env sample_header] by simp
qed


lemma sample_moment: "formatUnixTime 1704067200 = ''2024-01-01T00:00:00Z''"
  by code_simp


end
