(* ===== verification/Spec2Isabelle.thy ===== *)
theory Spec2Isabelle
  imports Request_Spans Broker_Progress Auth_Refusals Audit_Message Credentials Claims_Json Command_Line Rbac_Properties
begin

text \<open>
  A model of nats-iam-broker, the auth callout service that turns tokens of OIDC identity providers
  into short-lived NATS user JWTs, and the theorems about it. Paths are relative to \<open>src/internal\<close>
  unless they start with \<open>cmd/\<close>.

  \<^bold>\<open>The program.\<close> \<open>cmd/nats-iam-broker\<close> parses the command line and calls
  \<open>broker.StartWithContext\<close> (\<open>broker/server.go\<close>). It merges the YAML files into a configuration
  (\<open>broker/config.go\<close>), renders the templates in it (\<open>broker/template_fns.go\<close>), builds a verifier
  per identity provider (\<open>broker/idp_jwt_verifier.go\<close>), optionally watches the files
  (\<open>broker/config_watcher.go\<close>), and serves \<open>$SYS.REQ.USER.AUTH\<close> (\<open>broker/auth_service.go\<close>). Each
  request is decrypted and decoded there and handed to the callback (\<open>broker/auth_callback.go\<close>),
  which verifies the provider's token, renders the configuration once more with its claims
  (\<open>broker/idp_jwt_claim.go\<close>), selects a role binding (\<open>broker/config_rbac.go\<close>), computes the
  lifetime (\<open>calculateExpiration\<close> in \<open>broker/server.go\<close>), publishes an audit event and returns the
  claims, which the service signs and sends. A reload replaces the live state as a whole; a request
  reads it once.

  \<^bold>\<open>Conventions.\<close> A Go string is a byte string, a Go map an association list with distinct keys in
  iteration order, an \<open>int64\<close> an integer whose arithmetic wraps where it can leave the range, a
  \<open>float64\<close> a dyadic number with Go's rounding and a single zero. An error is a value of
  \<open>go_error\<close>, a fallible call returns \<open>Inl\<close> or \<open>Inr\<close>; a call that can panic returns an \<open>outcome\<close>. Effects are threaded through
  records of the state. Code outside the repository is a field of a record of parameters
  (\<open>rbac_engine\<close>, \<open>jwt_lib\<close>, \<open>config_env\<close>, \<open>start_env\<close>, \<open>otel_env\<close>, \<open>decrypt_env\<close> and others).

  \<^bold>\<open>Theories, and what they model and show.\<close>
  \<^item> Prelude, Go_Strings, Go_Values, Go_Paths, Go_Regexp, Go_Encoding, Go_Time: results, panics,
    clocks, maps; and what the program uses of Go's \<open>strings\<close>, dynamic values, \<open>path/filepath\<close>,
    \<open>regexp\<close>, \<open>base64\<close> and \<open>time\<close>. Go_Regexp proves the backtracking matcher correct against the
    language of an expression; Go_Encoding the round trip and what the decoder accepts; Go_Time that
    the date computed is the date of the Gregorian calendar. The locales \<open>keyed_store\<close> (maps) and
    \<open>step_invariant\<close> (step relations) live in the Prelude.
  \<^item> Go_Json, Go_Json_Values, Go_Json_Roundtrip, Go_Json_Escape: \<open>encoding/json\<close>. The grammar of its
    scanner and the two layouts of its texts, instances of the locale \<open>json_layout\<close>, in which reading
    back what was written is proved once; UTF-8, quoting and numbers; which values pass through a text
    unchanged, and that the escapes put into a raw message do not change what it says.
  \<^item> Token_Request, Credentials: the token request that a client sends, \<open>TokenRequest\<close> in
    \<open>broker/config.go\<close>, read from JSON into the struct; each field is an instance of the locale
    \<open>struct_field\<close>. What \<open>extractJWT\<close> and \<open>extractTraceContext\<close> take from it, and that what a client
    sends arrives.
  \<^item> Claims_Json: \<open>toMap\<close> as it is written, through the text of the marshalled struct, equals the map
    that Idp_Claims computes.
  \<^item> Broker_Config, Samples: the configuration structs; a small configuration for the witnesses.
  \<^item> Server_Options, Command_Line: \<open>broker/options.go\<close>, \<open>logging/logging.go\<close>, \<open>broker/logging.go\<close>,
    \<open>broker/version_resolver.go\<close>, \<open>utils.go\<close>; and the commands \<open>serve\<close>, \<open>version\<close> and
    \<open>decrypt\<close>. The layers of the options from the flags on; what \<open>decrypt\<close> shows, and that the JSON it
    prints for a header or a payload says the same; the moment that \<open>formatUnixTime\<close> names. The locale \<open>option_flag\<close> is interpreted for each of the six flags.
  \<^item> Idp_Claims, Idp_Verifier: the claims struct with \<open>toMap\<close> and \<open>fromMap\<close>, and the verifiers. What
    the round trip of the claims keeps, when it panics, what an accepted token satisfies, which
    provider decides.
  \<^item> Templates: \<open>broker/template_fns.go\<close>. \<open>renderAll\<close> splices results with running offsets; it is
    proved equal to replacing each expression in place, and the search equal to its regular
    expression.
  \<^item> Yaml_Errors, Config_Merge, Config_Manager: \<open>improveYAMLErrorMessage\<close>, \<open>deepMerge\<close> and the
    merging of the files, \<open>NewConfigManager\<close>, \<open>GetConfig\<close>, account discovery. Merging is a fold over
    the documents; what each path holds; what a configuration handed to a request satisfies.
  \<^item> Rbac, Rbac_Selection, Rbac_Properties: matching, both selection strategies, collation of roles.
    The loops refine the selections \<open>strict_pick\<close> and \<open>best_pick\<close>, both instances of the locale
    \<open>binding_selector\<close>; the properties are read off these.
  \<^item> Token_Expiry: \<open>calculateExpiration\<close> as two clamps and a ceiling, on an \<open>expiry_pipeline\<close>.
  \<^item> Metrics_Health, Tracing: \<open>metrics/\<close>, with what the health endpoints answer after any history,
    and \<open>tracing/\<close>; \<open>Setup\<close> is the one that Server_Start calls.
  \<^item> Auth_Callback, Auth_Callback_Properties, Auth_Refusals: one request in the callback; what a
    granted answer rests on, its audit event and its counts. The relation \<open>refusal\<close> lists the reasons a
    request is refused for, and the handler refuses for these and for no others.
  \<^item> Audit_Message: the JSON of an audit event, and that a listener reads the event back from it.
  \<^item> Auth_Service: the endpoint around the callback. Its lemmas are proved for any handler that meets
    the locale \<open>auth_handler\<close> (or \<open>audited_handler\<close>) and hold for the callback by interpretation.
  \<^item> Config_Watcher: the watch loop as a step relation with a clock and a debounce timer; the live
    state is always one consistent configuration, reloads are debounced, a pending change is served.
  \<^item> Server_Start: \<open>StartWithContext\<close> stage by stage with its deferred calls.
  \<^item> Broker_System: the running broker. A step relation interleaves watching, reloading, requests and
    answers over the models above; its invariants give that every token sent stands on the audit
    record, under the configuration its request read, and that the counters agree with the answers.
  \<^item> Broker_Progress: when nothing panics. Claims without \<open>null\<close> stay so through \<open>fromMap\<close> and
    \<open>toMap\<close>, and the service, in the locale \<open>answering_handler\<close>, answers whenever its handler does;
    so every request is answered, and the running requests of any state can be answered in any order.
  \<^item> Request_Spans: the calls on the tracing spans of a request, along the control flow of \<open>Handle\<close>
    and \<open>handleAuthRequest\<close>; they are nested, end once, belong to the client's trace, and say what was
    sent.

  \<^bold>\<open>Termination.\<close> Every definition is total: recursion is structural or has a
  measure (the length of the text still to be read, in the searches and replacements). Only the
  readers of JSON take a bound on the number of their calls, \<open>2 * length + 2\<close>; by
  \<open>parse_json_iff\<close> it is enough for every text, as no bound reads a text that this one
  does not. The only relations with steps are the watch loop and the system, which may go on for
  ever; that a request is answered, and that the running ones drain, is proved in Broker_Progress.
  Not being answered is the outcome \<open>Panic\<close>: it needs an account without a signing key
  or a \<open>null\<close> in a provider's claims. \<open>formatUnixTime\<close> is exact for every
  \<open>int64\<close> from -9223372028741760000 on; below that Go's own count of seconds wraps, as
  in the model.

  \<^bold>\<open>Not modelled.\<close> Log lines, and \<open>configParsePhase\<close>, which only
  chooses their level; the Prometheus registry and the HTTP transport below
  \<open>NewServer\<close>; the parsing of the command line by cobra; the signal
  \<open>WaitForInterrupt\<close> waits for, which is the end of the effect \<open>Serving\<close>;
  the clock and the export of spans; the helpers of the integration tests, which start containers.
  YAML texts, the expression language, OIDC discovery and signatures, JWE, NATS keys and JWTs, the
  file system and fsnotify are parameters: their code is not in the repository, or they are formats
  whose codec the program only calls. In Broker_System a request is two steps, reading the live
  state and being answered, with anything in between; what the answer does to the counters, the
  audit record and the expression cache is one step, where the code makes several atomic updates
  that commute with those of other requests.
\<close>

end
